(* ===== verification/Prelude.thy ===== *)
theory Prelude
  imports Complex_Main "HOL-Library.Word" "HOL-Library.Char_ord" "HOL-Library.List_Lexorder"
    "HOL-Library.AList" "HOL-Library.Sublist"
begin

text \<open>
  Prelude of the Grits/Gimbal client development: the exceptions of the JavaScript code as
  values, the state-and-exception programs in which the asynchronous methods are written, the
  string and \<open>Map\<close> operations of the language that the sources use, and the generic lemmas
  about them that every component shares.

  A JavaScript string is a \<open>char list\<close> holding the UTF-8 code units of the text, so
  \<open>TextEncoder.encode\<close> keeps the list and every separator the sources search for
  is one character. A \<open>Uint8Array\<close> or \<open>ArrayBuffer\<close> is an \<open>8 word list\<close>. A JavaScript
  \<open>Map\<close> (or an object used as one) is an association list in insertion order.
\<close>

section \<open>Collections of simp and introduction rules\<close>

named_theorems prog_simps \<open>unfolding of the program combinators\<close>
named_theorems preserved_intros \<open>introduction rules for preserved predicates\<close>

type_synonym u8 = "8 word"
type_synonym cid = string

section \<open>Exceptions\<close>

text \<open>The exceptions the sources throw or let through, by constructor.\<close>

datatype err =
    Err_Error string          \<comment> \<open>\<open>new Error(msg)\<close>\<close>
  | Err_Type string           \<comment> \<open>\<open>TypeError\<close>, also a failed \<open>fetch\<close>\<close>
  | Err_Range string          \<comment> \<open>\<open>RangeError\<close>\<close>
  | Err_Reference string      \<comment> \<open>\<open>ReferenceError\<close>\<close>
  | Err_Syntax string         \<comment> \<open>\<open>SyntaxError\<close> of \<open>JSON.parse\<close>\<close>
  | Err_Abort                 \<comment> \<open>\<open>DOMException\<close> of an aborted signal\<close>
  | Err_Assertion string      \<comment> \<open>\<open>AssertionError\<close> of GritsClient.js\<close>
  | Err_AccessDenied string   \<comment> \<open>\<open>AccessDeniedError\<close> of GritsClient.js, carrying the path\<close>

text \<open>The \<open>message\<close> property.\<close>

fun err_message :: "err \<Rightarrow> string" where
  "err_message (Err_Error m) = m"
| "err_message (Err_Type m) = m"
| "err_message (Err_Range m) = m"
| "err_message (Err_Reference m) = m"
| "err_message (Err_Syntax m) = m"
| "err_message Err_Abort = ''aborted''"
| "err_message (Err_Assertion m) = m"
| "err_message (Err_AccessDenied p) = ''access denied: '' @ p"

fun is_assertion :: "err \<Rightarrow> bool" where
  "is_assertion (Err_Assertion m) = True"
| "is_assertion e = False"

lemma is_assertion_iff: "is_assertion e \<longleftrightarrow> (\<exists>m. e = Err_Assertion m)"
  by (cases e) auto

section \<open>Programs: state passing with exceptions\<close>

text \<open>
  A method body maps the state to its outcome (\<open>Inl\<close> a thrown exception, \<open>Inr\<close> the returned
  value) and the state it leaves: as in JavaScript, a throw keeps the mutations made before it.
\<close>

type_synonym ('s, 'a) prog = "'s \<Rightarrow> (err + 'a) \<times> 's"

definition ret :: "'a \<Rightarrow> ('s, 'a) prog" where
  "ret x = (\<lambda>s. (Inr x, s))"

definition throw :: "err \<Rightarrow> ('s, 'a) prog" where
  "throw e = (\<lambda>s. (Inl e, s))"

definition pbind :: "('s, 'a) prog \<Rightarrow> ('a \<Rightarrow> ('s, 'b) prog) \<Rightarrow> ('s, 'b) prog" where
  "pbind m f = (\<lambda>s. case m s of (Inl e, s') \<Rightarrow> (Inl e, s') | (Inr x, s') \<Rightarrow> f x s')"

text \<open>\<open>try { m } catch (e) { h(e) }\<close>\<close>

definition try_catch :: "('s, 'a) prog \<Rightarrow> (err \<Rightarrow> ('s, 'a) prog) \<Rightarrow> ('s, 'a) prog" where
  "try_catch m h = (\<lambda>s. case m s of (Inl e, s') \<Rightarrow> h e s' | (Inr x, s') \<Rightarrow> (Inr x, s'))"

text \<open>The outcome of a sub-program as a value, so that both branches can be continued.\<close>

definition attempt :: "('s, 'a) prog \<Rightarrow> ('s, err + 'a) prog" where
  "attempt m = (\<lambda>s. case m s of (r, s') \<Rightarrow> (Inr r, s'))"

definition reads :: "('s \<Rightarrow> 'a) \<Rightarrow> ('s, 'a) prog" where
  "reads f = (\<lambda>s. (Inr (f s), s))"

definition modify :: "('s \<Rightarrow> 's) \<Rightarrow> ('s, unit) prog" where
  "modify f = (\<lambda>s. (Inr (), f s))"

definition lift_res :: "err + 'a \<Rightarrow> ('s, 'a) prog" where
  "lift_res r = (\<lambda>s. (r, s))"

text \<open>\<open>for (const x of xs) body(x)\<close>: the first exception leaves the loop.\<close>

fun for_each :: "'x list \<Rightarrow> ('x \<Rightarrow> ('s, unit) prog) \<Rightarrow> ('s, unit) prog" where
  "for_each [] f = ret ()"
| "for_each (x # xs) f = pbind (f x) (\<lambda>_. for_each xs f)"

text \<open>\<open>Promise.all(xs.map(f))\<close>, run in list order.\<close>

fun map_each :: "('x \<Rightarrow> ('s, 'y) prog) \<Rightarrow> 'x list \<Rightarrow> ('s, 'y list) prog" where
  "map_each f [] = ret []"
| "map_each f (x # xs) = pbind (f x) (\<lambda>y. pbind (map_each f xs) (\<lambda>ys. ret (y # ys)))"

lemma ret_run [prog_simps]: "ret x s = (Inr x, s)"
  by (simp add: ret_def)

lemma throw_run [prog_simps]: "throw e s = (Inl e, s)"
  by (simp add: throw_def)

lemma reads_run [prog_simps]: "reads f s = (Inr (f s), s)"
  by (simp add: reads_def)

lemma modify_run [prog_simps]: "modify f s = (Inr (), f s)"
  by (simp add: modify_def)

lemma lift_res_run [prog_simps]: "lift_res r s = (r, s)"
  by (simp add: lift_res_def)

lemma attempt_run [prog_simps]: "attempt m s = (Inr (fst (m s)), snd (m s))"
  by (simp add: attempt_def split: prod.split)

lemma pbind_run [prog_simps]:
  "pbind m f s = (case m s of (Inl e, s') \<Rightarrow> (Inl e, s') | (Inr x, s') \<Rightarrow> f x s')"
  by (simp add: pbind_def)

lemma try_catch_run [prog_simps]:
  "try_catch m h s = (case m s of (Inl e, s') \<Rightarrow> h e s' | (Inr x, s') \<Rightarrow> (Inr x, s'))"
  by (simp add: try_catch_def)

lemma pbind_ret_left [simp]: "pbind (ret x) f = f x"
  by (simp add: pbind_def ret_def)

lemma pbind_throw [simp]: "pbind (throw e) f = throw e"
  by (simp add: pbind_def throw_def)

lemma pbind_ret_right [simp]: "pbind m ret = m"
  by (rule ext) (simp add: pbind_def ret_def split: prod.split sum.split)

lemma pbind_assoc: "pbind (pbind m f) g = pbind m (\<lambda>x. pbind (f x) g)"
  by (rule ext) (simp add: pbind_def split: prod.split sum.split)

lemma try_catch_ret [simp]: "try_catch (ret x) h = ret x"
  by (simp add: try_catch_def ret_def)

lemma try_catch_throw [simp]: "try_catch (throw e) h = h e"
  by (simp add: try_catch_def throw_def)

lemma pbind_InrE:
  assumes "pbind m f s = (Inr y, t)"
  obtains x s' where "m s = (Inr x, s')" and "f x s' = (Inr y, t)"
  using assms by (auto simp: pbind_def split: prod.splits sum.splits)

lemma pbind_Inr: "m s = (Inr x, s') \<Longrightarrow> pbind m f s = f x s'"
  by (simp add: pbind_def)

lemma pbind_Inl: "m s = (Inl e, s') \<Longrightarrow> pbind m f s = (Inl e, s')"
  by (simp add: pbind_def)

lemma try_catch_Inr: "m s = (Inr x, s') \<Longrightarrow> try_catch m h s = (Inr x, s')"
  by (simp add: try_catch_def)

lemma try_catch_Inl: "m s = (Inl e, s') \<Longrightarrow> try_catch m h s = h e s'"
  by (simp add: try_catch_def)

subsection \<open>Predicates a program preserves\<close>

definition preserved :: "('s \<Rightarrow> bool) \<Rightarrow> ('s, 'a) prog \<Rightarrow> bool" where
  "preserved I m \<longleftrightarrow> (\<forall>s. I s \<longrightarrow> I (snd (m s)))"

lemma preservedD: "preserved I m \<Longrightarrow> I s \<Longrightarrow> I (snd (m s))"
  by (simp add: preserved_def)

lemma preservedD_eq: "preserved I m \<Longrightarrow> m s = (r, t) \<Longrightarrow> I s \<Longrightarrow> I t"
  using preservedD [of I m s] by simp

lemma preserved_ret [preserved_intros, simp]: "preserved I (ret x)"
  by (simp add: preserved_def ret_def)

lemma preserved_throw [preserved_intros, simp]: "preserved I (throw e)"
  by (simp add: preserved_def throw_def)

lemma preserved_reads [preserved_intros, simp]: "preserved I (reads f)"
  by (simp add: preserved_def reads_def)

lemma preserved_lift_res [preserved_intros, simp]: "preserved I (lift_res r)"
  by (simp add: preserved_def lift_res_def)

lemma preserved_modify [preserved_intros]: "(\<And>s. I s \<Longrightarrow> I (f s)) \<Longrightarrow> preserved I (modify f)"
  by (simp add: preserved_def modify_def)

lemma preserved_pbind [preserved_intros]:
  "preserved I m \<Longrightarrow> (\<And>x. preserved I (f x)) \<Longrightarrow> preserved I (pbind m f)"
  by (fastforce simp: preserved_def pbind_def split: prod.split sum.split)

lemma preserved_try_catch [preserved_intros]:
  "preserved I m \<Longrightarrow> (\<And>e. preserved I (h e)) \<Longrightarrow> preserved I (try_catch m h)"
  by (fastforce simp: preserved_def try_catch_def split: prod.split sum.split)

lemma preserved_attempt [preserved_intros]: "preserved I m \<Longrightarrow> preserved I (attempt m)"
  by (auto simp: preserved_def attempt_def split: prod.split)

lemma preserved_for_each [preserved_intros]:
  "(\<And>x. x \<in> set xs \<Longrightarrow> preserved I (f x)) \<Longrightarrow> preserved I (for_each xs f)"
  by (induction xs) (auto intro!: preserved_pbind)

lemma preserved_map_each [preserved_intros]:
  "(\<And>x. x \<in> set xs \<Longrightarrow> preserved I (f x)) \<Longrightarrow> preserved I (map_each f xs)"
  by (induction xs) (auto intro!: preserved_pbind)

subsection \<open>Predicates a program preserves, and what it returns\<close>

text \<open>
  From a state with \<open>I\<close> the program keeps \<open>I\<close>, whether it returns or throws, and a value
  it returns satisfies \<open>Q\<close>.
\<close>

definition gives :: "('s \<Rightarrow> bool) \<Rightarrow> ('s, 'a) prog \<Rightarrow> ('a \<Rightarrow> bool) \<Rightarrow> bool" where
  "gives I m Q \<longleftrightarrow> (\<forall>s. I s \<longrightarrow> I (snd (m s)) \<and> (\<forall>x. fst (m s) = Inr x \<longrightarrow> Q x))"

named_theorems gives_intros \<open>rules for programs that keep an invariant and what they return\<close>

lemma givesD: "gives I m Q \<Longrightarrow> m s = (r, t) \<Longrightarrow> I s \<Longrightarrow> I t \<and> (\<forall>x. r = Inr x \<longrightarrow> Q x)"
  by (metis fst_conv gives_def snd_conv)

lemma gives_preserved: "gives I m Q \<Longrightarrow> preserved I m"
  by (simp add: gives_def preserved_def)

lemma gives_True: "preserved I m \<Longrightarrow> gives I m (\<lambda>_. True)"
  by (simp add: gives_def preserved_def)

lemma gives_weaken: "gives I m Q \<Longrightarrow> (\<And>x. Q x \<Longrightarrow> R x) \<Longrightarrow> gives I m R"
  by (auto simp: gives_def)

lemma gives_ret [gives_intros]: "Q x \<Longrightarrow> gives I (ret x) Q"
  by (simp add: gives_def ret_def)

lemma gives_throw [gives_intros]: "gives I (throw e) Q"
  by (simp add: gives_def throw_def)

lemma gives_bind:
  "gives I m Q \<Longrightarrow> (\<And>x. Q x \<Longrightarrow> gives I (f x) R) \<Longrightarrow> gives I (pbind m f) R"
  by (fastforce simp: gives_def pbind_def split: prod.split sum.split)

lemma gives_bind_any: "preserved I m \<Longrightarrow> (\<And>x. gives I (f x) R) \<Longrightarrow> gives I (pbind m f) R"
  by (rule gives_bind [OF gives_True])

lemma preserved_bind_gives:
  "gives I m Q \<Longrightarrow> (\<And>x. Q x \<Longrightarrow> preserved I (f x)) \<Longrightarrow> preserved I (pbind m f)"
  by (fastforce simp: gives_def preserved_def pbind_def split: prod.split sum.split)

lemma gives_lift_res: "(\<And>x. r = Inr x \<Longrightarrow> Q x) \<Longrightarrow> gives I (lift_res r) Q"
  by (simp add: gives_def lift_res_def)

lemma gives_map_each: "(\<And>x. x \<in> set xs \<Longrightarrow> gives I (f x) Q) \<Longrightarrow> gives I (map_each f xs) (list_all Q)"
proof (induction xs)
  case (Cons x xs)
  then have fx: "gives I (f x) Q" and rest: "gives I (map_each f xs) (list_all Q)" by simp_all
  show ?case unfolding map_each.simps
    by (rule gives_bind [OF fx], rule gives_bind [OF rest], rule gives_ret, simp)
qed (simp add: gives_ret)

section \<open>JavaScript Map\<close>

text \<open>
  \<open>map.get(k)\<close>, \<open>map.set(k, v)\<close> (an existing key keeps its place), \<open>map.delete(k)\<close> and
  \<open>map.has(k)\<close>.
\<close>

abbreviation map_get :: "('k \<times> 'v) list \<Rightarrow> 'k \<Rightarrow> 'v option" where
  "map_get m k \<equiv> map_of m k"

abbreviation map_set :: "'k \<Rightarrow> 'v \<Rightarrow> ('k \<times> 'v) list \<Rightarrow> ('k \<times> 'v) list" where
  "map_set k v m \<equiv> AList.update k v m"

abbreviation map_del :: "'k \<Rightarrow> ('k \<times> 'v) list \<Rightarrow> ('k \<times> 'v) list" where
  "map_del k m \<equiv> AList.delete k m"

definition map_has :: "('k \<times> 'v) list \<Rightarrow> 'k \<Rightarrow> bool" where
  "map_has m k \<longleftrightarrow> map_get m k \<noteq> None"

text \<open>\<open>v ?? d\<close> on a value that may be missing, and \<open>v || 0\<close> on a number.\<close>

definition or_else :: "'a option \<Rightarrow> 'a \<Rightarrow> 'a" where
  "or_else v d = (case v of None \<Rightarrow> d | Some x \<Rightarrow> x)"

abbreviation or_else0 :: "int option \<Rightarrow> int" where
  "or_else0 v \<equiv> or_else v 0"

lemma or_else_simps [simp]: "or_else None d = d" "or_else (Some x) d = x"
  by (simp_all add: or_else_def)

lemma map_get_set [simp]: "map_get (map_set k v m) k' = (if k' = k then Some v else map_get m k')"
  by (simp add: update_conv')

lemma map_get_del [simp]: "map_get (map_del k m) k' = (if k' = k then None else map_get m k')"
  by (simp add: delete_conv')

lemma map_has_iff: "map_has m k \<longleftrightarrow> k \<in> fst ` set m"
  by (simp add: map_has_def map_of_eq_None_iff)

lemma keys_map_set: "fst ` set (map_set k v m) = insert k (fst ` set m)"
  by (simp add: dom_update)

lemma keys_map_del: "fst ` set (map_del k m) = fst ` set m - {k}"
  by (induction m) auto

lemma distinct_map_set [intro]: "distinct (map fst m) \<Longrightarrow> distinct (map fst (map_set k v m))"
  by (simp add: distinct_update)

lemma distinct_map_del [intro]: "distinct (map fst m) \<Longrightarrow> distinct (map fst (map_del k m))"
  by (simp add: distinct_delete)

lemma set_map_set_subset: "set (map_set k v m) \<subseteq> insert (k, v) (set m)"
  by (induction m) (auto split: if_splits)

lemma set_map_del_subset: "set (map_del k m) \<subseteq> set m"
  by (induction m) (auto split: if_splits)

section \<open>The first element of a sorted array\<close>

lemma hd_sort_key_in: "xs \<noteq> [] \<Longrightarrow> hd (sort_key f xs) \<in> set xs"
proof -
  assume "xs \<noteq> []"
  then have "sort_key f xs \<noteq> []" by (metis length_sort length_0_conv)
  then show ?thesis using hd_in_set set_sort by metis
qed

lemma hd_sort_key_le: "y \<in> set xs \<Longrightarrow> f (hd (sort_key f xs)) \<le> f y"
proof -
  assume "y \<in> set xs"
  then have y: "y \<in> set (sort_key f xs)" by simp
  then obtain z zs where "sort_key f xs = z # zs" by (cases "sort_key f xs") auto
  moreover have "sorted (map f (sort_key f xs))" by (rule sorted_sort_key)
  ultimately show ?thesis using y by auto
qed

section \<open>JavaScript strings\<close>

abbreviation starts_with :: "string \<Rightarrow> string \<Rightarrow> bool" where
  "starts_with pre s \<equiv> prefix pre s"

abbreviation ends_with :: "string \<Rightarrow> string \<Rightarrow> bool" where
  "ends_with suf s \<equiv> suffix suf s"

text \<open>\<open>s.includes(sub)\<close>\<close>

abbreviation str_includes :: "string \<Rightarrow> string \<Rightarrow> bool" where
  "str_includes s sub \<equiv> sublist sub s"

abbreviation slash :: char where "slash \<equiv> CHR 0x2F"

text \<open>\<open>s.split(c)\<close> for a one-character separator, and \<open>ws.join(sep)\<close>.\<close>

fun js_split :: "char \<Rightarrow> string \<Rightarrow> string list" where
  "js_split c [] = [[]]"
| "js_split c (x # xs) =
     (if x = c then [] # js_split c xs
      else (case js_split c xs of [] \<Rightarrow> [[x]] | w # ws \<Rightarrow> (x # w) # ws))"

fun js_join :: "string \<Rightarrow> string list \<Rightarrow> string" where
  "js_join sep [] = []"
| "js_join sep [w] = w"
| "js_join sep (w # v # ws) = w @ sep @ js_join sep (v # ws)"

text \<open>\<open>p.split('/').filter(Boolean)\<close>\<close>

definition path_parts :: "string \<Rightarrow> string list" where
  "path_parts p = filter (\<lambda>w. w \<noteq> []) (js_split slash p)"

text \<open>\<open>s.replace(/^\/+/, '')\<close> and \<open>s.replace(/\/+$/, '')\<close>\<close>

definition strip_lead :: "string \<Rightarrow> string" where
  "strip_lead s = dropWhile (\<lambda>c. c = slash) s"

definition strip_trail :: "string \<Rightarrow> string" where
  "strip_trail s = rev (dropWhile (\<lambda>c. c = slash) (rev s))"

text \<open>\<open>s.replace(/\/$/, '')\<close> and \<open>s.replace(/\/?$/, '/')\<close>\<close>

definition drop_last_slash :: "string \<Rightarrow> string" where
  "drop_last_slash s = (if s \<noteq> [] \<and> last s = slash then butlast s else s)"

definition with_last_slash :: "string \<Rightarrow> string" where
  "with_last_slash s = drop_last_slash s @ [slash]"

lemma js_split_nonempty [simp]: "js_split c s \<noteq> []"
  by (induction s) (auto split: list.split)

lemma js_join_Cons: "ws \<noteq> [] \<Longrightarrow> js_join sep (w # ws) = w @ sep @ js_join sep ws"
  by (cases ws) auto

lemma js_join_split [simp]: "js_join [c] (js_split c s) = s"
proof (induction s)
  case Nil
  then show ?case by simp
next
  case (Cons x xs)
  obtain w ws where "js_split c xs = w # ws"
    by (cases "js_split c xs") auto
  with Cons.IH show ?case
    by (cases ws) auto
qed

lemma js_split_no_sep: "c \<notin> set w \<Longrightarrow> js_split c w = [w]"
  by (induction w) auto

lemma js_split_append: "c \<notin> set w \<Longrightarrow> js_split c (w @ c # s) = w # js_split c s"
  by (induction w) auto

lemma js_split_join:
  "ws \<noteq> [] \<Longrightarrow> \<forall>w \<in> set ws. c \<notin> set w \<Longrightarrow> js_split c (js_join [c] ws) = ws"
proof (induction ws)
  case Nil
  then show ?case by simp
next
  case (Cons w ws)
  show ?case
  proof (cases "ws = []")
    case True
    with Cons.prems show ?thesis by (simp add: js_split_no_sep)
  next
    case False
    with Cons show ?thesis by (simp add: js_join_Cons js_split_append)
  qed
qed

lemma js_split_parts_no_sep: "w \<in> set (js_split c s) \<Longrightarrow> c \<notin> set w"
proof (induction s arbitrary: w)
  case Nil
  then show ?case by simp
next
  case (Cons x xs)
  then show ?case
    by (cases "js_split c xs") (auto split: if_splits)
qed

lemma path_parts_no_slash: "w \<in> set (path_parts p) \<Longrightarrow> slash \<notin> set w \<and> w \<noteq> []"
  by (auto simp: path_parts_def dest: js_split_parts_no_sep)

lemma path_parts_Nil [simp]: "path_parts [] = []"
  by (simp add: path_parts_def)

lemma path_parts_slash [simp]: "path_parts (slash # s) = path_parts s"
  by (simp add: path_parts_def)

lemma path_parts_append_slash:
  "path_parts (s @ slash # t) = path_parts s @ path_parts t"
proof -
  have "js_split slash (s @ slash # t) = js_split slash s @ js_split slash t"
  proof (induction s)
    case Nil
    then show ?case by simp
  next
    case (Cons x xs)
    then show ?case by (cases "js_split slash xs") auto
  qed
  then show ?thesis by (simp add: path_parts_def)
qed

lemma path_parts_single: "slash \<notin> set w \<Longrightarrow> w \<noteq> [] \<Longrightarrow> path_parts w = [w]"
  by (simp add: path_parts_def js_split_no_sep)

lemma path_parts_join:
  assumes "\<forall>w \<in> set ws. slash \<notin> set w \<and> w \<noteq> []"
  shows "path_parts (js_join [slash] ws) = ws"
proof (cases "ws = []")
  case True
  then show ?thesis by simp
next
  case False
  with assms have "js_split slash (js_join [slash] ws) = ws"
    by (intro js_split_join) auto
  with assms show ?thesis by (auto simp: path_parts_def filter_id_conv)
qed

lemma path_parts_strip_lead [simp]: "path_parts (strip_lead s) = path_parts s"
  by (induction s) (auto simp: strip_lead_def)

lemma path_parts_snoc_slash [simp]: "path_parts (s @ [slash]) = path_parts s"
  using path_parts_append_slash [of s "[]"] by simp

lemma path_parts_strip_trail [simp]: "path_parts (strip_trail s) = path_parts s"
proof (induction s rule: rev_induct)
  case Nil
  then show ?case by (simp add: strip_trail_def)
next
  case (snoc x xs)
  then show ?case by (cases "x = slash") (simp_all add: strip_trail_def)
qed

lemma path_parts_with_last_slash [simp]: "path_parts (with_last_slash s) = path_parts s"
proof (cases "s \<noteq> [] \<and> last s = slash")
  case True
  then have "butlast s @ [slash] = s" by (metis append_butlast_last_id)
  with True show ?thesis by (simp add: with_last_slash_def drop_last_slash_def)
next
  case False
  then have "drop_last_slash s = s" unfolding drop_last_slash_def by argo
  then show ?thesis by (simp add: with_last_slash_def)
qed

section \<open>TextEncoder and TextDecoder\<close>

text \<open>A string already holds its UTF-8 code units, so both directions keep the list.\<close>

definition text_encode :: "string \<Rightarrow> u8 list" where
  "text_encode s = map of_char s"

definition text_decode :: "u8 list \<Rightarrow> string" where
  "text_decode bs = map (\<lambda>b. char_of (unat b)) bs"

lemma unat_of_char [simp]: "unat (of_char c :: u8) = of_char c"
proof -
  have "(of_char c :: u8) = of_nat (of_char c :: nat)"
    by (cases c) simp
  moreover have "(of_char c :: nat) < 256"
    by (rule nat_of_char_less_256)
  ultimately show ?thesis by (simp add: unat_of_nat)
qed

lemma text_decode_encode [simp]: "text_decode (text_encode s) = s"
  by (induction s) (simp_all add: text_decode_def text_encode_def)

lemma length_text_encode [simp]: "length (text_encode s) = length s"
  by (simp add: text_encode_def)

lemma text_encode_inj: "text_encode s = text_encode t \<longleftrightarrow> s = t"
  by (metis text_decode_encode)

section \<open>Decimal numerals\<close>

fun nat_str :: "nat \<Rightarrow> string" where
  "nat_str n = (if n < 10 then [char_of (n + 48)]
                else nat_str (n div 10) @ [char_of (n mod 10 + 48)])"

declare nat_str.simps [simp del]

definition int_str :: "int \<Rightarrow> string" where
  "int_str n = (if n < 0 then CHR ''-'' # nat_str (nat (- n)) else nat_str (nat n))"

definition is_digit :: "char \<Rightarrow> bool" where
  "is_digit c \<longleftrightarrow> 48 \<le> (of_char c :: nat) \<and> (of_char c :: nat) \<le> 57"

definition digit_val :: "char \<Rightarrow> nat" where
  "digit_val c = of_char c - 48"

text \<open>The value of a digit string read left to right from an accumulator.\<close>

fun digits_val :: "nat \<Rightarrow> string \<Rightarrow> nat" where
  "digits_val a [] = a"
| "digits_val a (c # cs) = digits_val (10 * a + digit_val c) cs"

lemma of_char_char_of_small: "n < 256 \<Longrightarrow> (of_char (char_of n :: char) :: nat) = n"
  by simp

lemma digit_char: "n < 10 \<Longrightarrow> is_digit (char_of (n + 48)) \<and> digit_val (char_of (n + 48)) = n"
  by (simp add: is_digit_def digit_val_def)

lemma digits_val_append: "digits_val a (xs @ ys) = digits_val (digits_val a xs) ys"
  by (induction xs arbitrary: a) auto

lemma nat_str_digits: "\<forall>c \<in> set (nat_str n). is_digit c"
proof (induction n rule: nat_str.induct)
  case (1 n)
  show ?case
  proof (cases "n < 10")
    case True
    then show ?thesis using digit_char [of n] by (subst nat_str.simps) simp
  next
    case False
    with 1 show ?thesis
      using digit_char [of "n mod 10"] by (subst nat_str.simps) auto
  qed
qed

lemma digits_val_nat_str [simp]: "digits_val 0 (nat_str n) = n"
proof (induction n rule: nat_str.induct)
  case (1 n)
  show ?case
  proof (cases "n < 10")
    case True
    then show ?thesis using digit_char [of n] by (subst nat_str.simps) simp
  next
    case False
    with 1 show ?thesis
      using digit_char [of "n mod 10"] by (subst nat_str.simps) (simp add: digits_val_append)
  qed
qed

lemma nat_str_nonempty [simp]: "nat_str n \<noteq> []"
  by (subst nat_str.simps) simp

end
