(* ===== verification/Contracts.thy ===== *)
theory Contracts
  imports Prelude
begin

text \<open>
  Two contracts that many components have: a writer with the reader that undoes it, and handlers of events that keep
  an invariant of the state. The components interpret them on their own operations.
\<close>

section \<open>Writers and readers\<close>

locale codec =
  fixes enc :: "'a \<Rightarrow> 'b" and dec :: "'b \<Rightarrow> 'a option" and ok :: "'a \<Rightarrow> bool"
  assumes dec_enc: "ok x \<Longrightarrow> dec (enc x) = Some x"
begin

lemma enc_inj: "ok x \<Longrightarrow> ok y \<Longrightarrow> enc x = enc y \<longleftrightarrow> x = y"
  by (metis dec_enc option.inject)

lemma enc_inj_on: "inj_on enc {x. ok x}"
  by (rule inj_onI) (simp add: enc_inj)

end

text \<open>What one writes, another writes again: first the one reader undoes it, then the other.\<close>

locale codec_pair = one: codec enc1 dec1 ok1 + two: codec enc2 dec2 ok2
  for enc1 :: "'a \<Rightarrow> 'b" and dec1 and ok1 :: "'a \<Rightarrow> bool" and enc2 :: "'b \<Rightarrow> 'c" and dec2 and ok2 +
  assumes fits: "ok1 x \<Longrightarrow> ok2 (enc1 x)"

sublocale codec_pair \<subseteq> both: codec "\<lambda>x. enc2 (enc1 x)" "\<lambda>y. Option.bind (dec2 y) dec1" ok1
  by unfold_locales (simp add: one.dec_enc two.dec_enc fits)

section \<open>Handlers and invariants\<close>

locale step_invariant =
  fixes step :: "'s \<Rightarrow> 's \<Rightarrow> bool" and start :: "'s \<Rightarrow> bool" and I :: "'s \<Rightarrow> bool"
  assumes starts: "start s \<Longrightarrow> I s" and steps: "I s \<Longrightarrow> step s t \<Longrightarrow> I t"
begin

lemma reached: "start s \<Longrightarrow> step\<^sup>*\<^sup>* s t \<Longrightarrow> I t"
  by (rule rtranclp_induct [of step s t]) (auto intro: starts steps)

end

text \<open>Events that may come in a state, and a run of events each of which may come when it does.\<close>

fun may_run :: "('e \<Rightarrow> 's \<Rightarrow> bool) \<Rightarrow> ('e \<Rightarrow> 's \<Rightarrow> 's) \<Rightarrow> 'e list \<Rightarrow> 's \<Rightarrow> bool" where
  "may_run may handle [] s = True"
| "may_run may handle (e # es) s = (may e s \<and> may_run may handle es (handle e s))"

lemma may_run_always [simp]: "may_run (\<lambda>_ _. True) handle es s"
  by (induction es arbitrary: s) simp_all

locale event_invariant =
  fixes handle :: "'e \<Rightarrow> 's \<Rightarrow> 's" and may :: "'e \<Rightarrow> 's \<Rightarrow> bool" and start :: "'s \<Rightarrow> bool" and I :: "'s \<Rightarrow> bool"
  assumes starts_ok: "start s \<Longrightarrow> I s" and handles: "I s \<Longrightarrow> may e s \<Longrightarrow> I (handle e s)"
begin

lemma runs_from: "I s \<Longrightarrow> may_run may handle es s \<Longrightarrow> I (fold handle es s)"
  by (induction es arbitrary: s) (auto intro: handles)

lemma runs: "start s \<Longrightarrow> may_run may handle es s \<Longrightarrow> I (fold handle es s)"
  by (blast intro: runs_from starts_ok)

end

sublocale event_invariant \<subseteq> as_steps: step_invariant "\<lambda>s t. \<exists>e. may e s \<and> t = handle e s" start I
  by unfold_locales (auto intro: starts_ok handles)

end
