(* ===== verification/Json.thy ===== *)
theory Json
  imports Contracts
begin

text \<open>
  JavaScript values and the JSON text of the language: property reads, truthiness,
  \<open>JSON.stringify\<close> (compact and indented) and \<open>JSON.parse\<close>, with the theorem that parsing the
  text of a value gives the value back. The sources exchange every directory listing, every
  metadata record and every request body in this form.

  Numbers are integers: every number the sources write to JSON (sizes, modes, flags) is one;
  \<open>json_parse\<close> gives no value for a text with a fraction or an exponent.
\<close>

section \<open>Values\<close>

datatype jsv =
    JUndef
  | JNull
  | JBool bool
  | JNum int
  | JStr string
  | JArr "jsv list"
  | JObj "(string \<times> jsv) list"

fun truthy :: "jsv \<Rightarrow> bool" where
  "truthy JUndef = False"
| "truthy JNull = False"
| "truthy (JBool b) = b"
| "truthy (JNum n) = (n \<noteq> 0)"
| "truthy (JStr s) = (s \<noteq> [])"
| "truthy (JArr vs) = True"
| "truthy (JObj kvs) = True"

text \<open>\<open>v?.k\<close>: undefined where \<open>v\<close> has no such property or is null or undefined.\<close>

fun js_prop :: "jsv \<Rightarrow> string \<Rightarrow> jsv" where
  "js_prop (JObj kvs) k = (case map_get kvs k of None \<Rightarrow> JUndef | Some v \<Rightarrow> v)"
| "js_prop v k = JUndef"

text \<open>\<open>v.k\<close>: a \<open>TypeError\<close> on null and undefined.\<close>

fun js_prop_strict :: "jsv \<Rightarrow> string \<Rightarrow> err + jsv" where
  "js_prop_strict JNull k = Inl (Err_Type (''Cannot read properties of null (reading '' @ k @ '')''))"
| "js_prop_strict JUndef k =
     Inl (Err_Type (''Cannot read properties of undefined (reading '' @ k @ '')''))"
| "js_prop_strict v k = Inr (js_prop v k)"

text \<open>\<open>String(v)\<close>\<close>

fun js_string :: "jsv \<Rightarrow> string" where
  "js_string JUndef = ''undefined''"
| "js_string JNull = ''null''"
| "js_string (JBool b) = (if b then ''true'' else ''false'')"
| "js_string (JNum n) = int_str n"
| "js_string (JStr s) = s"
| "js_string (JArr vs) = js_join '','' (map (\<lambda>v. if v = JUndef \<or> v = JNull then [] else js_string v) vs)"
| "js_string (JObj kvs) = ''[object Object]''"

text \<open>\<open>Object.entries(v)\<close> of an object value.\<close>

fun entries :: "jsv \<Rightarrow> (string \<times> jsv) list" where
  "entries (JObj kvs) = kvs"
| "entries v = []"

text \<open>\<open>v ?? d\<close> on values.\<close>

fun nullish :: "jsv \<Rightarrow> jsv \<Rightarrow> jsv" where
  "nullish JUndef d = d"
| "nullish JNull d = d"
| "nullish v d = v"

section \<open>JSON.stringify\<close>

definition hex_digit :: "nat \<Rightarrow> char" where
  "hex_digit n = (if n < 10 then char_of (n + 48) else char_of (n + 87))"

definition json_esc :: "char \<Rightarrow> string" where
  "json_esc c =
     (let n = (of_char c :: nat) in
      if n = 34 then [CHR 0x5C, CHR 0x22]
      else if n = 92 then [CHR 0x5C, CHR 0x5C]
      else if n = 8 then [CHR 0x5C, CHR ''b'']
      else if n = 12 then [CHR 0x5C, CHR ''f'']
      else if n = 10 then [CHR 0x5C, CHR ''n'']
      else if n = 13 then [CHR 0x5C, CHR ''r'']
      else if n = 9 then [CHR 0x5C, CHR ''t'']
      else if n < 32 then [CHR 0x5C, CHR ''u'', CHR ''0'', CHR ''0'', hex_digit (n div 16),
                           hex_digit (n mod 16)]
      else [c])"

definition json_quote :: "string \<Rightarrow> string" where
  "json_quote s = CHR 0x22 # concat (map json_esc s) @ [CHR 0x22]"

text \<open>
  \<open>gap\<close> is the third argument of \<open>JSON.stringify\<close> as a string (empty for the compact form,
  two spaces for \<open>2\<close>) and \<open>ind\<close> the current indentation.
\<close>

definition nl_ind :: "string \<Rightarrow> string \<Rightarrow> string" where
  "nl_ind gap ind = (if gap = [] then [] else CHR 0x0A # ind)"

function (sequential) json_ser :: "string \<Rightarrow> string \<Rightarrow> jsv \<Rightarrow> string"
  and json_elems :: "string \<Rightarrow> string \<Rightarrow> jsv list \<Rightarrow> string"
  and json_members :: "string \<Rightarrow> string \<Rightarrow> (string \<times> jsv) list \<Rightarrow> string"
where
  "json_ser gap ind JUndef = ''null''"
| "json_ser gap ind JNull = ''null''"
| "json_ser gap ind (JBool b) = (if b then ''true'' else ''false'')"
| "json_ser gap ind (JNum n) = int_str n"
| "json_ser gap ind (JStr s) = json_quote s"
| "json_ser gap ind (JArr vs) =
     (if vs = [] then ''[]''
      else CHR ''['' # nl_ind gap (ind @ gap) @ json_elems gap (ind @ gap) vs
             @ nl_ind gap ind @ '']'')"
| "json_ser gap ind (JObj kvs) =
     (if kvs = [] then ''{}''
      else CHR ''{'' # nl_ind gap (ind @ gap) @ json_members gap (ind @ gap) kvs
             @ nl_ind gap ind @ ''}'')"
| "json_elems gap ind [] = []"
| "json_elems gap ind (v # vs) =
     json_ser gap ind v
       @ (if vs = [] then [] else CHR '','' # nl_ind gap ind @ json_elems gap ind vs)"
| "json_members gap ind [] = []"
| "json_members gap ind ((k, v) # kvs) =
     json_quote k @ CHR '':'' # (if gap = [] then [] else '' '') @ json_ser gap ind v
       @ (if kvs = [] then [] else CHR '','' # nl_ind gap ind @ json_members gap ind kvs)"
  by pat_completeness auto
termination
  by (relation "measure (case_sum (\<lambda>(g, i, v). size v)
        (case_sum (\<lambda>(g, i, vs). size_list size vs)
                  (\<lambda>(g, i, kvs). size_list (size_prod (\<lambda>_. 0) size) kvs)))") auto

text \<open>\<open>JSON.stringify(v)\<close> and \<open>JSON.stringify(v, null, 2)\<close>\<close>

definition json_stringify :: "jsv \<Rightarrow> string" where
  "json_stringify v = json_ser [] [] v"

definition json_stringify2 :: "jsv \<Rightarrow> string" where
  "json_stringify2 v = json_ser ''  '' [] v"

section \<open>JSON.parse\<close>

definition is_ws :: "char \<Rightarrow> bool" where
  "is_ws c \<longleftrightarrow> c = CHR '' '' \<or> c = CHR 0x0A \<or> c = CHR 0x0D \<or> c = CHR 0x09"

definition skip_ws :: "string \<Rightarrow> string" where
  "skip_ws s = dropWhile is_ws s"

definition hex_val :: "char \<Rightarrow> nat option" where
  "hex_val c =
     (let n = (of_char c :: nat) in
      if 48 \<le> n \<and> n \<le> 57 then Some (n - 48)
      else if 97 \<le> n \<and> n \<le> 102 then Some (n - 87)
      else if 65 \<le> n \<and> n \<le> 70 then Some (n - 55)
      else None)"

definition hex4 :: "char \<Rightarrow> char \<Rightarrow> char \<Rightarrow> char \<Rightarrow> nat option" where
  "hex4 a b c d =
     (case (hex_val a, hex_val b, hex_val c, hex_val d) of
        (Some w, Some x, Some y, Some z) \<Rightarrow> Some (((w * 16 + x) * 16 + y) * 16 + z)
      | _ \<Rightarrow> None)"

text \<open>The UTF-8 code units of a code point of the basic plane (no surrogate halves).\<close>

definition utf8_units :: "nat \<Rightarrow> string option" where
  "utf8_units n =
     (if n < 128 then Some [char_of n]
      else if n < 2048 then Some [char_of (192 + n div 64), char_of (128 + n mod 64)]
      else if 55296 \<le> n \<and> n \<le> 57343 then None
      else Some [char_of (224 + n div 4096), char_of (128 + n div 64 mod 64),
                 char_of (128 + n mod 64)])"

definition simple_escape :: "char \<Rightarrow> char option" where
  "simple_escape e =
     (if e = CHR 0x22 then Some (CHR 0x22)
      else if e = CHR 0x5C then Some (CHR 0x5C)
      else if e = slash then Some slash
      else if e = CHR ''b'' then Some (CHR 0x08)
      else if e = CHR ''f'' then Some (CHR 0x0C)
      else if e = CHR ''n'' then Some (CHR 0x0A)
      else if e = CHR ''r'' then Some (CHR 0x0D)
      else if e = CHR ''t'' then Some (CHR 0x09)
      else None)"

fun parse_chars :: "string \<Rightarrow> (string \<times> string) option" where
  "parse_chars [] = None"
| "parse_chars (c # cs) =
     (if c = CHR 0x22 then Some ([], cs)
      else if c = CHR 0x5C then
        (case cs of
           [] \<Rightarrow> None
         | e # ds \<Rightarrow>
             (if e = CHR ''u'' then
                (case ds of
                   a # b # x # y # es \<Rightarrow>
                     (case hex4 a b x y of
                        None \<Rightarrow> None
                      | Some n \<Rightarrow>
                          (case utf8_units n of
                             None \<Rightarrow> None
                           | Some us \<Rightarrow> map_option (apfst (\<lambda>t. us @ t)) (parse_chars es)))
                 | _ \<Rightarrow> None)
              else (case simple_escape e of
                      None \<Rightarrow> None
                    | Some d \<Rightarrow> map_option (apfst (\<lambda>t. d # t)) (parse_chars ds))))
      else if (of_char c :: nat) < 32 then None
      else map_option (apfst (\<lambda>t. c # t)) (parse_chars cs))"

definition parse_nat :: "string \<Rightarrow> (nat \<times> string) option" where
  "parse_nat s =
     (let ds = takeWhile is_digit s; r = dropWhile is_digit s in
      if ds = [] \<or> (hd ds = CHR ''0'' \<and> length ds > 1) then None
      else if r \<noteq> [] \<and> hd r \<in> {CHR ''.'', CHR ''e'', CHR ''E''} then None
      else Some (digits_val 0 ds, r))"

definition parse_number :: "string \<Rightarrow> (jsv \<times> string) option" where
  "parse_number s =
     (case s of
        [] \<Rightarrow> None
      | c # cs \<Rightarrow>
          (if c = CHR ''-'' then map_option (apfst (\<lambda>n. JNum (- int n))) (parse_nat cs)
           else map_option (apfst (\<lambda>n. JNum (int n))) (parse_nat s)))"

definition parse_word :: "string \<Rightarrow> jsv \<Rightarrow> string \<Rightarrow> (jsv \<times> string) option" where
  "parse_word w v s = (if starts_with w s then Some (v, drop (length w) s) else None)"

text \<open>Repeated keys: the last value wins, at the first key's place.\<close>

definition obj_of :: "(string \<times> jsv) list \<Rightarrow> jsv" where
  "obj_of kvs = JObj (foldl (\<lambda>m (k, v). map_set k v m) [] kvs)"

fun parse_value :: "nat \<Rightarrow> string \<Rightarrow> (jsv \<times> string) option"
  and parse_elems :: "nat \<Rightarrow> string \<Rightarrow> (jsv list \<times> string) option"
  and parse_members :: "nat \<Rightarrow> string \<Rightarrow> ((string \<times> jsv) list \<times> string) option"
where
  "parse_value 0 s = None"
| "parse_value (Suc n) s =
     (case skip_ws s of
        [] \<Rightarrow> None
      | c # cs \<Rightarrow>
          (if c = CHR 0x22 then map_option (apfst JStr) (parse_chars cs)
           else if c = CHR ''['' then
             (if starts_with '']'' (skip_ws cs) then Some (JArr [], tl (skip_ws cs))
              else map_option (apfst JArr) (parse_elems n cs))
           else if c = CHR ''{'' then
             (if starts_with ''}'' (skip_ws cs) then Some (JObj [], tl (skip_ws cs))
              else map_option (apfst obj_of) (parse_members n cs))
           else if c = CHR ''t'' then parse_word ''true'' (JBool True) (c # cs)
           else if c = CHR ''f'' then parse_word ''false'' (JBool False) (c # cs)
           else if c = CHR ''n'' then parse_word ''null'' JNull (c # cs)
           else parse_number (c # cs)))"
| "parse_elems 0 s = None"
| "parse_elems (Suc n) s =
     (case parse_value n s of
        None \<Rightarrow> None
      | Some (v, r) \<Rightarrow>
          (case skip_ws r of
             [] \<Rightarrow> None
           | c # cs \<Rightarrow>
               (if c = CHR '','' then map_option (apfst (\<lambda>vs. v # vs)) (parse_elems n cs)
                else if c = CHR '']'' then Some ([v], cs)
                else None)))"
| "parse_members 0 s = None"
| "parse_members (Suc n) s =
     (case skip_ws s of
        [] \<Rightarrow> None
      | q # qs \<Rightarrow>
          (if q \<noteq> CHR 0x22 then None
           else (case parse_chars qs of
                   None \<Rightarrow> None
                 | Some (k, r) \<Rightarrow>
                     (case skip_ws r of
                        [] \<Rightarrow> None
                      | d # ds \<Rightarrow>
                          (if d \<noteq> CHR '':'' then None
                           else (case parse_value n ds of
                                   None \<Rightarrow> None
                                 | Some (v, r') \<Rightarrow>
                                     (case skip_ws r' of
                                        [] \<Rightarrow> None
                                      | c # cs \<Rightarrow>
                                          (if c = CHR '','' then
                                             map_option (apfst (\<lambda>kvs. (k, v) # kvs))
                                               (parse_members n cs)
                                           else if c = CHR ''}'' then Some ([(k, v)], cs)
                                           else None)))))))) "

definition json_parse :: "string \<Rightarrow> jsv option" where
  "json_parse s =
     (case parse_value (Suc (length s)) s of
        Some (v, r) \<Rightarrow> if skip_ws r = [] then Some v else None
      | None \<Rightarrow> None)"


section \<open>Round trip\<close>

text \<open>
  A value that JSON can carry: no undefined inside, and the keys of every object distinct
  (as the keys of a JavaScript object are).
\<close>

function (sequential) wf_jsv :: "jsv \<Rightarrow> bool"
  and wf_elems :: "jsv list \<Rightarrow> bool"
  and wf_members :: "(string \<times> jsv) list \<Rightarrow> bool"
where
  "wf_jsv JUndef = False"
| "wf_jsv (JArr vs) = wf_elems vs"
| "wf_jsv (JObj kvs) = (distinct (map fst kvs) \<and> wf_members kvs)"
| "wf_jsv v = True"
| "wf_elems [] = True"
| "wf_elems (v # vs) = (wf_jsv v \<and> wf_elems vs)"
| "wf_members [] = True"
| "wf_members ((k, v) # kvs) = (wf_jsv v \<and> wf_members kvs)"
  by pat_completeness auto
termination
  by (relation "measure (case_sum size
        (case_sum (size_list size) (size_list (size_prod (\<lambda>_. 0) size))))") auto

lemma wf_members_iff: "wf_members kvs \<longleftrightarrow> (\<forall>(k, v) \<in> set kvs. wf_jsv v)"
  by (induction kvs) auto

lemma wf_elems_iff: "wf_elems vs \<longleftrightarrow> (\<forall>v \<in> set vs. wf_jsv v)"
  by (induction vs) auto

lemma hex_val_digit: "k < 16 \<Longrightarrow> hex_val (hex_digit k) = Some k"
  by (simp add: hex_val_def hex_digit_def)

lemma hex4_small: "n < 32 \<Longrightarrow> hex4 (CHR ''0'') (CHR ''0'') (hex_digit (n div 16)) (hex_digit (n mod 16)) = Some n"
proof -
  assume "n < 32"
  then have "hex_val (hex_digit (n div 16)) = Some (n div 16)"
    and "hex_val (hex_digit (n mod 16)) = Some (n mod 16)"
    by (simp_all add: hex_val_digit)
  moreover have "hex_val (CHR ''0'') = Some 0" by (simp add: hex_val_def)
  ultimately show ?thesis by (simp add: hex4_def)
qed

lemma char_eqI: "(of_char c :: nat) = of_char d \<Longrightarrow> c = d"
  by simp

lemma char_lits:
  "char_of (34::nat) = CHR 0x22" "char_of (92::nat) = CHR 0x5C" "char_of (8::nat) = CHR 0x08"
  "char_of (12::nat) = CHR 0x0C" "char_of (10::nat) = CHR 0x0A" "char_of (13::nat) = CHR 0x0D"
  "char_of (9::nat) = CHR 0x09"
  by (rule char_eqI, simp)+

lemma parse_chars_esc: "parse_chars (json_esc c @ t) = map_option (apfst (\<lambda>u. c # u)) (parse_chars t)"
proof -
  define n where "n = (of_char c :: nat)"
  have c: "c = char_of n" by (simp add: n_def)
  consider "n = 34" | "n = 92" | "n = 8" | "n = 12" | "n = 10" | "n = 13" | "n = 9"
    | "n < 32" "n \<notin> {8, 9, 10, 12, 13}" | "32 \<le> n" "n \<noteq> 34" "n \<noteq> 92"
    by (cases "n < 32") auto
  then show ?thesis
  proof cases
    case 8
    then have "json_esc c = [CHR 0x5C, CHR ''u'', CHR ''0'', CHR ''0'', hex_digit (n div 16), hex_digit (n mod 16)]"
      by (simp add: json_esc_def n_def [symmetric])
    moreover have "utf8_units n = Some [c]" using 8 by (simp add: utf8_units_def c)
    moreover have "(@) [c] = (#) c" by (rule ext) simp
    ultimately show ?thesis using 8 by (simp add: hex4_small)
  next
    case 9
    have "c \<noteq> CHR 0x22" "c \<noteq> CHR 0x5C" using 9 by (auto simp: n_def)
    with 9 show ?thesis by (simp add: json_esc_def n_def [symmetric])
  qed (simp_all add: json_esc_def c simple_escape_def char_lits)
qed

lemma parse_chars_quote:
  "parse_chars (concat (map json_esc s) @ CHR 0x22 # rest) = Some (s, rest)"
  by (induction s) (simp_all add: parse_chars_esc)

lemma dropWhile_all_ws: "list_all is_ws w \<Longrightarrow> skip_ws (w @ s) = skip_ws s"
  by (induction w) (simp_all add: skip_ws_def)

lemma skip_ws_head: "s \<noteq> [] \<Longrightarrow> \<not> is_ws (hd s) \<Longrightarrow> skip_ws s = s"
  by (cases s) (simp_all add: skip_ws_def)

lemma digit_not_ws: "is_digit c \<Longrightarrow> \<not> is_ws c"
  by (auto simp: is_ws_def is_digit_def)

definition num_end :: "string \<Rightarrow> bool" where
  "num_end r \<longleftrightarrow> (case r of [] \<Rightarrow> True | c # _ \<Rightarrow> \<not> is_digit c \<and> c \<notin> {CHR ''.'', CHR ''e'', CHR ''E''})"

lemma hd_nat_str_big: "10 \<le> n \<Longrightarrow> hd (nat_str n) \<noteq> CHR ''0''"
proof (induction n rule: nat_str.induct)
  case (1 n)
  show ?case
  proof (cases "n div 10 < 10")
    case True
    have "char_of (n div 10 + 48) \<noteq> CHR ''0''"
    proof
      assume "char_of (n div 10 + 48) = CHR ''0''"
      then have "digit_val (char_of (n div 10 + 48)) = digit_val (CHR ''0'')" by simp
      then have "n div 10 = 0" using digit_char [OF True] by (simp add: digit_val_def)
      with "1.prems" show False by simp
    qed
    with True "1.prems" show ?thesis
      by (subst nat_str.simps) (simp add: nat_str.simps [of "n div 10"])
  next
    case False
    with 1 have "hd (nat_str (n div 10)) \<noteq> CHR ''0''" by simp
    with "1.prems" show ?thesis by (subst nat_str.simps) simp
  qed
qed

lemma takeWhile_digits: "\<forall>c \<in> set ds. is_digit c \<Longrightarrow> num_end r \<Longrightarrow>
  takeWhile is_digit (ds @ r) = ds \<and> dropWhile is_digit (ds @ r) = r"
  by (induction ds) (auto simp: num_end_def split: list.splits)

lemma parse_nat_str: "num_end r \<Longrightarrow> parse_nat (nat_str n @ r) = Some (n, r)"
proof -
  assume r: "num_end r"
  have tk: "takeWhile is_digit (nat_str n @ r) = nat_str n" "dropWhile is_digit (nat_str n @ r) = r"
    using takeWhile_digits [of "nat_str n" r] nat_str_digits r by auto
  have "\<not> (hd (nat_str n) = CHR ''0'' \<and> length (nat_str n) > 1)"
  proof (cases "n < 10")
    case True
    then show ?thesis by (simp add: nat_str.simps)
  next
    case False
    then show ?thesis using hd_nat_str_big [of n] by simp
  qed
  moreover have "\<not> (r \<noteq> [] \<and> hd r \<in> {CHR ''.'', CHR ''e'', CHR ''E''})"
    using r by (auto simp: num_end_def split: list.splits)
  ultimately show ?thesis by (auto simp: parse_nat_def tk Let_def)
qed

lemma hd_nat_str_digit: "is_digit (hd (nat_str n))"
  using nat_str_digits [of n] by simp


text \<open>First characters: the serialised text never starts with white space or a closer.\<close>

lemma json_quote_hd: "json_quote k @ r = CHR 0x22 # concat (map json_esc k) @ CHR 0x22 # r"
  by (simp add: json_quote_def)

lemma int_str_cases:
  obtains m where "n = int m" "int_str n = nat_str m"
  | m where "n = - int m" "int_str n = CHR ''-'' # nat_str m"
proof (cases "n < 0")
  case True
  then show ?thesis using that(2) [of "nat (- n)"] by (simp add: int_str_def)
next
  case False
  then show ?thesis using that(1) [of "nat n"] by (simp add: int_str_def)
qed

lemma digit_not_special:
  "is_digit c \<Longrightarrow> c \<notin> {CHR 0x22, CHR ''['', CHR ''{'', CHR ''t'', CHR ''f'', CHR ''n'', CHR ''-'', CHR '']'', CHR ''}''}"
  by (auto simp: is_digit_def)

lemma parse_number_int_str: "num_end r \<Longrightarrow> parse_number (int_str n @ r) = Some (JNum n, r)"
proof (cases rule: int_str_cases [of n])
  case (1 m)
  assume r: "num_end r"
  obtain d ds where d: "nat_str m = d # ds" by (cases "nat_str m") auto
  then have "is_digit d" using hd_nat_str_digit [of m] by simp
  then have "d \<noteq> CHR ''-''" by (auto simp: is_digit_def)
  with 1 r d parse_nat_str [of r m] show ?thesis by (simp add: parse_number_def)
next
  case (2 m)
  assume "num_end r"
  with 2 parse_nat_str [of r m] show ?thesis by (simp add: parse_number_def)
qed

lemma int_str_hd:
  obtains c cs where "int_str n = c # cs" and "is_digit c \<or> c = CHR ''-''"
proof (cases rule: int_str_cases [of n])
  case (1 m)
  then show ?thesis using that hd_nat_str_digit [of m] by (cases "nat_str m") auto
next
  case (2 m)
  then show ?thesis using that by auto
qed

definition opener :: "char \<Rightarrow> bool" where
  "opener c \<longleftrightarrow> \<not> is_ws c \<and> c \<noteq> CHR '']'' \<and> c \<noteq> CHR ''}''"

lemma opener_lits:
  "opener (CHR ''n'')" "opener (CHR ''t'')" "opener (CHR ''f'')" "opener (CHR 0x22)"
  "opener (CHR ''['')" "opener (CHR ''{'')" "opener (CHR ''-'')"
  by (simp_all add: opener_def is_ws_def)

lemma opener_digit: "is_digit c \<Longrightarrow> opener c"
  using digit_not_special [of c] digit_not_ws [of c] by (auto simp: opener_def)

lemma json_ser_opener: "json_ser gap ind v \<noteq> [] \<and> opener (hd (json_ser gap ind v))"
proof (cases v)
  case (JNum n)
  obtain c cs where "int_str n = c # cs" "is_digit c \<or> c = CHR ''-''" by (rule int_str_hd)
  then show ?thesis using JNum opener_digit opener_lits by auto
qed (simp_all add: json_quote_def opener_lits)

lemma json_ser_hd:
  obtains c cs where "json_ser gap ind v = c # cs" and "\<not> is_ws c" and "c \<noteq> CHR '']''" and "c \<noteq> CHR ''}''"
  using json_ser_opener [of gap ind v] by (cases "json_ser gap ind v") (auto simp: opener_def)

lemma nl_ind_ws: "list_all is_ws ind \<Longrightarrow> list_all is_ws (nl_ind gap ind)"
  by (simp add: nl_ind_def is_ws_def)

lemma num_end_ws: "list_all is_ws w \<Longrightarrow> c \<in> {CHR '','', CHR '']'', CHR ''}''} \<Longrightarrow> num_end (w @ c # r)"
  by (cases w) (auto simp: num_end_def is_digit_def is_ws_def)

lemma foldl_map_set_distinct:
  "distinct (map fst (m @ kvs)) \<Longrightarrow> foldl (\<lambda>m (k, v). map_set k v m) m kvs = m @ kvs"
proof (induction kvs arbitrary: m)
  case Nil
  then show ?case by simp
next
  case (Cons kv kvs)
  obtain k v where kv: "kv = (k, v)" by (cases kv)
  have "k \<notin> fst ` set m" using Cons.prems kv by auto
  then have "map_set k v m = m @ [(k, v)]" by (induction m) auto
  with Cons kv show ?case by simp
qed

lemma obj_of_distinct: "distinct (map fst kvs) \<Longrightarrow> obj_of kvs = JObj kvs"
  using foldl_map_set_distinct [of "[]" kvs] by (simp add: obj_of_def)

lemma parse_value_ws: "list_all is_ws w \<Longrightarrow> parse_value n (w @ s) = parse_value n s"
  by (cases n) (simp_all add: dropWhile_all_ws)

lemma parse_members_ws: "list_all is_ws w \<Longrightarrow> parse_members n (w @ s) = parse_members n s"
  by (cases n) (simp_all add: dropWhile_all_ws)

lemma parse_elems_ws: "list_all is_ws w \<Longrightarrow> parse_elems n (w @ s) = parse_elems n s"
  by (cases n) (simp_all add: parse_value_ws)

lemma skip_ws_ws_cons: "list_all is_ws w \<Longrightarrow> \<not> is_ws c \<Longrightarrow> skip_ws (w @ c # r) = c # r"
  by (simp add: dropWhile_all_ws) (simp add: skip_ws_def)

lemma not_ws_lits: "\<not> is_ws (CHR '','')" "\<not> is_ws (CHR '']'')" "\<not> is_ws (CHR ''}'')"
  "\<not> is_ws (CHR ''['')" "\<not> is_ws (CHR ''{'')" "\<not> is_ws (CHR 0x22)" "\<not> is_ws (CHR '':'')"
  "\<not> is_ws (CHR ''t'')" "\<not> is_ws (CHR ''f'')" "\<not> is_ws (CHR ''n'')"
  by (simp_all add: is_ws_def)

lemma skip_ws_cons: "\<not> is_ws c \<Longrightarrow> skip_ws (c # r) = c # r"
  by (simp add: skip_ws_def)

lemma list_all_ws_append: "list_all is_ws (a @ b) \<longleftrightarrow> list_all is_ws a \<and> list_all is_ws b"
  by simp

lemma parse_value_number:
  assumes "0 < n" "num_end r"
  shows "parse_value n (int_str k @ r) = Some (JNum k, r)"
proof -
  obtain c cs where c: "int_str k = c # cs" "is_digit c \<or> c = CHR ''-''" by (rule int_str_hd)
  have nw: "\<not> is_ws c"
    using c(2) digit_not_ws [of c] by (elim disjE) (simp_all add: is_ws_def)
  have ns: "c \<noteq> CHR 0x22 \<and> c \<noteq> CHR ''['' \<and> c \<noteq> CHR ''{'' \<and> c \<noteq> CHR ''t'' \<and> c \<noteq> CHR ''f'' \<and> c \<noteq> CHR ''n''"
    using c(2) digit_not_special [of c] by (elim disjE) simp_all
  obtain m where "n = Suc m" using assms(1) by (cases n) auto
  then show ?thesis
    using parse_number_int_str [OF assms(2), of k] nw ns c(1) by (simp add: skip_ws_cons)
qed

lemma parse_elems_first:
  assumes "parse_value n (t @ u) = Some (v, u)"
  shows "parse_elems (Suc n) (t @ u) =
    (case skip_ws u of
       [] \<Rightarrow> None
     | c # cs \<Rightarrow> (if c = CHR '','' then map_option (apfst (\<lambda>vs. v # vs)) (parse_elems n cs)
                 else if c = CHR '']'' then Some ([v], cs) else None))"
  using assms by simp

lemma parse_members_first:
  assumes "parse_value n (t @ u) = Some (v, u)" "list_all is_ws g"
  shows "parse_members (Suc n) (json_quote k @ CHR '':'' # g @ t @ u) =
    (case skip_ws u of
       [] \<Rightarrow> None
     | c # cs \<Rightarrow> (if c = CHR '','' then map_option (apfst (\<lambda>kvs. (k, v) # kvs)) (parse_members n cs)
                 else if c = CHR ''}'' then Some ([(k, v)], cs) else None))"
proof -
  have "parse_value n (g @ t @ u) = Some (v, u)"
    using assms by (simp add: parse_value_ws)
  then show ?thesis
    by (simp add: json_quote_hd skip_ws_cons not_ws_lits parse_chars_quote)
qed

lemma json_round_trip_aux:
  "wf_jsv v \<Longrightarrow> list_all is_ws gap \<Longrightarrow> list_all is_ws ind \<Longrightarrow> length (json_ser gap ind v) \<le> n \<Longrightarrow>
     num_end r \<Longrightarrow> parse_value n (json_ser gap ind v @ r) = Some (v, r)"
  "wf_elems vs \<Longrightarrow> list_all is_ws gap \<Longrightarrow> list_all is_ws ind \<Longrightarrow> vs \<noteq> [] \<Longrightarrow> list_all is_ws w \<Longrightarrow>
     length (json_elems gap ind vs) < n \<Longrightarrow>
     parse_elems n (json_elems gap ind vs @ w @ CHR '']'' # r) = Some (vs, r)"
  "wf_members kvs \<Longrightarrow> list_all is_ws gap \<Longrightarrow> list_all is_ws ind \<Longrightarrow> kvs \<noteq> [] \<Longrightarrow> list_all is_ws w \<Longrightarrow>
     length (json_members gap ind kvs) < n \<Longrightarrow>
     parse_members n (json_members gap ind kvs @ w @ CHR ''}'' # r) = Some (kvs, r)"
proof (induction gap ind v and gap ind vs and gap ind kvs arbitrary: n r and n r w and n r w
    rule: json_ser_json_elems_json_members.induct)
  case (1 gap ind)
  then show ?case by simp
next
  case (2 gap ind)
  then show ?case by (cases n) (simp_all add: skip_ws_cons not_ws_lits parse_word_def)
next
  case (3 gap ind b)
  then show ?case
    by (cases n; cases b) (simp_all add: skip_ws_cons not_ws_lits parse_word_def)
next
  case (4 gap ind k)
  have "0 < n" using "4.prems"(4) int_str_hd [of k] by (cases n) auto
  then show ?case using "4.prems" by (simp add: parse_value_number)
next
  case (5 gap ind s)
  then show ?case
    by (cases n) (simp_all add: json_quote_hd skip_ws_cons not_ws_lits parse_chars_quote,
        simp add: json_quote_def)
next
  case (6 gap ind vs)
  show ?case
  proof (cases "vs = []")
    case True
    with 6 show ?thesis by (cases n) (simp_all add: skip_ws_cons not_ws_lits)
  next
    case False
    let ?i = "ind @ gap" let ?e = "json_elems gap ?i vs"
    let ?t = "?e @ nl_ind gap ind @ CHR '']'' # r"
    obtain m where m: "n = Suc m" using "6.prems" False by (cases n) auto
    obtain v vs' where vs: "vs = v # vs'" using False by (cases vs) auto
    obtain c cs where c: "json_ser gap ?i v = c # cs" "\<not> is_ws c" "c \<noteq> CHR '']''"
      by (rule json_ser_hd)
    have hd: "\<not> starts_with '']'' (skip_ws (nl_ind gap ?i @ ?t))"
      using "6.prems" c vs by (simp add: dropWhile_all_ws nl_ind_ws skip_ws_cons)
    have "parse_elems m ?t = Some (vs, r)"
      using 6 False m by (auto simp: nl_ind_ws)
    then have "parse_elems m (nl_ind gap ?i @ ?t) = Some (vs, r)"
      using "6.prems" by (simp add: parse_elems_ws nl_ind_ws)
    with hd False m show ?thesis by (simp add: skip_ws_cons not_ws_lits)
  qed
next
  case (7 gap ind kvs)
  show ?case
  proof (cases "kvs = []")
    case True
    with 7 show ?thesis by (cases n) (simp_all add: skip_ws_cons not_ws_lits)
  next
    case False
    let ?i = "ind @ gap" let ?e = "json_members gap ?i kvs"
    let ?t = "?e @ nl_ind gap ind @ CHR ''}'' # r"
    obtain m where m: "n = Suc m" using "7.prems" False by (cases n) auto
    obtain k v kvs' where kvs: "kvs = (k, v) # kvs'" using False by (cases kvs) auto
    have hd: "\<not> starts_with ''}'' (skip_ws (nl_ind gap ?i @ ?t))"
      using "7.prems" kvs
      by (simp add: dropWhile_all_ws nl_ind_ws json_quote_hd skip_ws_cons not_ws_lits)
    have "parse_members m ?t = Some (kvs, r)"
      using 7 False m by (auto simp: nl_ind_ws)
    then have "parse_members m (nl_ind gap ?i @ ?t) = Some (kvs, r)"
      using "7.prems" by (simp add: parse_members_ws nl_ind_ws)
    with hd False m "7.prems" show ?thesis
      by (simp add: skip_ws_cons not_ws_lits obj_of_distinct)
  qed
next
  case (8 gap ind)
  then show ?case by simp
next
  case (9 gap ind v vs)
  obtain m where m: "n = Suc m" using "9.prems" by (cases n) auto
  show ?case
  proof (cases "vs = []")
    case True
    have "parse_value m (json_ser gap ind v @ w @ CHR '']'' # r) = Some (v, w @ CHR '']'' # r)"
      using 9 True m by (intro "9.IH"(1)) (auto simp: num_end_ws)
    then show ?thesis using m True "9.prems" by (simp add: skip_ws_ws_cons not_ws_lits)
  next
    case False
    let ?u = "CHR '','' # nl_ind gap ind @ json_elems gap ind vs @ w @ CHR '']'' # r"
    have "num_end ?u" using num_end_ws [of "[]"] by simp
    then have 1: "parse_value m (json_ser gap ind v @ ?u) = Some (v, ?u)"
      using 9 False m by (intro "9.IH"(1)) auto
    have "parse_elems m (json_elems gap ind vs @ w @ CHR '']'' # r) = Some (vs, r)"
      using 9 False m by (intro "9.IH"(2)) auto
    then show ?thesis using m False "9.prems" parse_elems_first [OF 1]
      by (simp add: skip_ws_cons not_ws_lits parse_elems_ws nl_ind_ws)
  qed
next
  case (10 gap ind)
  then show ?case by simp
next
  case (11 gap ind k v kvs)
  obtain m where m: "n = Suc m" using "11.prems" by (cases n) auto
  let ?g = "if gap = [] then [] else '' ''"
  have g: "list_all is_ws ?g" by (simp add: is_ws_def)
  show ?case
  proof (cases "kvs = []")
    case True
    have 1: "parse_value m (json_ser gap ind v @ w @ CHR ''}'' # r) = Some (v, w @ CHR ''}'' # r)"
      using 11 True m by (intro "11.IH"(1)) (auto simp: num_end_ws)
    show ?thesis using m True "11.prems" parse_members_first [OF 1 g, of k]
      by (simp add: skip_ws_ws_cons not_ws_lits del: parse_members.simps)
  next
    case False
    let ?u = "CHR '','' # nl_ind gap ind @ json_members gap ind kvs @ w @ CHR ''}'' # r"
    have "num_end ?u" using num_end_ws [of "[]"] by simp
    then have 1: "parse_value m (json_ser gap ind v @ ?u) = Some (v, ?u)"
      using 11 False m by (intro "11.IH"(1)) auto
    have "parse_members m (json_members gap ind kvs @ w @ CHR ''}'' # r) = Some (kvs, r)"
      using 11 False m by (intro "11.IH"(2)) auto
    then show ?thesis using m False "11.prems" parse_members_first [OF 1 g, of k]
      by (simp add: skip_ws_cons not_ws_lits parse_members_ws nl_ind_ws del: parse_members.simps)
  qed
qed

lemma json_parse_ser:
  assumes "wf_jsv v" and "list_all is_ws gap"
  shows "json_parse (json_ser gap [] v) = Some v"
proof -
  have "parse_value (Suc (length (json_ser gap [] v))) (json_ser gap [] v @ []) = Some (v, [])"
    using assms by (intro json_round_trip_aux(1)) (auto simp: num_end_def)
  then show ?thesis by (simp add: json_parse_def skip_ws_def)
qed

lemma json_parse_stringify [simp]: "wf_jsv v \<Longrightarrow> json_parse (json_stringify v) = Some v"
  by (simp add: json_stringify_def json_parse_ser)

lemma json_parse_stringify2 [simp]: "wf_jsv v \<Longrightarrow> json_parse (json_stringify2 v) = Some v"
  by (simp add: json_stringify2_def json_parse_ser is_ws_def)

section \<open>JSON as bytes\<close>

definition json_bytes :: "jsv \<Rightarrow> u8 list" where
  "json_bytes v = text_encode (json_stringify v)"

definition json_of_bytes :: "u8 list \<Rightarrow> jsv option" where
  "json_of_bytes bs = json_parse (text_decode bs)"

text \<open>The text of a value, and its bytes, as instances of the contract of a writer and its reader.\<close>

interpretation json_wire: codec_pair json_stringify json_parse wf_jsv text_encode "\<lambda>b. Some (text_decode b)" "\<lambda>_. True"
  by unfold_locales simp_all

interpretation json_indented: codec json_stringify2 json_parse wf_jsv
  by unfold_locales simp

lemma json_of_bytes_json_bytes [simp]: "wf_jsv v \<Longrightarrow> json_of_bytes (json_bytes v) = Some v"
  using json_wire.both.dec_enc by (simp add: json_of_bytes_def json_bytes_def)

lemma json_bytes_inj: "wf_jsv v \<Longrightarrow> wf_jsv w \<Longrightarrow> json_bytes v = json_bytes w \<longleftrightarrow> v = w"
  unfolding json_bytes_def by (rule json_wire.both.enc_inj)

end
