(* ===== verification/Paths.thy ===== *)
theory Paths
  imports Prelude
begin

text \<open>
  Paths and names: \<open>_normalizePath\<close>, \<open>_isAncestorOrSelf\<close>, \<open>_volKey\<close> and \<open>_parseDuration\<close> of
  GritsClient.js, \<open>GimbalPath\<close> of gimbal/path.js, the path part of \<open>GimbalClient\<close>
  (gimbal/client.js) and \<open>matchGlob\<close> of gimbal/glob.js.
\<close>

section \<open>GritsClient.js\<close>

text \<open>\<open>path.replace(/^\/+|\/+$/g, '')\<close>\<close>

definition normalizePath :: "string \<Rightarrow> string" where
  "normalizePath path = strip_trail (strip_lead path)"

definition isAncestorOrSelf :: "string \<Rightarrow> string \<Rightarrow> bool" where
  "isAncestorOrSelf ancestorPath targetPath \<longleftrightarrow>
     (if ancestorPath = targetPath then True
      else if ancestorPath = [] then True
      else starts_with (ancestorPath @ [slash]) targetPath)"

definition volKey :: "string \<Rightarrow> string \<Rightarrow> string" where
  "volKey serverUrl volume = drop_last_slash serverUrl @ ''|'' @ volume"

subsection \<open>Durations\<close>

text \<open>
  The regular expression \<open>([0-9]*\.?[0-9]+)(ns|us|\<mu>s|ms|[smh])\<close> matched at one position: a
  number, a unit and the text after the match. \<open>\<mu>\<close> is its two UTF-8 units. Values are exact
  rationals of milliseconds (the code has doubles).
\<close>

definition micro :: string where
  "micro = [char_of (194::nat), char_of (181::nat)]"

definition dur_unit :: "string \<Rightarrow> (rat \<times> string) option" where
  "dur_unit s =
     (if prefix ''ns'' s then Some (1 / 1000000, drop 2 s)
      else if prefix ''us'' s then Some (1 / 1000, drop 2 s)
      else if prefix (micro @ ''s'') s then Some (1 / 1000, drop 3 s)
      else if prefix ''ms'' s then Some (1, drop 2 s)
      else if prefix ''s'' s then Some (1000, drop 1 s)
      else if prefix ''m'' s then Some (60000, drop 1 s)
      else if prefix ''h'' s then Some (3600000, drop 1 s)
      else None)"

definition dur_number :: "string \<Rightarrow> (rat \<times> string) option" where
  "dur_number s =
     (let d = takeWhile is_digit s;
          r = dropWhile is_digit s;
          f = (if starts_with ''.'' r then takeWhile is_digit (tl r) else [])
      in if f \<noteq> [] then
           Some (of_nat (digits_val 0 d) + of_nat (digits_val 0 f) / 10 ^ length f,
                 dropWhile is_digit (tl r))
         else if d = [] then None else Some (of_nat (digits_val 0 d), r))"

definition dur_match :: "string \<Rightarrow> (rat \<times> string) option" where
  "dur_match s =
     (case dur_number s of
        None \<Rightarrow> None
      | Some (val, r) \<Rightarrow>
          (case dur_unit r of None \<Rightarrow> None | Some (mul, t) \<Rightarrow> Some (val * mul, t)))"

lemma dur_number_length: "dur_number s = Some (v, r) \<Longrightarrow> length r \<le> length s"
proof -
  have "length (dropWhile is_digit (tl (dropWhile is_digit s))) \<le> length (tl (dropWhile is_digit s))"
    "length (dropWhile is_digit s) \<le> length s"
    by (rule length_dropWhile_le)+
  then show "dur_number s = Some (v, r) \<Longrightarrow> length r \<le> length s"
    by (auto simp: dur_number_def Let_def split: if_splits)
qed

lemma dur_unit_length: "dur_unit s = Some (m, t) \<Longrightarrow> length t < length s"
  by (auto simp: dur_unit_def micro_def prefix_def split: if_splits)

lemma dur_match_length: "dur_match s = Some (v, t) \<Longrightarrow> length t < length s"
  using dur_number_length dur_unit_length
  by (fastforce simp: dur_match_def split: option.splits prod.splits)

text \<open>\<open>while ((match = re.exec(s)) !== null)\<close>: the search moves on a character when nothing matches.\<close>

function dur_scan :: "string \<Rightarrow> rat \<Rightarrow> bool \<Rightarrow> rat option" where
  "dur_scan s tot matched =
     (case s of
        [] \<Rightarrow> if matched then Some tot else None
      | c # cs \<Rightarrow>
          (case dur_match s of
             Some (v, t) \<Rightarrow> dur_scan t (tot + v) True
           | None \<Rightarrow> dur_scan cs tot matched))"
  by pat_completeness auto
termination
  by (relation "measure (\<lambda>(s, _). length s)") (auto dest: dur_match_length)

definition parseDuration :: "string \<Rightarrow> rat option" where
  "parseDuration s = (if s = [] then None else dur_scan s 0 False)"

section \<open>gimbal/path.js\<close>

text \<open>One step of the loop of \<open>path\<close> and \<open>relPath\<close> over the parts of the relative path.\<close>

definition path_step :: "string list \<Rightarrow> string \<Rightarrow> string list" where
  "path_step baseParts part =
     (if part = ''.'' then baseParts
      else if part = ''..'' then (if baseParts = [] then baseParts else butlast baseParts)
      else baseParts @ [part])"

definition gp_path :: "string \<Rightarrow> string \<Rightarrow> string" where
  "gp_path base relative =
     slash # js_join [slash] (foldl path_step (path_parts base) (path_parts relative))"

definition gp_relPath :: "string \<Rightarrow> string \<Rightarrow> string" where
  "gp_relPath base relative =
     (let parts = path_parts base;
          parts1 = (if parts = [] then parts else butlast parts);
          parent = slash # js_join [slash] parts1
      in slash # js_join [slash] (foldl path_step (path_parts parent) (path_parts relative)))"

definition gp_toString :: "string \<Rightarrow> string" where
  "gp_toString p = (let parts = path_parts p in if parts = [] then ''/'' else last parts)"

section \<open>gimbal/client.js\<close>

definition volume_path :: "string \<Rightarrow> string" where
  "volume_path p = (if starts_with ''/'' p then p else ''/'' @ p)"

text \<open>
  \<open>resolvePath\<close>. When \<open>indexOf('/', 2)\<close> finds nothing it gives -1: \<open>substring(2, -1)\<close> is
  then \<open>substring(0, 2)\<close> and \<open>substring(-1)\<close> the whole string.
\<close>

definition resolvePath :: "string \<Rightarrow> string \<times> string" where
  "resolvePath str =
     (if starts_with ''//'' str then
        (let rest = drop 2 str; n = length (takeWhile (\<lambda>c. c \<noteq> slash) rest) in
         if n < length rest then (take n rest, drop n rest) else (take 2 str, str))
      else (''primary'', if starts_with ''/'' str then str else ''/'' @ str))"

definition site_path :: "string \<Rightarrow> string" where
  "site_path hostname = volume_path (''/sites/'' @ hostname @ ''/live'')"

section \<open>gimbal/glob.js\<close>

text \<open>
  The regular expression that \<open>matchGlob\<close> builds, as its list of items: a literal character,
  \<open>[^/]\<close>, \<open>[^/]*\<close> and \<open>.*\<close>. \<open>**\<close> is replaced from the left, so \<open>***\<close> is
  \<open>.*\<close> then \<open>[^/]*\<close>; a NUL in the pattern also becomes \<open>.*\<close>.
\<close>

datatype gtok = GLit char | GOne | GStar | GAny

fun glob_tokens :: "string \<Rightarrow> gtok list" where
  "glob_tokens [] = []"
| "glob_tokens (c # cs) =
     (if c = CHR ''*'' then
        (case cs of
           d # ds \<Rightarrow> if d = CHR ''*'' then GAny # glob_tokens ds else GStar # glob_tokens cs
         | [] \<Rightarrow> [GStar])
      else if c = CHR ''?'' then GOne # glob_tokens cs
      else if c = CHR 0x00 then GAny # glob_tokens cs
      else GLit c # glob_tokens cs)"

definition line_end :: "char \<Rightarrow> bool" where
  "line_end c \<longleftrightarrow> c = CHR 0x0A \<or> c = CHR 0x0D"

text \<open>\<open>new RegExp('^' + re + '$').test(name)\<close>, backtracking over the length of each star.\<close>

function (sequential) glob_match :: "gtok list \<Rightarrow> string \<Rightarrow> bool" where
  "glob_match [] s = (s = [])"
| "glob_match (GLit c # ts) s = (case s of [] \<Rightarrow> False | x # xs \<Rightarrow> x = c \<and> glob_match ts xs)"
| "glob_match (GOne # ts) s = (case s of [] \<Rightarrow> False | x # xs \<Rightarrow> x \<noteq> slash \<and> glob_match ts xs)"
| "glob_match (GStar # ts) s =
     (glob_match ts s \<or> (case s of [] \<Rightarrow> False | x # xs \<Rightarrow> x \<noteq> slash \<and> glob_match (GStar # ts) xs))"
| "glob_match (GAny # ts) s =
     (glob_match ts s \<or> (case s of [] \<Rightarrow> False | x # xs \<Rightarrow> \<not> line_end x \<and> glob_match (GAny # ts) xs))"
  by pat_completeness auto
termination
  by (relation "measure (\<lambda>(ts, s). length ts + length s)") auto

definition matchGlob :: "string \<Rightarrow> string \<Rightarrow> bool" where
  "matchGlob pattern name \<longleftrightarrow> glob_match (glob_tokens pattern) name"

section \<open>Normal forms\<close>

definition normal_path :: "string \<Rightarrow> bool" where
  "normal_path p \<longleftrightarrow> p = [] \<or> hd p \<noteq> slash \<and> last p \<noteq> slash"

lemma strip_lead_hd: "strip_lead s \<noteq> [] \<Longrightarrow> hd (strip_lead s) \<noteq> slash"
  using hd_dropWhile [of "\<lambda>c. c = slash" s] by (simp add: strip_lead_def)

lemma strip_trail_last: "strip_trail s \<noteq> [] \<Longrightarrow> last (strip_trail s) \<noteq> slash"
  using hd_dropWhile [of "\<lambda>c. c = slash" "rev s"] by (simp add: strip_trail_def last_rev)

lemma strip_trail_prefix: "prefix (strip_trail s) s"
proof -
  have "suffix (dropWhile (\<lambda>c. c = slash) (rev s)) (rev s)" by (rule suffix_dropWhile)
  then show ?thesis by (simp add: strip_trail_def suffix_to_prefix)
qed

lemma normalizePath_normal: "normal_path (normalizePath p)"
proof (cases "normalizePath p = []")
  case False
  then obtain z where z: "strip_lead p = normalizePath p @ z" and ne: "strip_trail (strip_lead p) \<noteq> []"
    using strip_trail_prefix [of "strip_lead p"] by (auto simp: normalizePath_def prefix_def)
  have "hd (strip_lead p) = hd (normalizePath p)" using z False by (simp add: hd_append)
  moreover have "strip_lead p \<noteq> []" using z False by simp
  ultimately show ?thesis
    using strip_lead_hd [of p] strip_trail_last [OF ne] by (simp add: normal_path_def normalizePath_def)
qed (simp add: normal_path_def)

lemma normalizePath_id: "normal_path p \<Longrightarrow> normalizePath p = p"
proof (cases p)
  case (Cons c cs)
  assume n: "normal_path p"
  then have "strip_lead p = p" using Cons by (simp add: normal_path_def strip_lead_def)
  moreover have "strip_trail p = p"
  proof (cases p rule: rev_cases)
    case (snoc ys y)
    then show ?thesis using n by (simp add: normal_path_def strip_trail_def)
  qed (simp add: strip_trail_def)
  ultimately show ?thesis by (simp add: normalizePath_def)
qed (simp add: normalizePath_def strip_lead_def strip_trail_def)

lemma normalizePath_idem [simp]: "normalizePath (normalizePath p) = normalizePath p"
  by (simp add: normalizePath_id normalizePath_normal)

lemma path_parts_normalizePath [simp]: "path_parts (normalizePath p) = path_parts p"
  by (simp add: normalizePath_def)

text \<open>The relation of paths is a partial order with the root at its bottom.\<close>

lemma isAncestorOrSelf_refl [simp]: "isAncestorOrSelf p p"
  by (simp add: isAncestorOrSelf_def)

lemma isAncestorOrSelf_root [simp]: "isAncestorOrSelf [] p"
  by (simp add: isAncestorOrSelf_def)

lemma isAncestorOrSelf_iff:
  "isAncestorOrSelf a t \<longleftrightarrow> a = t \<or> a = [] \<or> (\<exists>r. t = a @ slash # r)"
  by (auto simp: isAncestorOrSelf_def prefix_def)

lemma isAncestorOrSelf_trans:
  "isAncestorOrSelf a b \<Longrightarrow> isAncestorOrSelf b c \<Longrightarrow> isAncestorOrSelf a c"
  by (auto simp: isAncestorOrSelf_iff)

lemma isAncestorOrSelf_antisym:
  "isAncestorOrSelf a b \<Longrightarrow> isAncestorOrSelf b a \<Longrightarrow> a = b"
  by (auto simp: isAncestorOrSelf_iff)

lemma isAncestorOrSelf_parts:
  "isAncestorOrSelf a t \<Longrightarrow> prefix (path_parts a) (path_parts t)"
  by (auto simp: isAncestorOrSelf_iff path_parts_append_slash)


section \<open>Lookup paths\<close>

text \<open>
  \<open>_normalizePath\<close> is a normal form: it strips every leading and trailing slash,
  keeps the components, and changes nothing more when applied again.
\<close>

theorem normalizePath_correct:
  "normal_path (normalizePath p) \<and> normalizePath (normalizePath p) = normalizePath p
    \<and> path_parts (normalizePath p) = path_parts p \<and> (normalizePath p = p \<longleftrightarrow> normal_path p)"
  using normalizePath_normal [of p] normalizePath_id [of p] by auto

section \<open>Gimbal paths\<close>

lemma path_step_append: "foldl path_step b (xs @ ys) = foldl path_step (foldl path_step b xs) ys"
  by simp

definition clean_parts :: "string list \<Rightarrow> bool" where
  "clean_parts ps \<longleftrightarrow> (\<forall>w \<in> set ps. slash \<notin> set w \<and> w \<noteq> [])"

lemma clean_path_parts [simp]: "clean_parts (path_parts p)"
  using path_parts_no_slash by (auto simp: clean_parts_def)

lemma clean_parts_simps:
  "clean_parts [] = True" "clean_parts (w # ws) = ((slash \<notin> set w \<and> w \<noteq> []) \<and> clean_parts ws)"
  "clean_parts (us @ ws) = (clean_parts us \<and> clean_parts ws)"
  by (auto simp: clean_parts_def)

lemma clean_butlast: "clean_parts b \<Longrightarrow> clean_parts (butlast b)"
  unfolding clean_parts_def using in_set_butlastD by fast

lemma clean_step: "clean_parts b \<Longrightarrow> slash \<notin> set w \<Longrightarrow> w \<noteq> [] \<Longrightarrow> clean_parts (path_step b w)"
  by (simp add: path_step_def clean_butlast clean_parts_simps)

lemma clean_foldl_step: "clean_parts b \<Longrightarrow> clean_parts ps \<Longrightarrow> clean_parts (foldl path_step b ps)"
  by (induction ps arbitrary: b) (simp_all add: clean_parts_simps clean_step)

lemma parts_of_clean: "clean_parts ps \<Longrightarrow> path_parts (slash # js_join [slash] ps) = ps"
  unfolding clean_parts_def path_parts_slash by (rule path_parts_join)

lemma parts_gp_path: "path_parts (gp_path b r) = foldl path_step (path_parts b) (path_parts r)"
  unfolding gp_path_def by (intro parts_of_clean clean_foldl_step clean_path_parts)

definition no_dots :: "string list \<Rightarrow> bool" where
  "no_dots ps \<longleftrightarrow> ''.'' \<notin> set ps \<and> ''..'' \<notin> set ps"

lemma no_dots_step: "no_dots b \<Longrightarrow> no_dots (path_step b w)"
  using in_set_butlastD [of "''.''" b] in_set_butlastD [of "''..''" b]
  by (auto simp: no_dots_def path_step_def)

lemma no_dots_foldl: "no_dots b \<Longrightarrow> no_dots (foldl path_step b ps)"
  by (induction ps arbitrary: b) (simp_all add: no_dots_step)

text \<open>
  \<open>GimbalPath.path\<close> composes: going through a relative path \<open>r\<close> and then \<open>r'\<close> is going
  through \<open>r/r'\<close>, and \<open>relPath\<close> is \<open>path\<close> of the sibling reference \<open>../r\<close>.
\<close>

theorem gp_path_compose:
  "gp_path (gp_path b r) r' = gp_path b (r @ [slash] @ r') \<and> gp_relPath b r = gp_path b (''../'' @ r)"
proof
  show "gp_path (gp_path b r) r' = gp_path b (r @ [slash] @ r')"
    unfolding gp_path_def [of "gp_path b r"] gp_path_def [of b "r @ [slash] @ r'"] parts_gp_path
    by (simp add: path_parts_append_slash)
  have "path_parts (''../'' @ r) = ''..'' # path_parts r"
    using path_parts_append_slash [of "''..''" r] path_parts_single [of "''..''"] by simp
  then have "foldl path_step (path_parts b) (path_parts (''../'' @ r))
      = foldl path_step (if path_parts b = [] then [] else butlast (path_parts b)) (path_parts r)"
    by (simp add: path_step_def)
  moreover have "clean_parts (if path_parts b = [] then path_parts b else butlast (path_parts b))"
    by (simp add: clean_butlast clean_parts_simps)
  ultimately show "gp_relPath b r = gp_path b (''../'' @ r)"
    by (simp only: gp_relPath_def gp_path_def Let_def parts_of_clean if_cancel cong: if_cong)
qed

text \<open>
  \<open>GimbalPath.path\<close> never leaves the root: the result is absolute and, when the base has no dot
  component, neither has the result, whatever the relative path holds.
\<close>

theorem gp_path_no_escape:
  assumes "no_dots (path_parts b)"
  shows "starts_with [slash] (gp_path b r) \<and> no_dots (path_parts (gp_path b r))"
proof
  show "starts_with [slash] (gp_path b r)" by (simp add: gp_path_def)
  show "no_dots (path_parts (gp_path b r))" using assms by (simp add: parts_gp_path no_dots_foldl)
qed

theorem gp_path_no_escape_witness:
  "gp_path ''/a/b'' ''../../../x'' = ''/x'' \<and> no_dots (path_parts (gp_path ''/a/b'' ''../../../x''))"
proof -
  have "no_dots (path_parts ''/a/b'')" by (simp add: path_parts_def no_dots_def)
  moreover have "gp_path ''/a/b'' ''../../../x'' = ''/x''"
    by (simp add: gp_path_def path_parts_def path_step_def)
  ultimately show ?thesis using gp_path_no_escape [of "''/a/b''" "''../../../x''"] by simp
qed

text \<open>
  \<open>resolvePath\<close> splits \<open>//vol/path\<close>, and anything else is of the volume \<open>primary\<close>; without a
  slash after the volume's name it gives the volume \<open>//\<close>.
\<close>

lemma takeWhile_no_slash:
  "slash \<notin> set v \<Longrightarrow> takeWhile (\<lambda>c. c \<noteq> slash) v = v"
  "slash \<notin> set v \<Longrightarrow> takeWhile (\<lambda>c. c \<noteq> slash) (v @ slash # p) = v"
  by (induction v) auto

lemma resolvePath_volume:
  "slash \<notin> set v \<Longrightarrow> resolvePath (''//'' @ v @ slash # p) = (v, slash # p)"
  by (simp add: resolvePath_def takeWhile_no_slash Let_def)

lemma resolvePath_primary: "\<not> starts_with ''//'' s \<Longrightarrow> resolvePath s = (''primary'', volume_path s)"
  by (simp add: resolvePath_def volume_path_def)

lemma resolvePath_no_path: "slash \<notin> set v \<Longrightarrow> resolvePath (''//'' @ v) = (''//'', ''//'' @ v)"
  by (simp add: resolvePath_def takeWhile_no_slash Let_def)

text \<open>
  \<open>GimbalClient.resolvePath\<close>: \<open>//vol/path\<close> names the path of that volume; any path
  that does not begin with two slashes is a path of \<open>primary\<close>, absolute and with the same
  components; and \<open>//vol\<close> without a further slash is taken for the volume called \<open>//\<close>.
\<close>

theorem resolvePath_cases:
  "(slash \<notin> set v \<longrightarrow> resolvePath (''//'' @ v @ slash # p) = (v, slash # p)
      \<and> resolvePath (''//'' @ v) = (''//'', ''//'' @ v))
    \<and> (\<not> starts_with ''//'' s \<longrightarrow> (\<exists>q. resolvePath s = (''primary'', q)
        \<and> starts_with [slash] q \<and> path_parts q = path_parts s))"
  using resolvePath_volume [of v p] resolvePath_no_path [of v] resolvePath_primary [of s]
  by (auto simp: volume_path_def)

theorem resolvePath_cases_witness:
  "resolvePath ''//vol/x'' = (''vol'', ''/x'') \<and> resolvePath ''//vol'' = (''//'', ''//vol'')"
  using resolvePath_cases [of "''vol''" "''x''"] by simp

section \<open>Globs\<close>

text \<open>The words a regular-expression item accepts, and the language of a sequence of items.\<close>

fun tok_word :: "gtok \<Rightarrow> string \<Rightarrow> bool" where
  "tok_word (GLit c) w = (w = [c])"
| "tok_word GOne w = (\<exists>c. w = [c] \<and> c \<noteq> slash)"
| "tok_word GStar w = (slash \<notin> set w)"
| "tok_word GAny w = (\<forall>c \<in> set w. \<not> line_end c)"

fun glob_lang :: "gtok list \<Rightarrow> string \<Rightarrow> bool" where
  "glob_lang [] s = (s = [])"
| "glob_lang (t # ts) s = (\<exists>w r. s = w @ r \<and> tok_word t w \<and> glob_lang ts r)"

lemma star_unroll:
  assumes "P []" and "\<And>x w. P (x # w) \<longleftrightarrow> q x \<and> P w"
  shows "(\<exists>w r. s = w @ r \<and> P w \<and> L r)
    \<longleftrightarrow> L s \<or> (case s of [] \<Rightarrow> False | x # xs \<Rightarrow> q x \<and> (\<exists>w r. xs = w @ r \<and> P w \<and> L r))"
proof (cases s)
  case Nil
  then show ?thesis using assms(1) by auto
next
  case (Cons x xs)
  have "(\<exists>w r. s = w @ r \<and> P w \<and> L r) \<longleftrightarrow> L s \<or> (\<exists>w r. xs = w @ r \<and> P (x # w) \<and> L r)"
    using assms(1) Cons by (auto simp: Cons_eq_append_conv)
  then show ?thesis using assms(2) Cons by auto
qed

lemma glob_match_lang: "glob_match ts s \<longleftrightarrow> glob_lang ts s"
proof (induction ts s rule: glob_match.induct)
  case (1 s)
  show ?case by simp
next
  case (2 c ts s)
  then show ?case by (cases s) auto
next
  case (3 ts s)
  have "glob_lang (GOne # ts) s \<longleftrightarrow> (\<exists>c r. s = c # r \<and> c \<noteq> slash \<and> glob_lang ts r)"
    unfolding glob_lang.simps tok_word.simps by (metis append_Cons append_Nil)
  then show ?case using 3 by (cases s) (simp_all del: glob_lang.simps)
next
  case (4 ts s)
  have "glob_lang (GStar # ts) s
      \<longleftrightarrow> glob_lang ts s \<or> (case s of [] \<Rightarrow> False | x # xs \<Rightarrow> x \<noteq> slash \<and> glob_lang (GStar # ts) xs)"
    unfolding glob_lang.simps tok_word.simps by (rule star_unroll) auto
  then show ?case using 4 by (cases s) (simp_all del: glob_lang.simps)
next
  case (5 ts s)
  have "glob_lang (GAny # ts) s
      \<longleftrightarrow> glob_lang ts s \<or> (case s of [] \<Rightarrow> False | x # xs \<Rightarrow> \<not> line_end x \<and> glob_lang (GAny # ts) xs)"
    unfolding glob_lang.simps tok_word.simps by (rule star_unroll) auto
  then show ?case using 5 by (cases s) (simp_all del: glob_lang.simps)
qed

definition wild_char :: "char \<Rightarrow> bool" where
  "wild_char c \<longleftrightarrow> c = CHR ''*'' \<or> c = CHR ''?'' \<or> c = CHR 0x00"

lemma tokens_literal: "\<forall>c \<in> set p. \<not> wild_char c \<Longrightarrow> glob_tokens p = map GLit p"
  by (induction p) (auto simp: wild_char_def)

lemma match_literal: "glob_match (map GLit p) s \<longleftrightarrow> s = p"
  by (induction p arbitrary: s) (auto split: list.splits)

lemma tokens_star: "\<forall>c \<in> set p. \<not> wild_char c \<Longrightarrow> glob_tokens (p @ t) = map GLit p @ glob_tokens t"
  by (induction p) (auto simp: wild_char_def)

lemma match_literal_prefix: "glob_match (map GLit p @ ts) s \<longleftrightarrow> (\<exists>r. s = p @ r \<and> glob_match ts r)"
  by (induction p arbitrary: s) (auto split: list.splits simp: Cons_eq_append_conv)

lemma matchGlob_literal: "\<forall>c \<in> set p. \<not> wild_char c \<Longrightarrow> matchGlob p s \<longleftrightarrow> s = p"
  by (simp add: matchGlob_def tokens_literal match_literal)

lemma star_then_literal:
  "glob_match (GStar # map GLit q) r \<longleftrightarrow> (\<exists>w. r = w @ q \<and> slash \<notin> set w)"
proof -
  have "glob_match (GStar # map GLit q) r
      \<longleftrightarrow> (\<exists>w u. r = w @ u \<and> slash \<notin> set w \<and> glob_match (map GLit q) u)"
    unfolding glob_match_lang by simp
  then show ?thesis by (simp add: match_literal)
qed

lemma matchGlob_star:
  assumes "\<forall>c \<in> set p. \<not> wild_char c" and "\<forall>c \<in> set q. \<not> wild_char c"
  shows "matchGlob (p @ ''*'' @ q) s \<longleftrightarrow> (\<exists>w. s = p @ w @ q \<and> slash \<notin> set w)"
proof -
  have "glob_tokens (''*'' @ q) = GStar # map GLit q"
    using assms(2) by (cases q) (simp_all add: tokens_literal wild_char_def)
  then have "matchGlob (p @ ''*'' @ q) s \<longleftrightarrow> (\<exists>r. s = p @ r \<and> glob_match (GStar # map GLit q) r)"
    using assms(1) by (simp only: matchGlob_def tokens_star match_literal_prefix)
  then show ?thesis unfolding star_then_literal by auto
qed



end
