(* ===== verification/Desync.thy ===== *)
theory Desync
  imports Json Paths
begin

text \<open>
  \<open>DesyncQueue\<close> of GritsClient.js, the background flusher of link operations, as a state
  machine. Between two awaits JavaScript runs without interruption, so the steps are: \<open>enqueue\<close>
  (with the synchronous start of the worker), a new waiter, the answer of
  \<open>_serverMultiLink\<close> for the item at the front (with everything up to the next await), and
  the end of the two-second pause after a transient error.
\<close>

section \<open>Link requests\<close>

text \<open>A request as a caller of \<open>multiLink\<close> writes it, fields that may be missing as options.\<close>

record link_arg =
  la_path :: string
  la_addr :: "string option"
  la_prev :: "string option"
  la_assert :: "int option"

section \<open>State\<close>

record dq_entry =
  de_addr :: "string option"
  de_assert :: int
  de_prev :: string
  de_seq :: nat

record dq_item =
  di_path :: string
  di_addr :: "string option"
  di_assert :: int
  di_prev :: string
  di_seq :: nat

text \<open>Where \<open>_flush\<close> is suspended: not running, awaiting the server, or in the pause.\<close>

datatype worker = W_idle | W_send dq_item | W_sleep

text \<open>
  A waiter is a promise, here a number; \<open>dq_resolved\<close> holds the promises resolved so far with
  their values (\<open>None\<close> is null) and \<open>dq_calls\<close> the items handed to \<open>_serverMultiLink\<close> so far;
  both are histories that the code itself does not read.
\<close>

record desync =
  dq_overrides :: "(string \<times> dq_entry) list"
  dq_queue :: "dq_item list"
  dq_seq :: nat
  dq_flushing :: bool
  dq_waiters :: "(nat \<times> nat list) list"
  dq_worker :: worker
  dq_resolved :: "(nat \<times> jsv option) list"
  dq_calls :: "dq_item list"

definition new_desync :: desync where
  "new_desync = \<lparr>dq_overrides = [], dq_queue = [], dq_seq = 0, dq_flushing = False,
     dq_waiters = [], dq_worker = W_idle, dq_resolved = [], dq_calls = []\<rparr>"

section \<open>Queries\<close>

text \<open>The loops over the overrides, with the best entry so far as the accumulator.\<close>

fun ancestor_loop ::
  "string \<Rightarrow> (string \<times> dq_entry) option \<Rightarrow> (string \<times> dq_entry) list \<Rightarrow> (string \<times> dq_entry) option" where
  "ancestor_loop target best [] = best"
| "ancestor_loop target best ((path, entry) # es) =
     (if \<not> isAncestorOrSelf path target then ancestor_loop target best es
      else if (case best of None \<Rightarrow> True | Some (_, b) \<Rightarrow> de_seq entry > de_seq b)
      then ancestor_loop target (Some (path, entry)) es
      else ancestor_loop target best es)"

definition findAncestorOverride :: "desync \<Rightarrow> string \<Rightarrow> (string \<times> string option \<times> nat) option" where
  "findAncestorOverride d target =
     map_option (\<lambda>(path, e). (path, de_addr e, de_seq e)) (ancestor_loop target None (dq_overrides d))"

fun descendant_loop :: "string \<Rightarrow> int \<Rightarrow> (string \<times> dq_entry) list \<Rightarrow> int" where
  "descendant_loop target highest [] = highest"
| "descendant_loop target highest ((path, entry) # es) =
     (if \<not> isAncestorOrSelf target path then descendant_loop target highest es
      else if int (de_seq entry) > highest then descendant_loop target (int (de_seq entry)) es
      else descendant_loop target highest es)"

definition findDescendantSeq :: "desync \<Rightarrow> string \<Rightarrow> int" where
  "findDescendantSeq d target = descendant_loop target (- 1) (dq_overrides d)"

section \<open>Operations\<close>

definition waitForSeq :: "nat \<Rightarrow> nat \<Rightarrow> desync \<Rightarrow> desync" where
  "waitForSeq targetSeq promise d =
     d\<lparr>dq_waiters := map_set targetSeq (or_else (map_get (dq_waiters d) targetSeq) [] @ [promise])
        (dq_waiters d)\<rparr>"

definition notifyWaiters :: "nat \<Rightarrow> jsv option \<Rightarrow> desync \<Rightarrow> desync" where
  "notifyWaiters seq result d =
     (case map_get (dq_waiters d) seq of
        None \<Rightarrow> d
      | Some ws \<Rightarrow> d\<lparr>dq_waiters := map_del seq (dq_waiters d),
                     dq_resolved := dq_resolved d @ map (\<lambda>w. (w, result)) ws\<rparr>)"

text \<open>\<open>this._overrides.get(item.path)?.seq === item.seq\<close>\<close>

definition is_current :: "desync \<Rightarrow> dq_item \<Rightarrow> bool" where
  "is_current d item \<longleftrightarrow>
     (case map_get (dq_overrides d) (di_path item) of None \<Rightarrow> False | Some e \<Rightarrow> de_seq e = di_seq item)"

text \<open>
  \<open>_flush\<close> from the head of its loop to the next await: superseded items are skipped, their
  waiters resolved with null; the first current item is sent; with an empty queue the worker ends.
\<close>

lemma queue_notify [simp]: "dq_queue (notifyWaiters s r d) = dq_queue d"
  by (simp add: notifyWaiters_def split: option.split)

function flush_loop :: "desync \<Rightarrow> desync" where
  "flush_loop d =
     (case dq_queue d of
        [] \<Rightarrow> d\<lparr>dq_flushing := False, dq_worker := W_idle\<rparr>
      | item # rest \<Rightarrow>
          if \<not> is_current d item
          then flush_loop (notifyWaiters (di_seq item) None (d\<lparr>dq_queue := rest\<rparr>))
          else d\<lparr>dq_worker := W_send item, dq_calls := dq_calls d @ [item]\<rparr>)"
  by pat_completeness auto
termination
  by (relation "measure (\<lambda>d. length (dq_queue d))") auto

declare flush_loop.simps [simp del]

definition kick :: "desync \<Rightarrow> desync" where
  "kick d = (if \<not> dq_flushing d then flush_loop (d\<lparr>dq_flushing := True\<rparr>) else d)"

definition enqueue :: "string \<Rightarrow> string option \<Rightarrow> int \<Rightarrow> string \<Rightarrow> desync \<Rightarrow> desync" where
  "enqueue path addr ass prevAddr d =
     (let seq = Suc (dq_seq d);
          entry = \<lparr>de_addr = addr, de_assert = ass, de_prev = prevAddr, de_seq = seq\<rparr>;
          item = \<lparr>di_path = path, di_addr = addr, di_assert = ass, di_prev = prevAddr, di_seq = seq\<rparr>
      in kick (d\<lparr>dq_seq := seq, dq_overrides := map_set path entry (dq_overrides d),
                 dq_queue := dq_queue d @ [item]\<rparr>))"

text \<open>The request the worker sends for an item.\<close>

definition item_request :: "dq_item \<Rightarrow> link_arg" where
  "item_request item = \<lparr>la_path = di_path item, la_addr = Some (or_else (di_addr item) []),
     la_prev = Some (di_prev item), la_assert = Some (di_assert item)\<rparr>"

text \<open>What the catch block makes of the outcome: a result, a dropped item or a pause.\<close>

datatype flush_outcome = F_done "jsv option" | F_retry

definition classify :: "err + jsv \<Rightarrow> flush_outcome" where
  "classify r =
     (case r of
        Inr result \<Rightarrow> F_done (Some result)
      | Inl e \<Rightarrow> if is_assertion e then F_done None
                 else if str_includes (err_message e) ''file does not exist'' then F_done None
                 else F_retry)"

text \<open>\<open>shift()\<close>, the override removed if it is still this item's, and the waiters told.\<close>

definition drop_item :: "dq_item \<Rightarrow> jsv option \<Rightarrow> desync \<Rightarrow> desync" where
  "drop_item item result d =
     notifyWaiters (di_seq item) result
       (d\<lparr>dq_queue := tl (dq_queue d),
          dq_overrides := (if is_current d item then map_del (di_path item) (dq_overrides d)
                           else dq_overrides d)\<rparr>)"

text \<open>The answer of \<open>_serverMultiLink\<close> reaches \<open>_flush\<close>, which goes on to its next await.\<close>

definition on_server :: "err + jsv \<Rightarrow> desync \<Rightarrow> desync" where
  "on_server r d =
     (case dq_worker d of
        W_send item \<Rightarrow>
          (case classify r of
             F_done result \<Rightarrow> flush_loop (drop_item item result d)
           | F_retry \<Rightarrow> d\<lparr>dq_worker := W_sleep\<rparr>)
      | _ \<Rightarrow> d)"

definition on_wake :: "desync \<Rightarrow> desync" where
  "on_wake d = (case dq_worker d of W_sleep \<Rightarrow> flush_loop d | _ \<Rightarrow> d)"

section \<open>The step relation\<close>

text \<open>
  \<open>waitForSeq\<close> is called only with a sequence number that \<open>findDescendantSeq\<close> has just returned.
\<close>

inductive dq_step :: "desync \<Rightarrow> desync \<Rightarrow> bool" where
  enq: "dq_step d (enqueue path addr ass prev d)"
| wait: "findDescendantSeq d target = int n \<Longrightarrow> dq_step d (waitForSeq n promise d)"
| answer: "dq_worker d = W_send item \<Longrightarrow> dq_step d (on_server r d)"
| wake: "dq_worker d = W_sleep \<Longrightarrow> dq_step d (on_wake d)"

inductive dq_reach :: "desync \<Rightarrow> bool" where
  start: "dq_reach new_desync"
| step: "dq_reach d \<Longrightarrow> dq_step d d' \<Longrightarrow> dq_reach d'"

inductive_cases dq_stepE: "dq_step d d'"

section \<open>Invariant\<close>

definition item_of :: "string \<Rightarrow> dq_entry \<Rightarrow> dq_item" where
  "item_of p e = \<lparr>di_path = p, di_addr = de_addr e, di_assert = de_assert e, di_prev = de_prev e,
     di_seq = de_seq e\<rparr>"

text \<open>
  The data part: sequence numbers grow along the queue, every override still has its item in the
  queue, every waiter waits for an item of the queue, and what was sent was sent in order.
\<close>

definition dq_core :: "desync \<Rightarrow> bool" where
  "dq_core d \<longleftrightarrow>
     sorted_wrt (<) (map di_seq (dq_queue d))
   \<and> (\<forall>i \<in> set (dq_queue d). 0 < di_seq i \<and> di_seq i \<le> dq_seq d)
   \<and> (\<forall>p e. map_get (dq_overrides d) p = Some e \<longrightarrow> item_of p e \<in> set (dq_queue d))
   \<and> (\<forall>n. map_get (dq_waiters d) n \<noteq> None \<longrightarrow> n \<in> di_seq ` set (dq_queue d))
   \<and> distinct (map fst (dq_overrides d))
   \<and> sorted (map di_seq (dq_calls d))
   \<and> (\<forall>c \<in> set (dq_calls d). di_seq c \<le> dq_seq d \<and> (\<forall>i \<in> set (dq_queue d). di_seq c \<le> di_seq i))"

text \<open>The worker part: idle exactly with an empty queue, and the item being sent is at the front.\<close>

definition dq_ctl :: "desync \<Rightarrow> bool" where
  "dq_ctl d \<longleftrightarrow>
     (case dq_worker d of
        W_idle \<Rightarrow> dq_queue d = [] \<and> \<not> dq_flushing d
      | W_send item \<Rightarrow> dq_flushing d \<and> dq_queue d \<noteq> [] \<and> hd (dq_queue d) = item
      | W_sleep \<Rightarrow> dq_flushing d \<and> dq_queue d \<noteq> [])"

definition dq_inv :: "desync \<Rightarrow> bool" where
  "dq_inv d \<longleftrightarrow> dq_core d \<and> dq_ctl d"

lemma dq_coreI:
  assumes "sorted_wrt (<) (map di_seq (dq_queue d))"
    and "\<And>i. i \<in> set (dq_queue d) \<Longrightarrow> 0 < di_seq i \<and> di_seq i \<le> dq_seq d"
    and "\<And>p e. map_get (dq_overrides d) p = Some e \<Longrightarrow> item_of p e \<in> set (dq_queue d)"
    and "\<And>n. map_get (dq_waiters d) n \<noteq> None \<Longrightarrow> n \<in> di_seq ` set (dq_queue d)"
    and "distinct (map fst (dq_overrides d))"
    and "sorted (map di_seq (dq_calls d))"
    and "\<And>c. c \<in> set (dq_calls d) \<Longrightarrow> di_seq c \<le> dq_seq d"
    and "\<And>c i. c \<in> set (dq_calls d) \<Longrightarrow> i \<in> set (dq_queue d) \<Longrightarrow> di_seq c \<le> di_seq i"
  shows "dq_core d"
  using assms unfolding dq_core_def by blast

lemma dq_coreD:
  assumes "dq_core d"
  shows "sorted_wrt (<) (map di_seq (dq_queue d))"
    and "i \<in> set (dq_queue d) \<Longrightarrow> 0 < di_seq i \<and> di_seq i \<le> dq_seq d"
    and "map_get (dq_overrides d) p = Some e \<Longrightarrow> item_of p e \<in> set (dq_queue d)"
    and "map_get (dq_waiters d) n \<noteq> None \<Longrightarrow> n \<in> di_seq ` set (dq_queue d)"
    and "sorted (map di_seq (dq_calls d))"
    and "distinct (map fst (dq_overrides d))"
    and "c \<in> set (dq_calls d) \<Longrightarrow> di_seq c \<le> dq_seq d"
    and "c \<in> set (dq_calls d) \<Longrightarrow> i \<in> set (dq_queue d) \<Longrightarrow> di_seq c \<le> di_seq i"
  using assms unfolding dq_core_def by blast+

lemma notify_sel [simp]:
  "dq_overrides (notifyWaiters n r d) = dq_overrides d"
  "dq_seq (notifyWaiters n r d) = dq_seq d"
  "dq_flushing (notifyWaiters n r d) = dq_flushing d"
  "dq_worker (notifyWaiters n r d) = dq_worker d"
  "dq_calls (notifyWaiters n r d) = dq_calls d"
  by (simp_all add: notifyWaiters_def split: option.split)

lemma notify_waiters [simp]:
  "map_get (dq_waiters (notifyWaiters n r d)) m = (if m = n then None else map_get (dq_waiters d) m)"
  by (simp add: notifyWaiters_def split: option.split)

lemma drop_item_sel [simp]:
  "dq_queue (drop_item item r d) = tl (dq_queue d)"
  "dq_seq (drop_item item r d) = dq_seq d"
  "dq_flushing (drop_item item r d) = dq_flushing d"
  "dq_worker (drop_item item r d) = dq_worker d"
  "dq_calls (drop_item item r d) = dq_calls d"
  "dq_overrides (drop_item item r d) =
     (if is_current d item then map_del (di_path item) (dq_overrides d) else dq_overrides d)"
  by (simp_all add: drop_item_def)

lemma skip_is_drop:
  "\<not> is_current d item \<Longrightarrow> dq_queue d = item # rest \<Longrightarrow>
    notifyWaiters (di_seq item) None (d\<lparr>dq_queue := rest\<rparr>) = drop_item item None d"
  by (simp add: drop_item_def)

lemma core_drop_item:
  assumes "dq_core d" and q: "dq_queue d = item # rest"
  shows "dq_core (drop_item item r d)"
proof (rule dq_coreI)
  note D = dq_coreD [OF assms(1)]
  show "sorted_wrt (<) (map di_seq (dq_queue (drop_item item r d)))"
    using D(1) q by simp
  show "0 < di_seq i \<and> di_seq i \<le> dq_seq (drop_item item r d)"
    if "i \<in> set (dq_queue (drop_item item r d))" for i using D(2) q that by simp
  show "item_of p e \<in> set (dq_queue (drop_item item r d))"
    if "map_get (dq_overrides (drop_item item r d)) p = Some e" for p e
  proof -
    have o: "map_get (dq_overrides d) p = Some e" and n: "\<not> (p = di_path item \<and> is_current d item)"
      using that by (auto split: if_splits)
    then have "item_of p e \<noteq> item" by (auto simp: item_of_def is_current_def)
    then show ?thesis using D(3) [OF o] q by simp
  qed
  show "n \<in> di_seq ` set (dq_queue (drop_item item r d))"
    if "map_get (dq_waiters (drop_item item r d)) n \<noteq> None" for n
  proof -
    have "n \<noteq> di_seq item" and w: "map_get (dq_waiters d) n \<noteq> None"
      using that by (auto simp: drop_item_def split: if_splits)
    then show ?thesis using D(4) [OF w] q by auto
  qed
  show "sorted (map di_seq (dq_calls (drop_item item r d)))" using D(5) by simp
  show "distinct (map fst (dq_overrides (drop_item item r d)))" using D(6) by (simp add: distinct_map_del)
  show "di_seq c \<le> dq_seq (drop_item item r d)" if "c \<in> set (dq_calls (drop_item item r d))" for c
    using D(7) that by simp
  show "di_seq c \<le> di_seq i"
    if "c \<in> set (dq_calls (drop_item item r d))" "i \<in> set (dq_queue (drop_item item r d))" for c i
    using D(8) [of c i] that q by simp
qed

lemma core_control [simp]:
  "dq_core (d\<lparr>dq_worker := w\<rparr>) = dq_core d" "dq_core (d\<lparr>dq_flushing := f\<rparr>) = dq_core d"
  "dq_core (d\<lparr>dq_flushing := f, dq_worker := w\<rparr>) = dq_core d"
  by (simp_all add: dq_core_def)

lemma core_call:
  assumes "dq_core d" and q: "dq_queue d = item # rest"
  shows "dq_core (d\<lparr>dq_worker := w, dq_calls := dq_calls d @ [item]\<rparr>)"
proof (rule dq_coreI)
  note D = dq_coreD [OF assms(1)]
  have le: "di_seq item \<le> di_seq i" if "i \<in> set (dq_queue d)" for i
    using that q D(1) by auto
  show "sorted (map di_seq (dq_calls (d\<lparr>dq_worker := w, dq_calls := dq_calls d @ [item]\<rparr>)))"
    using D(5) D(8) q by (auto simp: sorted_append)
  show "di_seq c \<le> dq_seq (d\<lparr>dq_worker := w, dq_calls := dq_calls d @ [item]\<rparr>)"
    if "c \<in> set (dq_calls (d\<lparr>dq_worker := w, dq_calls := dq_calls d @ [item]\<rparr>))" for c
    using that D(2) D(7) q by auto
  show "di_seq c \<le> di_seq i"
    if "c \<in> set (dq_calls (d\<lparr>dq_worker := w, dq_calls := dq_calls d @ [item]\<rparr>))"
      "i \<in> set (dq_queue (d\<lparr>dq_worker := w, dq_calls := dq_calls d @ [item]\<rparr>))" for c i
    using that D(8) le by auto
qed (use dq_coreD [OF assms(1)] in auto)

lemma inv_flush_loop: "dq_core d \<Longrightarrow> dq_flushing d \<Longrightarrow> dq_inv (flush_loop d)"
proof (induction d rule: flush_loop.induct)
  case (1 d)
  show ?case
  proof (cases "dq_queue d")
    case Nil
    then show ?thesis using "1.prems" by (subst flush_loop.simps) (simp add: dq_inv_def dq_ctl_def)
  next
    case (Cons item rest)
    show ?thesis
    proof (cases "is_current d item")
      case True
      then show ?thesis
        using "1.prems" core_call [OF "1.prems"(1) Cons] Cons
        by (subst flush_loop.simps) (simp add: dq_inv_def dq_ctl_def)
    next
      case False
      then have "dq_core (notifyWaiters (di_seq item) None (d\<lparr>dq_queue := rest\<rparr>))"
        using core_drop_item [OF "1.prems"(1) Cons] skip_is_drop [OF False Cons] by simp
      then show ?thesis
        using "1.IH" [OF Cons False] "1.prems" False Cons by (subst flush_loop.simps) simp
    qed
  qed
qed

lemma ctl_queue: "dq_ctl d \<Longrightarrow> dq_flushing d \<Longrightarrow> dq_queue d \<noteq> []"
  by (auto simp: dq_ctl_def split: worker.splits)

lemma inv_enqueue:
  assumes "dq_inv d"
  shows "dq_inv (enqueue path addr ass prev d)"
proof -
  define e where "e = \<lparr>de_addr = addr, de_assert = ass, de_prev = prev, de_seq = Suc (dq_seq d)\<rparr>"
  define item where "item = \<lparr>di_path = path, di_addr = addr, di_assert = ass, di_prev = prev,
    di_seq = Suc (dq_seq d)\<rparr>"
  define d1 where "d1 = d\<lparr>dq_seq := Suc (dq_seq d), dq_overrides := map_set path e (dq_overrides d),
    dq_queue := dq_queue d @ [item]\<rparr>"
  have eq: "enqueue path addr ass prev d = kick d1"
    by (simp add: enqueue_def d1_def e_def item_def)
  note D = dq_coreD [of d]
  have core: "dq_core d" and ctl: "dq_ctl d" using assms by (simp_all add: dq_inv_def)
  have it: "item_of path e = item" by (simp add: item_of_def e_def item_def)
  have sel: "dq_queue d1 = dq_queue d @ [item]" "dq_seq d1 = Suc (dq_seq d)" "di_seq item = Suc (dq_seq d)"
    "dq_overrides d1 = map_set path e (dq_overrides d)" "dq_waiters d1 = dq_waiters d"
    "dq_calls d1 = dq_calls d" "dq_flushing d1 = dq_flushing d" "dq_worker d1 = dq_worker d"
    by (simp_all add: d1_def item_def)
  have core1: "dq_core d1"
  proof (rule dq_coreI)
    show "sorted_wrt (<) (map di_seq (dq_queue d1))"
      using D(1) [OF core] D(2) [OF core] by (auto simp: sel sorted_wrt_append less_Suc_eq_le)
    show "0 < di_seq i \<and> di_seq i \<le> dq_seq d1" if "i \<in> set (dq_queue d1)" for i
      using that D(2) [OF core] by (auto simp: sel le_Suc_eq)
    show "item_of p f \<in> set (dq_queue d1)" if "map_get (dq_overrides d1) p = Some f" for p f
      using that D(3) [OF core] it by (auto simp: sel split: if_splits)
    show "n \<in> di_seq ` set (dq_queue d1)" if "map_get (dq_waiters d1) n \<noteq> None" for n
      using that D(4) [OF core] by (simp add: sel)
    show "sorted (map di_seq (dq_calls d1))" using D(5) [OF core] by (simp add: sel)
    show "distinct (map fst (dq_overrides d1))" using D(6) [OF core] by (simp add: sel distinct_map_set)
    show "di_seq c \<le> dq_seq d1" if "c \<in> set (dq_calls d1)" for c
      using that D(7) [OF core] by (simp add: sel le_SucI)
    show "di_seq c \<le> di_seq i" if "c \<in> set (dq_calls d1)" "i \<in> set (dq_queue d1)" for c i
      using that D(7) [OF core] D(8) [OF core] by (auto simp: sel le_SucI)
  qed
  show ?thesis
  proof (cases "dq_flushing d")
    case True
    then show ?thesis
      using core1 ctl ctl_queue [OF ctl True]
      by (simp add: eq kick_def dq_inv_def dq_ctl_def sel split: worker.splits)
  next
    case False
    then have "kick d1 = flush_loop (d1\<lparr>dq_flushing := True\<rparr>)" by (simp add: kick_def sel)
    then show ?thesis using eq inv_flush_loop [of "d1\<lparr>dq_flushing := True\<rparr>"] core1 by simp
  qed
qed

lemma inv_on_server: "dq_inv d \<Longrightarrow> dq_inv (on_server r d)"
proof (cases "dq_worker d")
  case (W_send item)
  assume inv: "dq_inv d"
  then have f: "dq_flushing d" and q: "dq_queue d = item # tl (dq_queue d)"
    using W_send by (auto simp: dq_inv_def dq_ctl_def)
  show ?thesis
  proof (cases "classify r")
    case (F_done result)
    then show ?thesis
      using inv_flush_loop [of "drop_item item result d"] core_drop_item [OF _ q] inv f W_send
      by (simp add: on_server_def dq_inv_def)
  next
    case F_retry
    then show ?thesis using inv q f W_send by (simp add: on_server_def dq_inv_def dq_ctl_def)
  qed
qed (simp_all add: on_server_def)

lemma inv_on_wake: "dq_inv d \<Longrightarrow> dq_inv (on_wake d)"
  by (auto simp: on_wake_def dq_inv_def [of d] dq_ctl_def intro: inv_flush_loop split: worker.split)

section \<open>The queries\<close>

lemma descendant_loop_spec:
  "h \<le> descendant_loop t h es
   \<and> (descendant_loop t h es = h \<or>
        (\<exists>p e. (p, e) \<in> set es \<and> isAncestorOrSelf t p \<and> descendant_loop t h es = int (de_seq e)))
   \<and> (\<forall>p e. (p, e) \<in> set es \<and> isAncestorOrSelf t p \<longrightarrow> int (de_seq e) \<le> descendant_loop t h es)"
proof (induction es arbitrary: h)
  case (Cons pe es)
  obtain p e where [simp]: "pe = (p, e)" by fastforce
  show ?case using Cons.IH [of h] Cons.IH [of "int (de_seq e)"] by auto
qed simp

lemma findDescendantSeq_override:
  assumes "findDescendantSeq d t = int n"
  obtains p e where "(p, e) \<in> set (dq_overrides d)" "isAncestorOrSelf t p" "de_seq e = n"
  using assms descendant_loop_spec [of "- 1" t "dq_overrides d"]
  unfolding findDescendantSeq_def by auto

lemma ancestor_loop_None:
  "ancestor_loop t best es = None \<longleftrightarrow> best = None \<and> (\<forall>(p, e) \<in> set es. \<not> isAncestorOrSelf p t)"
  by (induction t best es rule: ancestor_loop.induct) (auto split: option.splits if_splits)

lemma ancestor_loop_in:
  "ancestor_loop t best es = Some (p, e) \<Longrightarrow>
    best = Some (p, e) \<or> (p, e) \<in> set es \<and> isAncestorOrSelf p t"
  by (induction t best es rule: ancestor_loop.induct) (auto split: if_splits)

lemma ancestor_loop_best:
  "ancestor_loop t best es = Some (p, e) \<Longrightarrow> best = Some (q, f) \<Longrightarrow> de_seq f \<le> de_seq e"
proof (induction t best es arbitrary: q f rule: ancestor_loop.induct)
  case (2 target best path entry es)
  show ?case
  proof (cases "isAncestorOrSelf path target \<and> de_seq f < de_seq entry")
    case True
    then have "de_seq entry \<le> de_seq e" using "2.IH"(2) "2.prems" by simp
    then show ?thesis using True by simp
  next
    case False
    then show ?thesis using "2.IH"(1,3) "2.prems" by (auto split: if_splits)
  qed
qed simp

lemma ancestor_loop_max:
  "ancestor_loop t best es = Some (p, e) \<Longrightarrow> (q, f) \<in> set es \<Longrightarrow> isAncestorOrSelf q t \<Longrightarrow>
    de_seq f \<le> de_seq e"
proof (induction es arbitrary: best)
  case (Cons pe es)
  obtain p1 e1 where pe: "pe = (p1, e1)" by fastforce
  show ?case
  proof (cases "(q, f) \<in> set es")
    case True
    then show ?thesis using Cons.IH Cons.prems pe by (auto split: if_splits)
  next
    case False
    then have now: "p1 = q" "e1 = f" using Cons.prems(2) pe by auto
    show ?thesis
    proof (cases "case best of None \<Rightarrow> True | Some (_, b) \<Rightarrow> de_seq f > de_seq b")
      case True
      then have "ancestor_loop t (Some (q, f)) es = Some (p, e)" using Cons.prems pe now by simp
      then show ?thesis using ancestor_loop_best by blast
    next
      case False
      then obtain b c where b: "best = Some (b, c)" "de_seq f \<le> de_seq c"
        by (auto split: option.splits)
      then have "ancestor_loop t (Some (b, c)) es = Some (p, e)" using Cons.prems pe now by simp
      then show ?thesis using ancestor_loop_best b(2) order_trans by blast
    qed
  qed
qed simp

lemma inv_waitForSeq:
  assumes "dq_inv d" and "findDescendantSeq d t = int n"
  shows "dq_inv (waitForSeq n w d)"
proof -
  have core: "dq_core d" using assms(1) by (simp add: dq_inv_def)
  obtain p e where pe: "(p, e) \<in> set (dq_overrides d)" "de_seq e = n"
    using findDescendantSeq_override [OF assms(2)] by blast
  then have "map_get (dq_overrides d) p = Some e" using dq_coreD(6) [OF core] by simp
  then have "item_of p e \<in> set (dq_queue d)" using dq_coreD(3) [OF core] by blast
  then have "n \<in> di_seq ` set (dq_queue d)" using pe(2) by (force simp: item_of_def)
  then have "dq_core (waitForSeq n w d)"
    using core by (auto simp: dq_core_def waitForSeq_def split: if_splits)
  moreover have "dq_ctl (waitForSeq n w d)"
    using assms(1) by (cases "dq_worker d") (simp_all add: dq_inv_def dq_ctl_def waitForSeq_def)
  ultimately show ?thesis by (simp add: dq_inv_def)
qed

lemma inv_new: "dq_inv new_desync"
  by (simp add: dq_inv_def dq_core_def dq_ctl_def new_desync_def)

lemma inv_step: "dq_step d d' \<Longrightarrow> dq_inv d \<Longrightarrow> dq_inv d'"
  by (elim dq_stepE) (auto intro: inv_enqueue inv_waitForSeq inv_on_server inv_on_wake)

interpretation queue: step_invariant dq_step "\<lambda>d. d = new_desync" dq_inv
  by unfold_locales (auto intro: inv_new inv_step)

lemma dq_reach_steps: "dq_reach d \<Longrightarrow> dq_step\<^sup>*\<^sup>* new_desync d"
  by (induction rule: dq_reach.induct) auto

lemma reach_inv: "dq_reach d \<Longrightarrow> dq_inv d"
  by (rule queue.reached [OF refl dq_reach_steps])

lemma quiet_if_inv:
  assumes "dq_inv d" and "dq_worker d = W_idle"
  shows "dq_overrides d = [] \<and> (\<forall>n. map_get (dq_waiters d) n = None) \<and> dq_queue d = []"
proof -
  have q: "dq_queue d = []" and core: "dq_core d"
    using assms by (auto simp: dq_inv_def dq_ctl_def)
  have "dq_overrides d = []"
  proof (cases "dq_overrides d")
    case (Cons pe es)
    then have "map_get (dq_overrides d) (fst pe) = Some (snd pe)" by (cases pe) simp
    then show ?thesis using dq_coreD(3) [OF core] q by fastforce
  qed
  then show ?thesis using dq_coreD(4) [OF core] q by fastforce
qed

section \<open>Draining\<close>

lemma flush_loop_queue: "length (dq_queue (flush_loop d)) \<le> length (dq_queue d)"
proof (induction d rule: flush_loop.induct)
  case (1 d)
  show ?case
  proof (cases "dq_queue d")
    case (Cons item rest)
    then show ?thesis
      using "1.IH" [OF Cons] by (subst flush_loop.simps) auto
  qed (subst flush_loop.simps, simp)
qed

definition final_answer :: "err + jsv \<Rightarrow> bool" where
  "final_answer r \<longleftrightarrow> classify r \<noteq> F_retry"

lemma on_server_shrinks:
  assumes "dq_inv d" "dq_worker d \<noteq> W_sleep" "final_answer r"
  shows "dq_worker (on_server r d) \<noteq> W_sleep
    \<and> length (dq_queue (on_server r d)) \<le> length (dq_queue d) - 1"
proof (cases "dq_worker d")
  case W_idle
  then show ?thesis using assms(1) by (simp add: on_server_def dq_inv_def dq_ctl_def)
next
  case (W_send item)
  obtain res where c: "classify r = F_done res"
    using assms(3) by (cases "classify r") (auto simp: final_answer_def)
  have eq: "on_server r d = flush_loop (drop_item item res d)"
    using W_send c by (simp add: on_server_def)
  have no_sleep: "dq_worker (flush_loop e) \<noteq> W_sleep" for e
  proof (induction e rule: flush_loop.induct)
    case (1 e)
    then show ?case by (subst flush_loop.simps) (auto split: list.split)
  qed
  show ?thesis
    using flush_loop_queue [of "drop_item item res d"] no_sleep eq by simp
qed (use assms in simp)

lemma drain:
  assumes "dq_inv d" "dq_worker d \<noteq> W_sleep" "\<forall>r \<in> set rs. final_answer r"
    and "length (dq_queue d) \<le> length rs"
  shows "dq_inv (fold on_server rs d) \<and> dq_worker (fold on_server rs d) = W_idle"
  using assms
proof (induction rs arbitrary: d)
  case Nil
  then show ?case by (auto simp: dq_inv_def dq_ctl_def split: worker.splits)
next
  case (Cons r rs)
  then have "dq_worker (on_server r d) \<noteq> W_sleep"
    and "length (dq_queue (on_server r d)) \<le> length (dq_queue d) - 1"
    using on_server_shrinks [of d r] by auto
  then show ?case using Cons inv_on_server [of d r] by simp
qed

section \<open>Properties\<close>

text \<open>The equations that run the queue on a concrete state.\<close>

lemmas desync_run = enqueue_def kick_def new_desync_def flush_loop.simps is_current_def Let_def

text \<open>
  C18. In every reachable state of the queue: sequence numbers grow along it; every override that a
  lookup could follow still has its write in the queue; nobody waits for a write that is not in the
  queue; and the writes handed to the server were handed over in the order of their numbers.
\<close>

theorem desync_reachable_inv: "dq_reach d \<Longrightarrow> dq_core d \<and> dq_ctl d"
  using reach_inv by (simp add: dq_inv_def)

theorem desync_reachable_inv_witness:
  "dq_core (enqueue ''a'' (Some ''c1'') 0 [] new_desync)
    \<and> dq_worker (enqueue ''a'' (Some ''c1'') 0 [] new_desync) \<noteq> W_idle"
proof
  have "dq_reach (enqueue ''a'' (Some ''c1'') 0 [] new_desync)"
    by (rule dq_reach.step [OF dq_reach.start dq_step.enq])
  then show "dq_core (enqueue ''a'' (Some ''c1'') 0 [] new_desync)"
    using desync_reachable_inv by blast
  show "dq_worker (enqueue ''a'' (Some ''c1'') 0 [] new_desync) \<noteq> W_idle"
    by (simp add: desync_run)
qed

text \<open>
  C19. When the worker of a reachable queue has ended, nothing is left behind: the overrides are
  gone, so lookups go to the server again, and no promise given out by \<open>waitForSeq\<close> is pending.
\<close>

theorem desync_quiescent:
  assumes "dq_reach d" and "\<not> dq_flushing d"
  shows "dq_queue d = [] \<and> dq_overrides d = [] \<and> (\<forall>n. map_get (dq_waiters d) n = None)"
proof -
  have inv: "dq_inv d" using assms(1) by (rule reach_inv)
  then have "dq_worker d = W_idle" using assms(2) by (auto simp: dq_inv_def dq_ctl_def split: worker.splits)
  then show ?thesis using quiet_if_inv [OF inv] by simp
qed

theorem desync_quiescent_witness:
  "dq_overrides (on_server (Inr JNull) (enqueue ''a'' (Some ''c1'') 0 [] new_desync)) = []"
proof -
  let ?d = "enqueue ''a'' (Some ''c1'') 0 [] new_desync"
  have r: "dq_reach ?d" by (rule dq_reach.step [OF dq_reach.start dq_step.enq])
  have w: "dq_worker ?d = W_send \<lparr>di_path = ''a'', di_addr = Some ''c1'', di_assert = 0, di_prev = [],
      di_seq = 1\<rparr>"
    by (simp add: desync_run)
  have "dq_reach (on_server (Inr JNull) ?d)"
    by (rule dq_reach.step [OF r dq_step.answer [OF w]])
  moreover have "\<not> dq_flushing (on_server (Inr JNull) ?d)"
    by (simp add: on_server_def w classify_def drop_item_def notifyWaiters_def)
      (simp add: desync_run)
  ultimately show ?thesis using desync_quiescent by blast
qed

text \<open>
  C20. The worker drains the queue: unless it is in the pause after a transient error, as many
  final answers of the server (success, a failed assertion, or a missing file) as there
  are items empty it, whatever was superseded meanwhile.
\<close>

theorem desync_drains:
  assumes "dq_reach d" and "dq_worker d \<noteq> W_sleep"
    and "\<forall>r \<in> set rs. final_answer r" and "length (dq_queue d) \<le> length rs"
  shows "dq_queue (fold on_server rs d) = [] \<and> dq_overrides (fold on_server rs d) = []
    \<and> (\<forall>n. map_get (dq_waiters (fold on_server rs d)) n = None)"
  using quiet_if_inv drain [OF reach_inv [OF assms(1)] assms(2-4)] by blast

theorem desync_drains_witness:
  "dq_queue (fold on_server [Inr JNull, Inl (Err_Assertion ''stale'')]
     (enqueue ''a'' None 0 [] (enqueue ''a'' (Some ''c1'') 0 [] new_desync))) = []"
proof -
  let ?d = "enqueue ''a'' None 0 [] (enqueue ''a'' (Some ''c1'') 0 [] new_desync)"
  have r: "dq_reach ?d" by (intro dq_reach.step [OF _ dq_step.enq] dq_reach.start)
  have "dq_worker ?d \<noteq> W_sleep" and "length (dq_queue ?d) = 2"
    by (simp_all add: desync_run)
  then show ?thesis
    using desync_drains [OF r, of "[Inr JNull, Inl (Err_Assertion ''stale'')]"]
    by (simp add: final_answer_def classify_def)
qed

text \<open>
  The two queries of the override map: the ancestor override a lookup follows is the newest
  write at or above the path, and the number a listing waits for is that of the newest write at or
  below it; no result means that there is no such write.
\<close>

theorem desync_queries:
  "(findAncestorOverride d t = None \<longleftrightarrow> (\<forall>(p, e) \<in> set (dq_overrides d). \<not> isAncestorOrSelf p t))
   \<and> (\<forall>p a n. findAncestorOverride d t = Some (p, a, n) \<longrightarrow>
        (\<exists>e. (p, e) \<in> set (dq_overrides d) \<and> isAncestorOrSelf p t \<and> de_addr e = a \<and> de_seq e = n)
      \<and> (\<forall>q f. (q, f) \<in> set (dq_overrides d) \<and> isAncestorOrSelf q t \<longrightarrow> de_seq f \<le> n))
   \<and> (\<forall>p e. (p, e) \<in> set (dq_overrides d) \<and> isAncestorOrSelf t p \<longrightarrow> int (de_seq e) \<le> findDescendantSeq d t)
   \<and> (findDescendantSeq d t = - 1
      \<or> (\<exists>p e. (p, e) \<in> set (dq_overrides d) \<and> isAncestorOrSelf t p
            \<and> findDescendantSeq d t = int (de_seq e)))"
proof -
  have "findAncestorOverride d t = None \<longleftrightarrow> (\<forall>(p, e) \<in> set (dq_overrides d). \<not> isAncestorOrSelf p t)"
    by (simp add: findAncestorOverride_def ancestor_loop_None)
  moreover have "(\<exists>e. (p, e) \<in> set (dq_overrides d) \<and> isAncestorOrSelf p t \<and> de_addr e = a \<and> de_seq e = n)
      \<and> (\<forall>q f. (q, f) \<in> set (dq_overrides d) \<and> isAncestorOrSelf q t \<longrightarrow> de_seq f \<le> n)"
    if found: "findAncestorOverride d t = Some (p, a, n)" for p a n
  proof -
    obtain e where "ancestor_loop t None (dq_overrides d) = Some (p, e)" "a = de_addr e" "n = de_seq e"
      using found by (auto simp: findAncestorOverride_def)
    then show ?thesis using ancestor_loop_in ancestor_loop_max by fastforce
  qed
  ultimately show ?thesis
    using descendant_loop_spec [of "- 1" t "dq_overrides d"] unfolding findDescendantSeq_def by blast
qed

theorem desync_queries_witness:
  "findAncestorOverride (enqueue ''a'' (Some ''c'') 0 [] new_desync) ''a/b'' = Some (''a'', Some ''c'', 1)
    \<and> findDescendantSeq (enqueue ''a'' (Some ''c'') 0 [] new_desync) [] = 1"
proof -
  let ?d = "enqueue ''a'' (Some ''c'') 0 [] new_desync"
  have o: "dq_overrides ?d = [(''a'', \<lparr>de_addr = Some ''c'', de_assert = 0, de_prev = [], de_seq = 1\<rparr>)]"
    by (simp add: desync_run)
  have "findAncestorOverride ?d ''a/b'' = Some (''a'', Some ''c'', 1)"
    by (simp add: findAncestorOverride_def o isAncestorOrSelf_def)
  moreover have "1 \<le> findDescendantSeq ?d []" and "findDescendantSeq ?d [] \<noteq> - 1"
    using desync_queries [of ?d "[]"] o by auto
  ultimately show ?thesis using desync_queries [of ?d "[]"] o by auto
qed

end
