(* ===== verification/Platform.thy ===== *)
theory Platform
  imports Json
begin

text \<open>
  What the client code takes from the browser: \<open>fetch\<close>, the clock and SHA-256. The answers
  come from outside the program, so a \<open>platform\<close> record holds them as functions over an
  unspecified world \<open>'w\<close>, and every definition that uses one takes the platform as its argument.
  Also here: HTTP requests and responses, and the parts of \<open>Response\<close>, \<open>Headers\<close> and
  \<open>Date\<close> the sources call.
\<close>

section \<open>Requests and responses\<close>

record request =
  rq_method :: string
  rq_url :: string
  rq_headers :: "(string \<times> string) list"
  rq_body :: "u8 list option"

text \<open>Reading a body may fail (the connection drops), so it is an outcome.\<close>

record response =
  rs_status :: nat
  rs_headers :: "(string \<times> string) list"
  rs_body :: "err + u8 list"

text \<open>\<open>resp.ok\<close>\<close>

definition resp_ok :: "response \<Rightarrow> bool" where
  "resp_ok r \<longleftrightarrow> 200 \<le> rs_status r \<and> rs_status r \<le> 299"

definition to_lower_char :: "char \<Rightarrow> char" where
  "to_lower_char c =
     (let n = (of_char c :: nat) in if 65 \<le> n \<and> n \<le> 90 then char_of (n + 32) else c)"

definition to_lower :: "string \<Rightarrow> string" where
  "to_lower s = map to_lower_char s"

text \<open>\<open>resp.headers.get(name)\<close>: names compare without regard to case; null when absent.\<close>

definition header_get :: "response \<Rightarrow> string \<Rightarrow> string option" where
  "header_get r name =
     map_option snd (find (\<lambda>(k, v). to_lower k = to_lower name) (rs_headers r))"

text \<open>\<open>resp.json()\<close>, \<open>resp.text()\<close>, \<open>resp.arrayBuffer()\<close>\<close>

definition resp_json :: "response \<Rightarrow> err + jsv" where
  "resp_json r =
     (case rs_body r of
        Inl e \<Rightarrow> Inl e
      | Inr bs \<Rightarrow> (case json_of_bytes bs of
                    None \<Rightarrow> Inl (Err_Syntax ''Unexpected token in JSON'')
                  | Some v \<Rightarrow> Inr v))"

definition resp_text :: "response \<Rightarrow> err + string" where
  "resp_text r = (case rs_body r of Inl e \<Rightarrow> Inl e | Inr bs \<Rightarrow> Inr (text_decode bs))"

definition resp_bytes :: "response \<Rightarrow> err + u8 list" where
  "resp_bytes r = rs_body r"

text \<open>\<open>new Response(data, { status })\<close>\<close>

definition mk_response :: "u8 list \<Rightarrow> nat \<Rightarrow> response" where
  "mk_response bs st = \<lparr>rs_status = st, rs_headers = [], rs_body = Inr bs\<rparr>"

text \<open>\<open>fetch(url)\<close> without options\<close>

definition get_request :: "string \<Rightarrow> request" where
  "get_request url = \<lparr>rq_method = ''GET'', rq_url = url, rq_headers = [], rq_body = None\<rparr>"

section \<open>Numbers as text\<close>

text \<open>
  \<open>x.toFixed(2)\<close>: the nearest multiple of a hundredth, the larger of two equally near, for the
  exact value of \<open>x\<close>; times and ratios are rationals here, where the code has doubles.
\<close>

definition hundredths :: "rat \<Rightarrow> int" where
  "hundredths x = \<lfloor>100 * x + 1 / 2\<rfloor>"

definition two_digits :: "nat \<Rightarrow> string" where
  "two_digits n = (if n < 10 then CHR ''0'' # nat_str n else nat_str n)"

definition fixed2 :: "nat \<Rightarrow> string" where
  "fixed2 n = nat_str (n div 100) @ ''.'' @ two_digits (n mod 100)"

definition toFixed2 :: "rat \<Rightarrow> string" where
  "toFixed2 x = (if x < 0 then ''-'' @ fixed2 (nat (hundredths (- x))) else fixed2 (nat (hundredths x)))"

section \<open>The platform\<close>

record 'w platform =
  p_fetch :: "request \<Rightarrow> 'w \<Rightarrow> (err + response) \<times> 'w"
  p_now :: "'w \<Rightarrow> int"            \<comment> \<open>\<open>Date.now()\<close>\<close>
  p_perf :: "'w \<Rightarrow> rat"           \<comment> \<open>\<open>performance.now()\<close>\<close>
  p_digest :: "u8 list \<Rightarrow> u8 list" \<comment> \<open>\<open>crypto.subtle.digest('SHA-256', data)\<close>\<close>

section \<open>Date\<close>

text \<open>Days since 1970-01-01 to year, month and day of the proleptic Gregorian calendar.\<close>

definition civil_of_days :: "int \<Rightarrow> int \<times> int \<times> int" where
  "civil_of_days z0 =
     (let z = z0 + 719468;
          era = z div 146097;
          doe = z mod 146097;
          yoe = (doe - doe div 1460 + doe div 36524 - doe div 146096) div 365;
          doy = doe - (365 * yoe + yoe div 4 - yoe div 100);
          mp = (5 * doy + 2) div 153;
          d = doy - (153 * mp + 2) div 5 + 1;
          m = (if mp < 10 then mp + 3 else mp - 9)
      in (yoe + era * 400 + (if m \<le> 2 then 1 else 0), m, d))"

definition pad_left :: "nat \<Rightarrow> string \<Rightarrow> string" where
  "pad_left n s = replicate (n - length s) (CHR ''0'') @ s"

text \<open>
  \<open>new Date(ms).toISOString()\<close> with the milliseconds cut off, as \<open>_isoNow\<close> does, for the
  years 0 to 9999.
\<close>

definition iso_seconds :: "int \<Rightarrow> string" where
  "iso_seconds ms =
     (let s = ms div 1000; day = s div 86400; t = s mod 86400; (y, m, d) = civil_of_days day in
      pad_left 4 (int_str y) @ ''-'' @ pad_left 2 (int_str m) @ ''-'' @ pad_left 2 (int_str d)
      @ ''T'' @ pad_left 2 (int_str (t div 3600)) @ '':'' @ pad_left 2 (int_str (t div 60 mod 60))
      @ '':'' @ pad_left 2 (int_str (t mod 60)) @ ''Z'')"

lemma iso_seconds_example: "iso_seconds 1700000000123 = ''2023-11-14T22:13:20Z''"
  by code_simp

end
