(* ===== verification/Tracker.thy ===== *)
theory Tracker
  imports Platform
begin

text \<open>
  \<open>PerformanceTracker\<close> (grits/PerformanceTracker.js): named buckets of counts and timings, the
  list of slow content lookups, and the periodic report. \<open>new URL(u).hostname\<close> and the
  mirror statistics callback come from outside the class and are arguments of \<open>tk_log\<close>.
\<close>

section \<open>State and recording\<close>

record bucket =
  bk_count :: int
  bk_timings :: "rat list"

record tracker =
  tk_enabled :: bool
  tk_buckets :: "(string \<times> bucket) list"
  tk_urls :: "(string \<times> string) list"

definition tk_reset :: "tracker \<Rightarrow> tracker" where
  "tk_reset t = t\<lparr>tk_buckets := [], tk_urls := []\<rparr>"

definition new_tracker :: "bool \<Rightarrow> tracker" where
  "new_tracker enabled = \<lparr>tk_enabled = enabled, tk_buckets = [], tk_urls = []\<rparr>"

definition tk_ensure :: "string \<Rightarrow> tracker \<Rightarrow> tracker" where
  "tk_ensure name t =
     (if map_has (tk_buckets t) name then t
      else t\<lparr>tk_buckets := map_set name \<lparr>bk_count = 0, bk_timings = []\<rparr> (tk_buckets t)\<rparr>)"

definition upd_bucket :: "string \<Rightarrow> (bucket \<Rightarrow> bucket) \<Rightarrow> tracker \<Rightarrow> tracker" where
  "upd_bucket name f t =
     (case map_get (tk_buckets t) name of
        None \<Rightarrow> t
      | Some b \<Rightarrow> t\<lparr>tk_buckets := map_set name (f b) (tk_buckets t)\<rparr>)"

definition tk_record :: "string \<Rightarrow> rat \<Rightarrow> tracker \<Rightarrow> tracker" where
  "tk_record name elapsedMs t =
     (if \<not> tk_enabled t then t
      else upd_bucket name
             (\<lambda>b. b\<lparr>bk_timings := bk_timings b @ [elapsedMs], bk_count := bk_count b + 1\<rparr>)
             (tk_ensure name t))"

definition tk_count :: "string \<Rightarrow> int \<Rightarrow> tracker \<Rightarrow> tracker" where
  "tk_count name n t =
     (if \<not> tk_enabled t then t
      else upd_bucket name (\<lambda>b. b\<lparr>bk_count := bk_count b + n\<rparr>) (tk_ensure name t))"

definition tk_trackContentUrl :: "string \<Rightarrow> rat \<Rightarrow> tracker \<Rightarrow> tracker" where
  "tk_trackContentUrl url elapsedMs t =
     (if \<not> tk_enabled t then t else t\<lparr>tk_urls := tk_urls t @ [(url, toFixed2 elapsedMs)]\<rparr>)"

section \<open>Querying and reporting\<close>

definition mean :: "rat list \<Rightarrow> rat" where
  "mean xs = sum_list xs / of_nat (length xs)"

definition avg :: "rat list \<Rightarrow> string" where
  "avg arr = (if arr = [] then ''N/A'' else toFixed2 (mean arr))"

definition tk_snapshot :: "tracker \<Rightarrow> (string \<times> int \<times> string) list \<times> (string \<times> string) list" where
  "tk_snapshot t = (map (\<lambda>(name, b). (name, bk_count b, avg (bk_timings b))) (tk_buckets t), tk_urls t)"

text \<open>A row of \<open>MirrorManager.getMirrorStats\<close>.\<close>

record mirror_stat =
  st_url :: string
  st_latency :: string
  st_bandwidth :: string
  st_reliability :: string
  st_bytesFetched :: string
  st_rawBytes :: int

definition bucket_part :: "string \<times> bucket \<Rightarrow> string" where
  "bucket_part = (\<lambda>(name, b). name @ '': '' @ int_str (bk_count b)
     @ (if bk_timings b = [] then [] else '' (avg '' @ avg (bk_timings b) @ ''ms)''))"

text \<open>
  The loop over the mirror statistics; it is left at the first URL that does not parse,
  with the lines printed so far.
\<close>

fun mirror_lines :: "(string \<Rightarrow> string option) \<Rightarrow> nat \<Rightarrow> bool \<Rightarrow> mirror_stat list \<Rightarrow> string list" where
  "mirror_lines host_of n logged [] = []"
| "mirror_lines host_of n logged (st # sts) =
     (if st_rawBytes st = 0 then mirror_lines host_of n logged sts
      else (if logged then [] else [''[MIRROR STATS] ('' @ nat_str n @ '' mirrors)''])
        @ (case host_of (st_url st) of
             None \<Rightarrow> []
           | Some host \<Rightarrow>
               (''  '' @ host @ '': Latency '' @ st_latency st @ '' | Bandwidth '' @ st_bandwidth st
                 @ '' | Reliability '' @ st_reliability st @ '' | Data '' @ st_bytesFetched st)
               # mirror_lines host_of n True sts))"

text \<open>\<open>log()\<close>: the lines printed and the tracker after the reset.\<close>

definition tk_log ::
  "(string \<Rightarrow> string option) \<Rightarrow> (err + mirror_stat list) option \<Rightarrow> tracker \<Rightarrow> string list \<times> tracker" where
  "tk_log host_of mirrorStats t =
     (if \<not> tk_enabled t then ([], t)
      else
        ((if \<exists>b \<in> set (map snd (tk_buckets t)). bk_count b > 0
          then [''[GRITS STATS] ''
                @ js_join '' | '' (map bucket_part (filter (\<lambda>(_, b). bk_count b \<noteq> 0) (tk_buckets t)))]
          else [])
         @ (if tk_urls t \<noteq> []
            then ''[CONTENT URLS] Direct fetches:''
                 # map (\<lambda>(u, latency). ''  '' @ u @ '': '' @ latency @ ''ms'') (tk_urls t)
            else [])
         @ (case mirrorStats of
              Some (Inr sts) \<Rightarrow> mirror_lines host_of (length sts) False sts
            | _ \<Rightarrow> []),
         tk_reset t))"

section \<open>Properties\<close>

text \<open>What happened to the tracker since it was created or reset.\<close>

datatype tk_event = TE_record string rat | TE_count string int | TE_url string rat

fun tk_apply :: "tk_event \<Rightarrow> tracker \<Rightarrow> tracker" where
  "tk_apply (TE_record b ms) = tk_record b ms"
| "tk_apply (TE_count b n) = tk_count b n"
| "tk_apply (TE_url u ms) = tk_trackContentUrl u ms"

definition ev_count :: "string \<Rightarrow> tk_event \<Rightarrow> int" where
  "ev_count name e =
     (case e of TE_record b _ \<Rightarrow> if b = name then 1 else 0
      | TE_count b n \<Rightarrow> if b = name then n else 0 | TE_url _ _ \<Rightarrow> 0)"

definition ev_times :: "string \<Rightarrow> tk_event \<Rightarrow> rat list" where
  "ev_times name e = (case e of TE_record b ms \<Rightarrow> if b = name then [ms] else [] | _ \<Rightarrow> [])"

definition bucket_view :: "tracker \<Rightarrow> string \<Rightarrow> int \<times> rat list" where
  "bucket_view t name =
     (case map_get (tk_buckets t) name of None \<Rightarrow> (0, []) | Some b \<Rightarrow> (bk_count b, bk_timings b))"

lemma view_record: "tk_enabled t \<Longrightarrow> bucket_view (tk_record b ms t) name =
    (fst (bucket_view t name) + (if b = name then 1 else 0),
     snd (bucket_view t name) @ (if b = name then [ms] else []))"
  by (auto simp: bucket_view_def tk_record_def upd_bucket_def tk_ensure_def map_has_def split: option.splits)

lemma view_count: "tk_enabled t \<Longrightarrow> bucket_view (tk_count b n t) name =
    (fst (bucket_view t name) + (if b = name then n else 0), snd (bucket_view t name))"
  by (auto simp: bucket_view_def tk_count_def upd_bucket_def tk_ensure_def map_has_def split: option.splits)

lemma view_url: "bucket_view (tk_trackContentUrl u ms t) name = bucket_view t name"
  by (simp add: bucket_view_def tk_trackContentUrl_def)

lemma enabled_apply [simp]: "tk_enabled (tk_apply e t) = tk_enabled t"
  by (cases e) (auto simp: tk_record_def tk_count_def tk_trackContentUrl_def upd_bucket_def tk_ensure_def
      split: option.splits)

lemma view_apply: "tk_enabled t \<Longrightarrow> bucket_view (tk_apply e t) name =
    (fst (bucket_view t name) + ev_count name e, snd (bucket_view t name) @ ev_times name e)"
  by (cases e) (simp_all add: view_record view_count view_url ev_count_def ev_times_def)

lemma view_fold: "tk_enabled t \<Longrightarrow> bucket_view (fold tk_apply es t) name =
    (fst (bucket_view t name) + sum_list (map (ev_count name) es),
     snd (bucket_view t name) @ concat (map (ev_times name) es))"
  by (induction es arbitrary: t) (simp_all add: view_apply)

text \<open>
  A tracker's bucket holds, for any sequence of recordings, the number of samples plus the
  counts of that name and exactly its timings in order; a disabled tracker never changes; and a
  report empties an enabled tracker.
\<close>

theorem tracker_counts:
  "bucket_view (fold tk_apply es (new_tracker True)) name =
     (sum_list (map (ev_count name) es), concat (map (ev_times name) es))
   \<and> fold tk_apply es (new_tracker False) = new_tracker False
   \<and> snd (tk_log host_of stats (fold tk_apply es (new_tracker True))) = new_tracker True"
proof (intro conjI)
  have en: "tk_enabled (fold tk_apply es t) = tk_enabled t" for t
    by (induction es arbitrary: t) simp_all
  show "bucket_view (fold tk_apply es (new_tracker True)) name =
      (sum_list (map (ev_count name) es), concat (map (ev_times name) es))"
    by (subst view_fold) (simp_all add: new_tracker_def bucket_view_def)
  have "tk_apply e (new_tracker False) = new_tracker False" for e
    by (cases e) (simp_all add: tk_record_def tk_count_def tk_trackContentUrl_def new_tracker_def)
  then show "fold tk_apply es (new_tracker False) = new_tracker False"
    by (induction es) simp_all
  have "tk_enabled (fold tk_apply es (new_tracker True))" by (simp add: en new_tracker_def)
  then show "snd (tk_log host_of stats (fold tk_apply es (new_tracker True))) = new_tracker True"
    by (simp add: tk_log_def tk_reset_def new_tracker_def)
qed

end
