(* ===== verification/Mirror.thy ===== *)
theory Mirror
  imports Tracker
begin

text \<open>
  \<open>MirrorManager\<close> (grits/MirrorManager.js): the list of mirrors of a volume, their performance
  figures, the choice of a mirror for a blob, and the fetch with its fallback to the server. The
  state of a method is the manager and the world of the platform. Bandwidth measurement goes on
  in the background after a fetch has returned: \<open>fetchBlob\<close> leaves it in \<open>mm_measuring\<close> and
  \<open>measureBandwidth\<close> is the rest of the work, with the chunks read as arguments.
\<close>

section \<open>Numbers\<close>

text \<open>A quotient of doubles may be infinite: \<open>bytes / 0\<close>.\<close>

datatype jsnum = Fin rat | Infinity

fun num_plus :: "jsnum \<Rightarrow> jsnum \<Rightarrow> jsnum" where
  "num_plus (Fin a) (Fin b) = Fin (a + b)"
| "num_plus _ _ = Infinity"

fun num_div :: "jsnum \<Rightarrow> rat \<Rightarrow> jsnum" where
  "num_div (Fin a) d = Fin (a / d)"
| "num_div Infinity d = Infinity"

fun num_fixed2 :: "jsnum \<Rightarrow> string" where
  "num_fixed2 (Fin a) = toFixed2 a"
| "num_fixed2 Infinity = ''Infinity''"

text \<open>\<open>values.reduce((sum, val) => sum + val, 0) / values.length\<close>\<close>

definition num_mean :: "jsnum list \<Rightarrow> jsnum" where
  "num_mean xs = num_div (foldl num_plus (Fin 0) xs) (of_nat (length xs))"

text \<open>Numbers with their addition and their order, in which infinity is the greatest.\<close>

instantiation jsnum :: comm_monoid_add
begin

definition zero_jsnum :: jsnum where "0 = Fin 0"

definition plus_jsnum :: "jsnum \<Rightarrow> jsnum \<Rightarrow> jsnum" where "a + b = num_plus a b"

instance
proof
  fix a b c :: jsnum
  show "a + b + c = a + (b + c)" by (cases a; cases b; cases c) (simp_all add: plus_jsnum_def)
  show "a + b = b + a" by (cases a; cases b) (simp_all add: plus_jsnum_def)
  show "0 + a = a" by (cases a) (simp_all add: plus_jsnum_def zero_jsnum_def)
qed

end

instantiation jsnum :: linorder
begin

definition less_eq_jsnum :: "jsnum \<Rightarrow> jsnum \<Rightarrow> bool" where
  "a \<le> b \<longleftrightarrow> (case b of Infinity \<Rightarrow> True | Fin y \<Rightarrow> (case a of Infinity \<Rightarrow> False | Fin x \<Rightarrow> x \<le> y))"

definition less_jsnum :: "jsnum \<Rightarrow> jsnum \<Rightarrow> bool" where
  "less_jsnum a b \<longleftrightarrow> a \<le> b \<and> \<not> b \<le> a"

instance
  by standard (auto simp: less_eq_jsnum_def less_jsnum_def split: jsnum.splits)

end

lemma jsnum_le [simp]: "a \<le> Infinity" "Fin x \<le> Fin y \<longleftrightarrow> x \<le> y" "\<not> Infinity \<le> Fin y"
  by (simp_all add: less_eq_jsnum_def)

lemma num_mean_sum: "num_mean xs = num_div (sum_list xs) (of_nat (length xs))"
proof -
  have "foldl num_plus a xs = a + sum_list xs" for a
    by (induction xs arbitrary: a) (simp_all add: plus_jsnum_def [symmetric] add.assoc)
  then show ?thesis by (simp add: num_mean_def zero_jsnum_def [symmetric])
qed

lemma sum_list_Infinity: "Infinity \<in> set xs \<Longrightarrow> sum_list xs = Infinity"
  by (induction xs) (auto simp: plus_jsnum_def elim: num_plus.elims)

lemma sum_list_Fin: "sum_list (map Fin ys) = Fin (sum_list ys)"
  by (induction ys) (simp_all add: plus_jsnum_def zero_jsnum_def)

lemma mean_bounds:
  fixes ys :: "rat list"
  assumes "ys \<noteq> []" and "\<And>y. y \<in> set ys \<Longrightarrow> a \<le> y" and "\<And>y. y \<in> set ys \<Longrightarrow> y \<le> b"
  shows "a \<le> sum_list ys / of_nat (length ys) \<and> sum_list ys / of_nat (length ys) \<le> b"
proof -
  have "of_nat (length ys) * a \<le> sum_list ys \<and> sum_list ys \<le> of_nat (length ys) * b"
    using assms(2,3) by (induction ys) (force simp: algebra_simps)+
  moreover have "(0 :: rat) < of_nat (length ys)" using assms(1) by simp
  ultimately show ?thesis by (simp add: field_simps)
qed

text \<open>An average lies between the least and the greatest of what is averaged.\<close>

lemma num_mean_between:
  assumes "xs \<noteq> []"
  shows "Min (set xs) \<le> num_mean xs \<and> num_mean xs \<le> Max (set xs)"
proof (cases "Infinity \<in> set xs")
  case True
  then have "Max (set xs) = Infinity" by (intro Max_eqI) auto
  then show ?thesis using True by (simp add: num_mean_sum sum_list_Infinity)
next
  case False
  define ys where "ys = map (\<lambda>x. case x of Fin y \<Rightarrow> y | Infinity \<Rightarrow> 0) xs"
  have xs: "xs = map Fin ys"
    using False unfolding ys_def by (induction xs) (auto split: jsnum.split)
  have ne: "ys \<noteq> []" using assms xs by simp
  have "mono Fin" by (simp add: mono_def)
  then have mm: "Min (set xs) = Fin (Min (set ys))" "Max (set xs) = Fin (Max (set ys))"
    using mono_Min_commute [of Fin "set ys"] mono_Max_commute [of Fin "set ys"] ne xs by simp_all
  show ?thesis using mean_bounds [OF ne, of "Min (set ys)" "Max (set ys)"]
    unfolding num_mean_sum mm by (simp add: xs sum_list_Fin)
qed

text \<open>\<open>parseInt(s, 10)\<close>; \<open>None\<close> is NaN.\<close>

definition parse_int :: "string \<Rightarrow> int option" where
  "parse_int s =
     (let t = dropWhile is_ws s;
          neg = starts_with ''-'' t;
          u = (if neg \<or> starts_with ''+'' t then tl t else t);
          d = takeWhile is_digit u
      in if d = [] then None
         else Some (if neg then - int (digits_val 0 d) else int (digits_val 0 d)))"

section \<open>State\<close>

record mstats =
  ms_ttfb_values :: "rat list"
  ms_ttfb_average :: rat
  ms_bandwidth_values :: "jsnum list"
  ms_bandwidth_average :: jsnum
  ms_lastCommunicated :: int
  ms_errorCount :: nat
  ms_successCount :: nat
  ms_totalRequests :: nat
  ms_inFlightRequests :: int

definition new_mstats :: mstats where
  "new_mstats = \<lparr>ms_ttfb_values = [], ms_ttfb_average = 0, ms_bandwidth_values = [],
     ms_bandwidth_average = Fin 0, ms_lastCommunicated = 0, ms_errorCount = 0, ms_successCount = 0,
     ms_totalRequests = 0, ms_inFlightRequests = 0\<rparr>"

record mirror =
  mi_url :: string
  mi_volumes :: "jsv list"

text \<open>The tracking object of a request; \<open>to_bytesReceived\<close> is \<open>None\<close> for NaN.\<close>

record tracking =
  to_url :: "string option"
  to_startTime :: rat
  to_bytesReceived :: "int option"
  to_ttfb :: rat
  to_success :: bool
  to_requestComplete :: bool
  to_bandwidthMeasured :: bool

record mman =
  mm_serverUrl :: string
  mm_volume :: string
  mm_mirrors :: "mirror list"
  mm_perf :: "(string \<times> mstats) list"
  mm_completed :: "tracking list"
  mm_activeRequests :: int
  mm_maxConcurrent :: nat
  mm_totalBytes :: "(string \<times> int) list"
  mm_measuring :: "tracking list"

definition new_mman :: "string \<Rightarrow> string \<Rightarrow> mman" where
  "new_mman serverUrl volume = \<lparr>mm_serverUrl = drop_last_slash serverUrl, mm_volume = volume,
     mm_mirrors = [], mm_perf = [], mm_completed = [], mm_activeRequests = 0, mm_maxConcurrent = 6,
     mm_totalBytes = [], mm_measuring = []\<rparr>"

definition ACTIVE_REQUEST_THRESHOLD :: int where "ACTIVE_REQUEST_THRESHOLD = 4"
definition RECENT_COMMUNICATION_THRESHOLD :: int where "RECENT_COMMUNICATION_THRESHOLD = 60 * 1000"
definition OLD_COMMUNICATION_THRESHOLD :: int where "OLD_COMMUNICATION_THRESHOLD = 10 * 60 * 1000"

definition upd_stats :: "string \<Rightarrow> (mstats \<Rightarrow> mstats) \<Rightarrow> mman \<Rightarrow> mman" where
  "upd_stats url f m =
     (case map_get (mm_perf m) url of
        None \<Rightarrow> m
      | Some st \<Rightarrow> m\<lparr>mm_perf := map_set url (f st) (mm_perf m)\<rparr>)"

section \<open>The mirror list\<close>

text \<open>
  One element of the parsed list: \<open>mirror.url?.replace(/\/$/, '') || null\<close> throws on a null
  element and on a URL that is neither a string nor missing; a missing or empty URL gives
  \<open>Inr None\<close> and is filtered out.
\<close>

definition parse_mirror :: "string \<Rightarrow> jsv \<Rightarrow> err + mirror option" where
  "parse_mirror volume v =
     (case js_prop_strict v ''url'' of
        Inl e \<Rightarrow> Inl e
      | Inr (JStr u) \<Rightarrow>
          (let url = drop_last_slash u;
               vols = (case js_prop v ''volumes'' of JArr vs \<Rightarrow> vs | _ \<Rightarrow> [JStr volume])
           in Inr (if url = [] then None else Some \<lparr>mi_url = url, mi_volumes = vols\<rparr>))
      | Inr JUndef \<Rightarrow> Inr None
      | Inr JNull \<Rightarrow> Inr None
      | Inr _ \<Rightarrow> Inl (Err_Type ''mirror.url.replace is not a function''))"

fun parse_mirrors :: "string \<Rightarrow> jsv list \<Rightarrow> err + mirror list" where
  "parse_mirrors volume [] = Inr []"
| "parse_mirrors volume (v # vs) =
     (case parse_mirror volume v of
        Inl e \<Rightarrow> Inl e
      | Inr mo \<Rightarrow>
          (case parse_mirrors volume vs of
             Inl e \<Rightarrow> Inl e
           | Inr ms \<Rightarrow> Inr (case mo of None \<Rightarrow> ms | Some mi \<Rightarrow> mi # ms)))"

definition init_mirror :: "mirror \<Rightarrow> mman \<Rightarrow> mman" where
  "init_mirror mi m =
     m\<lparr>mm_perf := (if map_has (mm_perf m) (mi_url mi) then mm_perf m
                   else map_set (mi_url mi) new_mstats (mm_perf m)),
       mm_totalBytes := (if map_has (mm_totalBytes m) (mi_url mi) then mm_totalBytes m
                         else map_set (mi_url mi) 0 (mm_totalBytes m))\<rparr>"

text \<open>
  \<open>refreshMirrorList\<close>. Every exception is caught: the result is then the empty list and the mirrors
  stay as they were; \<open>None\<close> is a return without a value.
\<close>

definition refreshMirrorList :: "'w platform \<Rightarrow> (mman \<times> 'w, mirror list option) prog" where
  "refreshMirrorList P = (\<lambda>(m, w).
     if mm_serverUrl m = [] then (Inr None, (m, w))
     else
       (case p_fetch P \<lparr>rq_method = ''GET'', rq_url = mm_serverUrl m @ ''/grits/v1/origin/list-mirrors'',
                        rq_headers = [(''Accept'', ''application/json'')], rq_body = None\<rparr> w of
          (Inl e, w') \<Rightarrow> (Inr (Some []), (m, w'))
        | (Inr response, w') \<Rightarrow>
            if rs_status response = 404 then (Inr None, (m\<lparr>mm_mirrors := []\<rparr>, w'))
            else if \<not> resp_ok response then (Inr None, (m, w'))
            else
              (case resp_json response of
                 Inr (JArr mirrorList) \<Rightarrow>
                   (case parse_mirrors (mm_volume m) mirrorList of
                      Inl e \<Rightarrow> (Inr (Some []), (m, w'))
                    | Inr ms \<Rightarrow> (Inr (Some ms), (fold init_mirror ms (m\<lparr>mm_mirrors := ms\<rparr>), w')))
               | _ \<Rightarrow> (Inr (Some []), (m, w')))))"

text \<open>\<open>initialize\<close>: true whenever there is a server URL, since the refresh never throws.\<close>

definition initialize :: "'w platform \<Rightarrow> (mman \<times> 'w, bool) prog" where
  "initialize P = (\<lambda>(m, w).
     if mm_serverUrl m = [] then (Inr False, (m, w))
     else try_catch (pbind (refreshMirrorList P) (\<lambda>_. ret True)) (\<lambda>_. ret False) (m, w))"

section \<open>Choosing a mirror\<close>

definition compatible :: "mman \<Rightarrow> mirror list" where
  "compatible m = filter (\<lambda>mi. JStr (mm_volume m) \<in> set (mi_volumes mi)) (mm_mirrors m)"

definition with_stats :: "mman \<Rightarrow> (int \<Rightarrow> bool) \<Rightarrow> int \<Rightarrow> (mirror \<times> mstats) list" where
  "with_stats m inRange now =
     List.map_filter (\<lambda>mi. case map_get (mm_perf m) (mi_url mi) of
        None \<Rightarrow> None
      | Some st \<Rightarrow> if inRange (now - ms_lastCommunicated st) then Some (mi, st) else None) (compatible m)"

definition mirror_score :: "mman \<Rightarrow> mstats \<Rightarrow> rat" where
  "mirror_score m st =
     (let ttfbScore = (if ms_ttfb_average st \<noteq> 0 then 1000 / max (ms_ttfb_average st) 100 else 1 / 2);
          bandwidthScore = (case ms_bandwidth_average st of
              Infinity \<Rightarrow> 1
            | Fin b \<Rightarrow> if b \<noteq> 0 then min (b / 1000000) 1 else 1 / 2);
          loadScore = 1 - of_int (ms_inFlightRequests st) / of_nat (mm_maxConcurrent m)
      in ttfbScore * (4 / 10) + bandwidthScore * (4 / 10) + loadScore * (2 / 10))"

text \<open>\<open>this.mirrorPerformance.get(mirror.url)?.inFlightRequests || 0\<close>\<close>

definition mirror_load :: "mman \<Rightarrow> mirror \<Rightarrow> int" where
  "mirror_load m mi =
     (case map_get (mm_perf m) (mi_url mi) of None \<Rightarrow> 0 | Some st \<Rightarrow> ms_inFlightRequests st)"

text \<open>\<open>selectBestMirror\<close> at the time \<open>now\<close>; \<open>sort\<close> is stable.\<close>

definition selectBestMirror :: "int \<Rightarrow> mman \<Rightarrow> string option" where
  "selectBestMirror now m =
     (if compatible m = [] then None
      else
        let highLoadMode = mm_activeRequests m \<ge> ACTIVE_REQUEST_THRESHOLD;
            recentMirrors = with_stats m (\<lambda>t. t < RECENT_COMMUNICATION_THRESHOLD) now;
            oldMirrors = with_stats m (\<lambda>t. t > OLD_COMMUNICATION_THRESHOLD) now
        in if highLoadMode \<and> oldMirrors \<noteq> []
           then Some (mi_url (fst (hd (sort_key (\<lambda>(_, st). ms_errorCount st) oldMirrors))))
           else if recentMirrors \<noteq> []
           then Some (mi_url (fst (hd (sort_key (\<lambda>(_, st). - mirror_score m st) recentMirrors))))
           else Some (mi_url (hd (sort_key (mirror_load m) (compatible m)))))"

section \<open>Fetching a blob\<close>

definition blob_url :: "string \<Rightarrow> string \<Rightarrow> string option \<Rightarrow> string" where
  "blob_url base hash extension =
     base @ ''/grits/v1/blob/'' @ hash
     @ (case extension of None \<Rightarrow> [] | Some x \<Rightarrow> if x = [] then [] else ''.'' @ x)"

definition on_mman :: "(mman \<Rightarrow> mman) \<Rightarrow> (mman \<times> 'w, unit) prog" where
  "on_mman f = modify (\<lambda>(m, w). (f m, w))"

definition fetch_server :: "'w platform \<Rightarrow> string \<Rightarrow> string option \<Rightarrow> (mman \<times> 'w, response) prog" where
  "fetch_server P hash extension = (\<lambda>(m, w).
     case p_fetch P (get_request (blob_url (mm_serverUrl m) hash extension)) w of
       (r, w') \<Rightarrow> (r, (m, w')))"

text \<open>
  The \<open>try\<close> block over a mirror; the exception comes with the tracking object as it is by then.
  A response without a body (204, 205) is not measured: \<open>measureBandwidth\<close> completes it at once.
\<close>

definition try_mirror ::
  "'w platform \<Rightarrow> string \<Rightarrow> string option \<Rightarrow> tracking \<Rightarrow> mman \<times> 'w \<Rightarrow> (tracking + response) \<times> mman \<times> 'w"
where
  "try_mirror P hash extension obj0 = (\<lambda>(m, w).
     case selectBestMirror (p_now P w) m of
       None \<Rightarrow> (Inl obj0, (m, w))
     | Some mirrorUrl \<Rightarrow>
         (let obj1 = obj0\<lparr>to_url := Some mirrorUrl\<rparr> in
          case map_get (mm_perf m) mirrorUrl of
            None \<Rightarrow> (Inl obj1, (m, w))
          | Some _ \<Rightarrow>
              (let m1 = upd_stats mirrorUrl (\<lambda>st. st\<lparr>ms_inFlightRequests := ms_inFlightRequests st + 1,
                          ms_totalRequests := ms_totalRequests st + 1\<rparr>) m in
               case p_fetch P (get_request (blob_url mirrorUrl hash extension)) w of
                 (Inl e, w') \<Rightarrow> (Inl obj1, (m1, w'))
               | (Inr response, w') \<Rightarrow>
                   (let obj2 = obj1\<lparr>to_ttfb := p_perf P w' - to_startTime obj1\<rparr> in
                    if \<not> resp_ok response
                    then (Inl obj2, (upd_stats mirrorUrl
                            (\<lambda>st. st\<lparr>ms_errorCount := ms_errorCount st + 1\<rparr>) m1, w'))
                    else
                      (let obj3 = (case header_get response ''content-length'' of
                                     None \<Rightarrow> obj2
                                   | Some l \<Rightarrow> if l = [] then obj2
                                               else obj2\<lparr>to_bytesReceived := parse_int l\<rparr>);
                           m2 = (if rs_status response \<in> {204, 205}
                                 then m1\<lparr>mm_completed := mm_completed m1 @ [obj3\<lparr>to_requestComplete := True\<rparr>]\<rparr>
                                 else m1\<lparr>mm_measuring := mm_measuring m1 @ [obj3]\<rparr>)
                       in (Inr response,
                           (upd_stats mirrorUrl (\<lambda>st. st\<lparr>ms_successCount := ms_successCount st + 1,
                              ms_inFlightRequests := ms_inFlightRequests st - 1\<rparr>) m2, w')))))))"

definition fetchBlob :: "'w platform \<Rightarrow> string \<Rightarrow> string option \<Rightarrow> (mman \<times> 'w, response) prog" where
  "fetchBlob P hash extension = (\<lambda>(m, w).
     if mm_mirrors m = [] then
       (case fetch_server P hash extension (m, w) of
          (r, (m', w')) \<Rightarrow> (r, (m'\<lparr>mm_activeRequests := mm_activeRequests m' - 1\<rparr>, w')))
     else
       (let obj0 = \<lparr>to_url = None, to_startTime = p_perf P w, to_bytesReceived = Some 0, to_ttfb = 0,
                    to_success = False, to_requestComplete = False, to_bandwidthMeasured = False\<rparr>
        in case try_mirror P hash extension obj0 (m\<lparr>mm_activeRequests := mm_activeRequests m + 1\<rparr>, w) of
             (Inr response, (m', w')) \<Rightarrow>
               (Inr response, (m'\<lparr>mm_activeRequests := mm_activeRequests m' - 1\<rparr>, w'))
           | (Inl obj, (m', w')) \<Rightarrow>
               (let m1 = m'\<lparr>mm_completed := mm_completed m'
                           @ [obj\<lparr>to_success := False, to_requestComplete := True\<rparr>]\<rparr>
                in case fetch_server P hash extension (m1, w') of
                     (r, (m2, w2)) \<Rightarrow> (r, (m2\<lparr>mm_activeRequests := mm_activeRequests m2 - 1\<rparr>, w2)))))"

section \<open>Measurements\<close>

definition recordBandwidth :: "string \<Rightarrow> jsnum \<Rightarrow> mman \<Rightarrow> mman" where
  "recordBandwidth mirrorUrl bps m =
     upd_stats mirrorUrl (\<lambda>st.
       let vs = ms_bandwidth_values st @ [bps];
           vs1 = (if length vs > 10 then tl vs else vs)
       in st\<lparr>ms_bandwidth_values := vs1, ms_bandwidth_average := num_mean vs1\<rparr>) m"

text \<open>
  The reading loop: \<open>chunks\<close> are the pieces in order, each with the time since the start
  of the measurement when it has arrived; the end of the list is \<open>done\<close> or a read error. The
  result is the number of bytes received and the bandwidth if it was measured.
\<close>

fun read_loop :: "nat \<Rightarrow> (nat \<times> rat) list \<Rightarrow> nat \<times> jsnum option" where
  "read_loop got [] = (got, None)"
| "read_loop got ((len, duration) # chunks) =
     (let got1 = got + len in
      if duration > 500 \<or> got1 > 50000
      then (got1, Some (if duration = 0 then Infinity else Fin (of_nat got1 / duration * 1000)))
      else read_loop got1 chunks)"

text \<open>The rest of \<open>measureBandwidth\<close> for the first response that is still being measured.\<close>

definition measureBandwidth :: "(nat \<times> rat) list \<Rightarrow> mman \<Rightarrow> mman" where
  "measureBandwidth chunks m =
     (case mm_measuring m of
        [] \<Rightarrow> m
      | obj # rest \<Rightarrow>
          (let (got, bw) = read_loop 0 chunks;
               m1 = (case (to_url obj, bw) of
                       (Some url, Some b) \<Rightarrow> recordBandwidth url b m
                     | _ \<Rightarrow> m);
               obj1 = obj\<lparr>to_bytesReceived := map_option (\<lambda>b. max b (int got)) (to_bytesReceived obj),
                          to_success := True, to_bandwidthMeasured := True, to_requestComplete := True\<rparr>
           in m1\<lparr>mm_measuring := rest, mm_completed := mm_completed m1 @ [obj1]\<rparr>))"

definition resetOldStatistics :: "int \<Rightarrow> mman \<Rightarrow> mman" where
  "resetOldStatistics now m =
     m\<lparr>mm_perf := map (\<lambda>(url, st).
         (url, if now - ms_lastCommunicated st > 30 * 60 * 1000 then new_mstats else st)) (mm_perf m)\<rparr>"

text \<open>One round of the second loop of \<open>processCompletedTrackingObjects\<close>.\<close>

definition process_one :: "tracking \<Rightarrow> mman \<Rightarrow> mman" where
  "process_one obj m =
     (case to_url obj of
        None \<Rightarrow> m
      | Some url \<Rightarrow>
          if url = [] then m
          else
            (let m1 = (case to_bytesReceived obj of
                         None \<Rightarrow> m
                       | Some b \<Rightarrow>
                           if b > 0
                           then m\<lparr>mm_totalBytes := map_set url
                                   (or_else0 (map_get (mm_totalBytes m) url) + b) (mm_totalBytes m)\<rparr>
                           else m)
             in if to_ttfb obj > 0
                then upd_stats url (\<lambda>st.
                       let vs = ms_ttfb_values st @ [to_ttfb obj];
                           vs1 = (if length vs > 10 then tl vs else vs)
                       in st\<lparr>ms_ttfb_values := vs1, ms_ttfb_average := mean vs1\<rparr>) m1
                else m1))"

definition processCompletedTrackingObjects :: "mman \<Rightarrow> mman" where
  "processCompletedTrackingObjects m =
     (if mm_completed m = [] then m else (fold process_one (mm_completed m) m)\<lparr>mm_completed := []\<rparr>)"

definition resetStats :: "mman \<Rightarrow> mman" where
  "resetStats m = m\<lparr>mm_totalBytes := map (\<lambda>(url, _). (url, 0)) (mm_totalBytes m)\<rparr>"

section \<open>Statistics\<close>

fun ilog1024 :: "nat \<Rightarrow> nat" where
  "ilog1024 n = (if n < 1024 then 0 else Suc (ilog1024 (n div 1024)))"

declare ilog1024.simps [simp del]

text \<open>\<open>parseFloat(x.toFixed(2))\<close> as text: no zeros at the end, and no point before nothing.\<close>

definition short2 :: "rat \<Rightarrow> string" where
  "short2 x =
     (let s = rev (dropWhile (\<lambda>c. c = CHR ''0'') (rev (toFixed2 x)))
      in if s \<noteq> [] \<and> last s = CHR ''.'' then butlast s else s)"

text \<open>From \<open>1024 ^ 4\<close> on, \<open>sizes[i]\<close> is undefined.\<close>

definition formatBytes :: "nat \<Rightarrow> string" where
  "formatBytes bytes =
     (if bytes = 0 then ''0 Bytes''
      else let sizes = [''Bytes'', ''KB'', ''MB'', ''GB'']; i = ilog1024 bytes
           in short2 (of_nat bytes / 1024 ^ i) @ '' '' @ (if i < 4 then sizes ! i else ''undefined''))"

definition mirror_stats_row :: "mman \<Rightarrow> mirror \<Rightarrow> mirror_stat option" where
  "mirror_stats_row m mi =
     (case map_get (mm_perf m) (mi_url mi) of
        None \<Rightarrow> None
      | Some st \<Rightarrow>
          (let reliability = (if ms_totalRequests st > 0
                 then toFixed2 (of_nat (ms_successCount st) / of_nat (ms_totalRequests st) * 100)
                 else ''N/A'');
               rawBytes = or_else0 (map_get (mm_totalBytes m) (mi_url mi))
           in Some \<lparr>st_url = mi_url mi,
                    st_latency = toFixed2 (ms_ttfb_average st) @ '' ms'',
                    st_bandwidth = num_fixed2 (num_div (ms_bandwidth_average st) 1024) @ '' KB/s'',
                    st_reliability = reliability @ ''%'',
                    st_bytesFetched = formatBytes (nat rawBytes),
                    st_rawBytes = rawBytes\<rparr>))"

definition getMirrorStats :: "mman \<Rightarrow> mirror_stat list \<times> mman" where
  "getMirrorStats m =
     (let m1 = processCompletedTrackingObjects m
      in (List.map_filter (mirror_stats_row m1) (mm_mirrors m1), m1))"

section \<open>Invariant\<close>

lemma perf_upd [simp]:
  "map_get (mm_perf (upd_stats u f m)) v =
     (if v = u then map_option f (map_get (mm_perf m) u) else map_get (mm_perf m) v)"
  by (auto simp: upd_stats_def split: option.split)

lemma upd_stats_sel [simp]:
  "mm_mirrors (upd_stats u f m) = mm_mirrors m" "mm_activeRequests (upd_stats u f m) = mm_activeRequests m"
  "mm_completed (upd_stats u f m) = mm_completed m" "mm_totalBytes (upd_stats u f m) = mm_totalBytes m"
  "mm_measuring (upd_stats u f m) = mm_measuring m" "mm_serverUrl (upd_stats u f m) = mm_serverUrl m"
  "mm_volume (upd_stats u f m) = mm_volume m" "mm_maxConcurrent (upd_stats u f m) = mm_maxConcurrent m"
  by (simp_all add: upd_stats_def split: option.split)

text \<open>
  The figures of one mirror between two calls: windows of at most ten samples with their averages,
  no time of last contact, and an in-flight counter that counts the requests without success.
\<close>

definition st_ok :: "mstats \<Rightarrow> bool" where
  "st_ok st \<longleftrightarrow>
     length (ms_ttfb_values st) \<le> 10 \<and> ms_ttfb_average st = mean (ms_ttfb_values st)
   \<and> length (ms_bandwidth_values st) \<le> 10 \<and> ms_bandwidth_average st = num_mean (ms_bandwidth_values st)
   \<and> ms_lastCommunicated st = 0
   \<and> ms_successCount st + ms_errorCount st \<le> ms_totalRequests st
   \<and> ms_inFlightRequests st = int (ms_totalRequests st) - int (ms_successCount st)"

definition mm_inv :: "mman \<Rightarrow> bool" where
  "mm_inv m \<longleftrightarrow> (\<forall>u st. map_get (mm_perf m) u = Some st \<longrightarrow> st_ok st)
     \<and> (\<forall>mi \<in> set (mm_mirrors m). map_get (mm_perf m) (mi_url mi) \<noteq> None)"

lemma mm_inv_cong:
  "mm_perf m = mm_perf m' \<Longrightarrow> mm_mirrors m = mm_mirrors m' \<Longrightarrow> mm_inv m = mm_inv m'"
  by (simp add: mm_inv_def)

lemma mm_inv_upd: "(\<And>st. st_ok st \<Longrightarrow> st_ok (f st)) \<Longrightarrow> mm_inv m \<Longrightarrow> mm_inv (upd_stats u f m)"
  by (auto simp: mm_inv_def)

lemma st_ok_new [simp]: "st_ok new_mstats"
  by (simp add: st_ok_def new_mstats_def mean_def num_mean_def)

lemma inv_new_mman: "mm_inv (new_mman s v)"
  by (simp add: mm_inv_def new_mman_def)

lemma init_mirror_perf:
  "map_get (mm_perf (init_mirror mi m)) u =
     (if u = mi_url mi \<and> map_get (mm_perf m) u = None then Some new_mstats else map_get (mm_perf m) u)"
  by (auto simp: init_mirror_def map_has_def)

lemma fold_init_perf:
  "map_get (mm_perf (fold init_mirror ms m)) u =
     (if map_get (mm_perf m) u = None \<and> u \<in> mi_url ` set ms then Some new_mstats
      else map_get (mm_perf m) u)"
  by (induction ms arbitrary: m) (auto simp: init_mirror_perf)

lemma fold_init_sel [simp]: "mm_mirrors (fold init_mirror ms m) = mm_mirrors m"
  by (induction ms arbitrary: m) (simp_all add: init_mirror_def)

lemma inv_refresh: "mm_inv m \<Longrightarrow> mm_inv (fst (snd (refreshMirrorList P (m, w))))"
proof -
  assume inv: "mm_inv m"
  have upd: "mm_inv (fold init_mirror ms (m\<lparr>mm_mirrors := ms\<rparr>))" for ms
    using inv by (auto simp: mm_inv_def fold_init_perf split: if_splits)
  have "mm_inv (m\<lparr>mm_mirrors := []\<rparr>)" using inv by (simp add: mm_inv_def)
  then show ?thesis using inv upd
    by (auto simp: refreshMirrorList_def split: prod.split sum.split jsv.split)
qed

lemma inv_fields:
  "mm_inv (m\<lparr>mm_completed := c\<rparr>) = mm_inv m" "mm_inv (m\<lparr>mm_measuring := x\<rparr>) = mm_inv m"
  "mm_inv (m\<lparr>mm_activeRequests := a\<rparr>) = mm_inv m" "mm_inv (m\<lparr>mm_totalBytes := b\<rparr>) = mm_inv m"
  by (simp_all add: mm_inv_def)

text \<open>The two updates around a fetch from a mirror, by their effect on the figures.\<close>

lemma inv_success:
  assumes "mm_inv m" and "mm_perf m2 = mm_perf (upd_stats u (\<lambda>st. st\<lparr>ms_inFlightRequests :=
      ms_inFlightRequests st + 1, ms_totalRequests := Suc (ms_totalRequests st)\<rparr>) m)"
    and "mm_mirrors m2 = mm_mirrors m"
  shows "mm_inv (upd_stats u (\<lambda>st. st\<lparr>ms_successCount := Suc (ms_successCount st),
      ms_inFlightRequests := ms_inFlightRequests st - 1\<rparr>) m2)"
  using assms(1) by (auto simp: mm_inv_def assms(2,3) st_ok_def)

lemma inv_started:
  "mm_inv m \<Longrightarrow> mm_inv (upd_stats u (\<lambda>st. st\<lparr>ms_inFlightRequests := ms_inFlightRequests st + 1,
     ms_totalRequests := Suc (ms_totalRequests st)\<rparr>) m)"
  by (rule mm_inv_upd) (auto simp: st_ok_def)

lemma inv_refused:
  "mm_inv m \<Longrightarrow> mm_inv (upd_stats u (\<lambda>st. st\<lparr>ms_errorCount := Suc (ms_errorCount st)\<rparr>)
     (upd_stats u (\<lambda>st. st\<lparr>ms_inFlightRequests := ms_inFlightRequests st + 1,
        ms_totalRequests := Suc (ms_totalRequests st)\<rparr>) m))"
  by (auto simp: mm_inv_def st_ok_def)

lemma inv_try_mirror:
  assumes "mm_inv m"
  shows "mm_inv (fst (snd (try_mirror P h x obj (m, w))))"
  using assms inv_started [OF assms] inv_refused [OF assms]
  by (auto simp: try_mirror_def Let_def inv_fields intro!: inv_success [OF assms]
      split: option.split prod.split sum.split)

lemma inv_fetchBlob:
  assumes "mm_inv m"
  shows "mm_inv (fst (snd (fetchBlob P h x (m, w))))"
proof -
  have "mm_inv (fst (snd (try_mirror P h x obj (m\<lparr>mm_activeRequests := a\<rparr>, w))))" for obj a
    by (rule inv_try_mirror) (simp add: assms inv_fields)
  then show ?thesis using assms
    by (auto simp: fetchBlob_def fetch_server_def Let_def inv_fields split: prod.split sum.split)
      (metis fst_conv snd_conv inv_fields(1))+
qed

lemma window_length: "length vs \<le> 10 \<Longrightarrow> length (if length (vs @ [v]) > 10 then tl (vs @ [v]) else vs @ [v]) \<le> 10"
  by auto

lemma inv_recordBandwidth: "mm_inv m \<Longrightarrow> mm_inv (recordBandwidth u b m)"
  unfolding recordBandwidth_def by (rule mm_inv_upd) (auto simp: st_ok_def Let_def)

lemma inv_measure: "mm_inv m \<Longrightarrow> mm_inv (measureBandwidth chunks m)"
  using inv_recordBandwidth
  by (auto simp: measureBandwidth_def Let_def inv_fields split: list.split prod.split option.split)

lemma inv_process_one: "mm_inv m \<Longrightarrow> mm_inv (process_one obj m)"
  by (auto simp: process_one_def Let_def inv_fields st_ok_def intro!: mm_inv_upd split: option.split)

lemma inv_process: "mm_inv m \<Longrightarrow> mm_inv (processCompletedTrackingObjects m)"
proof -
  have "mm_inv m \<Longrightarrow> mm_inv (fold process_one os m)" for os m
    by (induction os arbitrary: m) (simp_all add: inv_process_one)
  then show "mm_inv m \<Longrightarrow> mm_inv (processCompletedTrackingObjects m)"
    by (simp add: processCompletedTrackingObjects_def inv_fields)
qed

lemma map_get_map_values: "map_get (map (\<lambda>(k, v). (k, f v)) al) k = map_option f (map_get al k)"
  by (induction al) auto

lemma inv_resetOld: "mm_inv m \<Longrightarrow> mm_inv (resetOldStatistics now m)"
  by (auto simp: mm_inv_def resetOldStatistics_def map_get_map_values)

section \<open>Reachable managers\<close>

text \<open>The manager of a volume through any sequence of its operations, the platform's answers included.\<close>

inductive mm_reach :: "'w platform \<Rightarrow> mman \<Rightarrow> bool" for P where
  new: "mm_reach P (new_mman serverUrl volume)"
| refresh: "mm_reach P m \<Longrightarrow> mm_reach P (fst (snd (refreshMirrorList P (m, w))))"
| fetch: "mm_reach P m \<Longrightarrow> mm_reach P (fst (snd (fetchBlob P hash ext (m, w))))"
| measure: "mm_reach P m \<Longrightarrow> mm_reach P (measureBandwidth chunks m)"
| stats: "mm_reach P m \<Longrightarrow> mm_reach P (snd (getMirrorStats m))"
| reset: "mm_reach P m \<Longrightarrow> mm_reach P (resetStats m)"
| old: "mm_reach P m \<Longrightarrow> mm_reach P (resetOldStatistics now m)"

lemma mm_reach_inv: "mm_reach P m \<Longrightarrow> mm_inv m"
proof (induction rule: mm_reach.induct)
  case (reset m)
  then show ?case by (simp add: resetStats_def inv_fields)
qed (simp_all add: inv_new_mman inv_refresh inv_fetchBlob inv_measure inv_process inv_resetOld
      getMirrorStats_def Let_def)

text \<open>
  C22. Whatever the server and the mirrors answer, the manager keeps for every mirror in its list
  windows of at most ten samples and the averages of exactly those, never more successes and errors than
  requests, no time of last contact at all, and an in-flight counter that is the number of
  requests without success: a failed request is never taken off it.
\<close>

theorem mirror_reachable_inv:
  assumes "mm_reach P m" and "mi \<in> set (mm_mirrors m)"
  shows "\<exists>st. map_get (mm_perf m) (mi_url mi) = Some st \<and> st_ok st"
  using mm_reach_inv [OF assms(1)] assms(2) unfolding mm_inv_def by blast

definition one_mirror :: "unit platform" where
  "one_mirror = \<lparr>p_fetch = (\<lambda>rq w. (Inr \<lparr>rs_status = 200, rs_headers = [],
       rs_body = Inr (json_bytes (JArr [JObj [(''url'', JStr ''m/'')]]))\<rparr>, w)),
     p_now = (\<lambda>_. 700000), p_perf = (\<lambda>_. 0), p_digest = id\<rparr>"

lemma one_mirror_refresh:
  "fst (snd (refreshMirrorList one_mirror (new_mman ''s'' ''v'', ()))) =
     (new_mman ''s'' ''v'')\<lparr>mm_mirrors := [\<lparr>mi_url = ''m'', mi_volumes = [JStr ''v'']\<rparr>],
        mm_perf := [(''m'', new_mstats)], mm_totalBytes := [(''m'', 0)]\<rparr>"
  by (simp add: refreshMirrorList_def one_mirror_def resp_ok_def resp_json_def new_mman_def
      drop_last_slash_def parse_mirror_def init_mirror_def map_has_def Let_def)

theorem mirror_reachable_inv_witness:
  "\<exists>st. map_get (mm_perf (fst (snd (refreshMirrorList one_mirror (new_mman ''s'' ''v'', ()))))) ''m''
      = Some st \<and> st_ok st"
proof -
  let ?m = "fst (snd (refreshMirrorList one_mirror (new_mman ''s'' ''v'', ())))"
  have "mm_reach one_mirror ?m" by (intro mm_reach.refresh mm_reach.new)
  moreover have "\<lparr>mi_url = ''m'', mi_volumes = [JStr ''v'']\<rparr> \<in> set (mm_mirrors ?m)"
    by (simp add: one_mirror_refresh)
  ultimately show ?thesis using mirror_reachable_inv by fastforce
qed

text \<open>
  The bandwidth by which a mirror would be scored lies between the least and the greatest measurement of its
  window, whatever was fetched and measured.
\<close>

theorem bandwidth_between_samples:
  assumes "mm_reach P m" and "map_get (mm_perf m) u = Some st" and "ms_bandwidth_values st \<noteq> []"
  shows "Min (set (ms_bandwidth_values st)) \<le> ms_bandwidth_average st
    \<and> ms_bandwidth_average st \<le> Max (set (ms_bandwidth_values st))"
proof -
  have "st_ok st" using mm_reach_inv [OF assms(1)] assms(2) unfolding mm_inv_def by blast
  then show ?thesis using num_mean_between [OF assms(3)] by (simp add: st_ok_def)
qed

section \<open>The choice\<close>

lemma with_stats_inv:
  assumes "mm_inv m"
  shows "map fst (with_stats m f now) = (if f now then compatible m else [])"
proof -
  have "\<forall>mi \<in> set (compatible m). \<exists>st. map_get (mm_perf m) (mi_url mi) = Some st \<and> ms_lastCommunicated st = 0"
    using assms by (auto simp: mm_inv_def compatible_def st_ok_def)
  then have "map fst (List.map_filter (\<lambda>mi. case map_get (mm_perf m) (mi_url mi) of
        None \<Rightarrow> None
      | Some st \<Rightarrow> if f (now - ms_lastCommunicated st) then Some (mi, st) else None) ms)
    = (if f now then ms else [])" if "set ms \<subseteq> set (compatible m)" for ms
    using that by (induction ms) (auto simp: map_filter_simps)
  then show ?thesis by (simp add: with_stats_def)
qed

lemma with_stats_elem:
  "(mi, st) \<in> set (with_stats m f now) \<Longrightarrow>
    mi \<in> set (compatible m) \<and> map_get (mm_perf m) (mi_url mi) = Some st"
  by (auto simp: with_stats_def map_filter_def split: option.splits if_splits)

lemma hd_stats_in:
  assumes "with_stats m f now \<noteq> []"
  shows "hd (sort_key g (with_stats m f now)) \<in> set (with_stats m f now)"
    and "fst (hd (sort_key g (with_stats m f now))) \<in> set (compatible m)"
proof -
  show best: "hd (sort_key g (with_stats m f now)) \<in> set (with_stats m f now)"
    using assms by (rule hd_sort_key_in)
  show "fst (hd (sort_key g (with_stats m f now))) \<in> set (compatible m)"
    using best with_stats_elem [of "fst (hd (sort_key g (with_stats m f now)))"
        "snd (hd (sort_key g (with_stats m f now)))"] by simp
qed

lemma select_compatible:
  assumes "selectBestMirror now m = Some u"
  shows "u \<in> mi_url ` set (compatible m)"
proof -
  have ne: "compatible m \<noteq> []" using assms by (auto simp: selectBestMirror_def)
  then show ?thesis
    using assms hd_sort_key_in [OF ne, of "mirror_load m"] unfolding selectBestMirror_def Let_def
    by (auto split: if_splits intro!: imageI hd_stats_in(2))
qed

definition mirror_errors :: "mman \<Rightarrow> mirror \<Rightarrow> nat" where
  "mirror_errors m mi = (case map_get (mm_perf m) (mi_url mi) of None \<Rightarrow> 0 | Some st \<Rightarrow> ms_errorCount st)"

text \<open>
  The choice among the mirrors of a reachable manager, at any time past the first ten
  minutes of 1970: none exactly when no mirror carries the volume; with four or more active
  requests one with the fewest errors, otherwise one with the smallest load. The scored choice by latency
  and bandwidth is never made, since no time of last contact is ever recorded.
\<close>

theorem selectBestMirror_optimal:
  assumes reach: "mm_reach P m" and late: "now > OLD_COMMUNICATION_THRESHOLD"
  shows "case selectBestMirror now m of
      None \<Rightarrow> compatible m = []
    | Some u \<Rightarrow> \<exists>mi \<in> set (compatible m). u = mi_url mi
        \<and> (\<forall>mj \<in> set (compatible m).
             if mm_activeRequests m \<ge> ACTIVE_REQUEST_THRESHOLD then mirror_errors m mi \<le> mirror_errors m mj
             else mirror_load m mi \<le> mirror_load m mj)"
proof (cases "compatible m = []")
  case True
  then show ?thesis by (simp add: selectBestMirror_def)
next
  case False
  let ?old = "with_stats m (\<lambda>t. t > OLD_COMMUNICATION_THRESHOLD) now"
  note inv = mm_reach_inv [OF reach]
  have fst_old: "map fst ?old = compatible m" using with_stats_inv [OF inv] late by simp
  have recent: "with_stats m (\<lambda>t. t < RECENT_COMMUNICATION_THRESHOLD) now = []"
    using with_stats_inv [OF inv, of "\<lambda>t. t < RECENT_COMMUNICATION_THRESHOLD" now] late
    by (simp add: RECENT_COMMUNICATION_THRESHOLD_def OLD_COMMUNICATION_THRESHOLD_def)
  have errs: "ms_errorCount st = mirror_errors m mi" if "(mi, st) \<in> set ?old" for mi st
    using with_stats_elem [OF that] by (simp add: mirror_errors_def)
  show ?thesis
  proof (cases "mm_activeRequests m \<ge> ACTIVE_REQUEST_THRESHOLD")
    case True
    let ?errs = "\<lambda>(_ :: mirror, st). ms_errorCount st"
    let ?best = "hd (sort_key ?errs ?old)"
    have ne: "?old \<noteq> []" using fst_old False by auto
    then have sel: "selectBestMirror now m = Some (mi_url (fst ?best))"
      using True False by (simp add: selectBestMirror_def)
    have inbest: "?best \<in> set ?old" using ne by (rule hd_stats_in)
    have le: "mirror_errors m (fst ?best) \<le> mirror_errors m mj" if "mj \<in> set (compatible m)" for mj
    proof -
      have "mj \<in> fst ` set ?old" using that fst_old by (metis list.set_map)
      then obtain st where st: "(mj, st) \<in> set ?old" by auto
      then have "?errs ?best \<le> ?errs (mj, st)" by (rule hd_sort_key_le)
      moreover have "?errs ?best = mirror_errors m (fst ?best)"
        using errs [of "fst ?best" "snd ?best"] inbest by (simp add: case_prod_beta)
      ultimately show ?thesis using errs [OF st] by simp
    qed
    have "fst ?best \<in> set (compatible m)" using ne by (rule hd_stats_in)
    then show ?thesis using sel le True by auto
  next
    case low: False
    then have sel: "selectBestMirror now m = Some (mi_url (hd (sort_key (mirror_load m) (compatible m))))"
      using False recent by (simp add: selectBestMirror_def)
    then show ?thesis
      using low hd_sort_key_in [OF False] hd_sort_key_le [of _ "compatible m" "mirror_load m"] by auto
  qed
qed

theorem selectBestMirror_optimal_witness:
  "selectBestMirror 700000 (fst (snd (refreshMirrorList one_mirror (new_mman ''s'' ''v'', ())))) = Some ''m''"
proof -
  let ?m = "fst (snd (refreshMirrorList one_mirror (new_mman ''s'' ''v'', ())))"
  have "mm_reach one_mirror ?m" by (intro mm_reach.refresh mm_reach.new)
  moreover have "compatible ?m = [\<lparr>mi_url = ''m'', mi_volumes = [JStr ''v'']\<rparr>]"
    by (simp only: compatible_def one_mirror_refresh) (simp add: new_mman_def)
  ultimately show ?thesis
    using selectBestMirror_optimal [of one_mirror ?m 700000]
    by (auto simp: OLD_COMMUNICATION_THRESHOLD_def split: option.splits)
qed

section \<open>Fetches\<close>

lemma try_mirror_sel:
  "try_mirror P h x obj (m, w) = (r, (m', w')) \<Longrightarrow>
    mm_activeRequests m' = mm_activeRequests m \<and> mm_serverUrl m' = mm_serverUrl m \<and> mm_mirrors m' = mm_mirrors m"
  by (auto simp: try_mirror_def Let_def split: option.splits prod.splits sum.splits if_splits)

lemma try_mirror_ok:
  "try_mirror P h x obj (m, w) = (Inr resp, (m', w')) \<Longrightarrow>
    resp_ok resp \<and> (\<exists>mi \<in> set (compatible m). p_fetch P (get_request (blob_url (mi_url mi) h x)) w = (Inr resp, w'))"
  using select_compatible
  by (fastforce simp: try_mirror_def Let_def split: option.splits prod.splits sum.splits if_splits)

text \<open>
  \<open>fetchBlob\<close> returns a successful response of a mirror that carries the volume, or else exactly
  what the server answers or throws. It leaves the counter of active requests as it was when there are
  mirrors, and one lower, below zero in the end, when there are none.
\<close>

theorem fetchBlob_outcome:
  assumes "fetchBlob P h x (m, w) = (r, (m', w'))"
  shows "((\<exists>w0. p_fetch P (get_request (blob_url (mm_serverUrl m) h x)) w0 = (r, w'))
      \<or> (\<exists>resp mi. r = Inr resp \<and> resp_ok resp \<and> mi \<in> set (compatible m)
            \<and> p_fetch P (get_request (blob_url (mi_url mi) h x)) w = (r, w')))
    \<and> mm_activeRequests m' = mm_activeRequests m - (if mm_mirrors m = [] then 1 else 0)"
proof (cases "mm_mirrors m = []")
  case True
  then show ?thesis using assms by (auto simp: fetchBlob_def fetch_server_def split: prod.splits)
next
  case False
  define m0 where "m0 = m\<lparr>mm_activeRequests := mm_activeRequests m + 1\<rparr>"
  define obj where "obj = \<lparr>to_url = None, to_startTime = p_perf P w, to_bytesReceived = Some 0, to_ttfb = 0,
    to_success = False, to_requestComplete = False, to_bandwidthMeasured = False\<rparr>"
  obtain tr m1 w1 where t: "try_mirror P h x obj (m0, w) = (tr, (m1, w1))"
    by (metis surj_pair)
  have sel: "mm_activeRequests m1 = mm_activeRequests m + 1" "mm_serverUrl m1 = mm_serverUrl m"
    using try_mirror_sel [OF t] by (simp_all add: m0_def)
  have comp: "compatible m0 = compatible m" by (simp add: m0_def compatible_def)
  show ?thesis
  proof (cases tr)
    case (Inr resp)
    then have "r = Inr resp" "w' = w1" "mm_activeRequests m' = mm_activeRequests m"
      using assms t False sel by (auto simp: fetchBlob_def m0_def obj_def)
    then show ?thesis using try_mirror_ok [of P h x obj m0 w resp m1 w1] t Inr comp False by auto
  next
    case (Inl o1)
    then show ?thesis using assms t False sel
      by (auto simp: fetchBlob_def fetch_server_def m0_def [symmetric] obj_def [symmetric] Let_def
          split: prod.splits)
  qed
qed

theorem fetchBlob_outcome_witness:
  "mm_activeRequests (fst (snd (fetchBlob one_mirror ''h'' None (new_mman ''s'' ''v'', ())))) = - 1"
proof -
  obtain r m w where f: "fetchBlob one_mirror ''h'' None (new_mman ''s'' ''v'', ()) = (r, (m, w))"
    by (metis surj_pair)
  then show ?thesis using fetchBlob_outcome [OF f] by (simp add: new_mman_def)
qed

section \<open>Byte counts\<close>

definition bytes_of :: "string \<Rightarrow> tracking \<Rightarrow> int" where
  "bytes_of u obj = (if to_url obj = Some u \<and> u \<noteq> [] then max 0 (or_else0 (to_bytesReceived obj)) else 0)"

lemma process_one_bytes:
  "or_else0 (map_get (mm_totalBytes (process_one obj m)) u) =
     or_else0 (map_get (mm_totalBytes m) u) + bytes_of u obj"
  by (auto simp: process_one_def bytes_of_def Let_def split: option.split)

lemma process_bytes:
  "or_else0 (map_get (mm_totalBytes (fold process_one os m)) u) =
     or_else0 (map_get (mm_totalBytes m) u) + sum_list (map (bytes_of u) os)"
  by (induction os arbitrary: m) (simp_all add: process_one_bytes)

text \<open>
  Processing the finished requests adds to every mirror's total exactly the bytes of its own
  requests, and leaves none to be counted twice: processing again changes nothing.
\<close>

theorem process_conserves_bytes:
  "or_else0 (map_get (mm_totalBytes (processCompletedTrackingObjects m)) u) =
     or_else0 (map_get (mm_totalBytes m) u) + sum_list (map (bytes_of u) (mm_completed m))
   \<and> processCompletedTrackingObjects (processCompletedTrackingObjects m) = processCompletedTrackingObjects m"
  by (simp add: processCompletedTrackingObjects_def process_bytes)

lemma ilog1024_ge: "1024 ^ k \<le> n \<Longrightarrow> k \<le> ilog1024 n"
proof (induction k arbitrary: n)
  case (Suc k)
  have "1024 ^ k \<le> n div 1024" using Suc.prems by (simp add: less_eq_div_iff_mult_less_eq mult.commute)
  moreover have "\<not> n < 1024" using Suc.prems by (metis leD le_trans one_le_power power_Suc
        mult_le_mono2 nat_mult_1_right one_le_numeral)
  ultimately show ?case using Suc.IH by (subst ilog1024.simps) simp
qed simp

text \<open>From a tebibyte on, the formatted size ends in \<open>undefined\<close>.\<close>

lemma formatBytes_undefined: "1024 ^ 4 \<le> n \<Longrightarrow> ends_with '' undefined'' (formatBytes n)"
  using ilog1024_ge [of 4 n] by (auto simp: formatBytes_def Let_def suffix_def)

end
