(* ===== verification/Cid.thy ===== *)
theory Cid
  imports Platform
begin

text \<open>
  Content identifiers and their verification: \<open>_base58Encode\<close> and \<open>_computeCID\<close> (the same code
  in GritsClient.js and HashVerifier.js) and the class \<open>HashVerifier\<close>. The encoder works in
  place on a \<open>Uint8Array\<close> of a size guessed from the input; the theory shows the
  guess is always large enough, that different bytes have different encodings, and that a verified response
  has the digest its identifier names.
\<close>

section \<open>Base58\<close>

definition BASE58_ALPHABET :: string where
  "BASE58_ALPHABET = ''123456789ABCDEFGHJKLMNPQRSTUVWXYZabcdefghijkmnopqrstuvwxyz''"

text \<open>\<open>while (zeros < buffer.length && buffer[zeros] === 0) zeros++\<close>\<close>

fun count_zeros :: "u8 list \<Rightarrow> nat" where
  "count_zeros [] = 0"
| "count_zeros (b # bs) = (if b = 0 then Suc (count_zeros bs) else 0)"

text \<open>
  The inner loop, with \<open>k + 1\<close> as its first argument: it writes \<open>b58[k]\<close> from the last position
  down, carrying, and stops when the carry is used up beyond the digits written so far.
  The result is \<open>j\<close> and the array.
\<close>

fun b58_carry :: "nat \<Rightarrow> nat \<Rightarrow> nat \<Rightarrow> nat \<Rightarrow> u8 list \<Rightarrow> nat \<times> u8 list" where
  "b58_carry 0 j carry len b58 = (j, b58)"
| "b58_carry (Suc k) j carry len b58 =
     (if carry = 0 \<and> j \<ge> len then (j, b58)
      else let c = carry + 256 * unat (b58 ! k)
           in b58_carry k (Suc j) (c div 58) len (b58[k := of_nat (c mod 58)]))"

text \<open>The outer loop over the bytes after the leading zeros; \<open>length = j\<close> after each byte.\<close>

fun b58_bytes :: "u8 list \<Rightarrow> nat \<Rightarrow> u8 list \<Rightarrow> nat \<times> u8 list" where
  "b58_bytes [] len b58 = (len, b58)"
| "b58_bytes (x # xs) len b58 =
     (let (j, b) = b58_carry (length b58) 0 (unat x) len b58 in b58_bytes xs j b)"

definition base58Encode :: "u8 list \<Rightarrow> string" where
  "base58Encode buffer =
     (let zeros = count_zeros buffer;
          size = (length buffer - zeros) * 138 div 100 + 1;
          (len, b58) = b58_bytes (drop zeros buffer) 0 (replicate size 0);
          digits = dropWhile (\<lambda>d. d = 0) (drop (length b58 - len) b58)
      in replicate zeros (CHR ''1'') @ map (\<lambda>d. BASE58_ALPHABET ! unat d) digits)"

text \<open>
  \<open>_computeCID\<close>: the 34-byte multihash is the code \<open>0x12\<close>, the length \<open>0x20\<close> and the digest
  (SHA-256 digests are 32 bytes long).
\<close>

definition multihash :: "'w platform \<Rightarrow> u8 list \<Rightarrow> u8 list" where
  "multihash P data = 0x12 # 0x20 # p_digest P data"

definition computeCID :: "'w platform \<Rightarrow> u8 list \<Rightarrow> cid" where
  "computeCID P data = base58Encode (multihash P data)"

section \<open>HashVerifier\<close>

text \<open>
  \<open>verify\<close>: \<open>{ ok: true, response }\<close> is \<open>Inr\<close>, \<open>{ ok: false, error }\<close> is \<open>Inl\<close> of the message.
  The dash of the message is the three UTF-8 units of U+2014.
\<close>

definition em_dash :: string where
  "em_dash = [char_of (226::nat), char_of (128::nat), char_of (148::nat)]"

definition verify :: "'w platform \<Rightarrow> response \<Rightarrow> cid \<Rightarrow> string + response" where
  "verify P response expectedCID =
     (case resp_bytes response of
        Inl e \<Rightarrow> Inl (''Verification error: '' @ err_message e)
      | Inr buffer \<Rightarrow>
          (let actualCID = computeCID P buffer in
           if actualCID = expectedCID then Inr response
           else Inl (''Hash mismatch '' @ em_dash @ '' expected '' @ expectedCID @ '', got '' @ actualCID)))"

definition reject_response :: "string \<Rightarrow> response" where
  "reject_response error =
     \<lparr>rs_status = 502, rs_headers = [(''Content-Type'', ''text/plain'')],
      rs_body = Inr (text_encode (''Hash verification failed: '' @ error))\<rparr>"

definition verifyOrReject :: "'w platform \<Rightarrow> response \<Rightarrow> cid \<Rightarrow> response" where
  "verifyOrReject P response expectedCID =
     (case verify P response expectedCID of
        Inr r \<Rightarrow> r
      | Inl error \<Rightarrow> reject_response error)"

section \<open>The encoder computes base 58\<close>

text \<open>The value of a digit list, most significant digit first.\<close>

fun val_be :: "nat \<Rightarrow> nat \<Rightarrow> nat list \<Rightarrow> nat" where
  "val_be b a [] = a"
| "val_be b a (d # ds) = val_be b (a * b + d) ds"

lemma val_be_append: "val_be b a (xs @ ys) = val_be b (val_be b a xs) ys"
  by (induction xs arbitrary: a) auto

lemma val_be_acc: "val_be b a xs = a * b ^ length xs + val_be b 0 xs"
proof (induction xs arbitrary: a)
  case Nil
  then show ?case by simp
next
  case (Cons d ds)
  show ?case using Cons.IH [of "a * b + d"] Cons.IH [of d] by (simp add: algebra_simps)
qed

lemma val_be_less: "\<forall>d \<in> set xs. d < b \<Longrightarrow> val_be b 0 xs < b ^ length xs"
proof (induction xs)
  case Nil
  then show ?case by simp
next
  case (Cons d ds)
  have "val_be b 0 (d # ds) = d * b ^ length ds + val_be b 0 ds"
    using val_be_acc [of b d ds] by simp
  also have "\<dots> < d * b ^ length ds + b ^ length ds" using Cons by simp
  also have "\<dots> = Suc d * b ^ length ds" by simp
  also have "\<dots> \<le> b * b ^ length ds" using Cons.prems by (intro mult_le_mono1) simp
  finally show ?case by simp
qed

lemma val_be_replicate_zero [simp]: "val_be b 0 (replicate n 0 @ xs) = val_be b 0 xs"
  by (induction n) auto

lemma val_be_dropWhile_zero [simp]: "val_be b 0 (dropWhile (\<lambda>d. d = 0) xs) = val_be b 0 xs"
  by (induction xs) auto

text \<open>Digit lists without a leading zero are determined by their value.\<close>

lemma val_be_lower:
  assumes "xs \<noteq> []" "hd xs \<noteq> 0" "0 < b"
  shows "b ^ (length xs - 1) \<le> val_be b 0 xs"
proof (cases xs)
  case (Cons d ds)
  then have "1 \<le> d" using assms by simp
  then have "1 * b ^ length ds \<le> d * b ^ length ds" by (rule mult_le_mono1)
  also have "\<dots> \<le> val_be b 0 xs" using Cons val_be_acc [of b d ds] by simp
  finally show ?thesis using Cons by simp
qed (use assms in simp)

lemma val_be_inj_length:
  assumes "length xs = length ys" "val_be b 0 xs = val_be b 0 ys"
    and "\<forall>d \<in> set xs. d < b" "\<forall>d \<in> set ys. d < b"
  shows "xs = ys"
  using assms
proof (induction xs ys rule: rev_induct2)
  case (4 x xs y ys)
  have x: "x < b" "y < b" using "4.prems" by auto
  have eq: "val_be b 0 xs * b + x = val_be b 0 ys * b + y"
    using "4.prems"(2) by (simp add: val_be_append)
  then have "(val_be b 0 xs * b + x) mod b = (val_be b 0 ys * b + y) mod b" by simp
  then have "x = y" using x by simp
  moreover have "val_be b 0 xs = val_be b 0 ys" using eq \<open>x = y\<close> x by simp
  ultimately show ?case using 4 by simp
qed auto

lemma val_be_inj:
  assumes "val_be b 0 xs = val_be b 0 ys"
    and "\<forall>d \<in> set xs. d < b" "\<forall>d \<in> set ys. d < b"
    and "xs \<noteq> [] \<Longrightarrow> hd xs \<noteq> 0" "ys \<noteq> [] \<Longrightarrow> hd ys \<noteq> 0" and b: "1 < b"
  shows "xs = ys"
proof -
  have len: "length us \<le> length vs"
    if "val_be b 0 us = val_be b 0 vs" "us \<noteq> [] \<Longrightarrow> hd us \<noteq> 0" "\<forall>d \<in> set vs. d < b" for us vs
  proof (cases "us = []")
    case False
    then have "b ^ (length us - 1) \<le> val_be b 0 us" using that b by (intro val_be_lower) auto
    also have "\<dots> < b ^ length vs" using that val_be_less [of vs b] by simp
    finally have "length us - 1 < length vs" by (rule power_less_imp_less_exp [OF b])
    then show ?thesis by simp
  qed simp
  have "length xs \<le> length ys" by (rule len [OF assms(1) assms(4) assms(3)])
  moreover have "length ys \<le> length xs" by (rule len [OF assms(1) [symmetric] assms(5) assms(2)])
  ultimately have "length xs = length ys" by simp
  then show ?thesis using assms by (intro val_be_inj_length)
qed

definition arr_val :: "u8 list \<Rightarrow> nat" where
  "arr_val b = val_be 58 0 (map unat b)"

definition arr_digits :: "u8 list \<Rightarrow> bool" where
  "arr_digits b \<longleftrightarrow> (\<forall>d \<in> set b. unat d < 58)"

lemma arr_val_snoc: "arr_val (b @ [d]) = arr_val b * 58 + unat d"
  by (simp add: arr_val_def val_be_append)

lemma unat_mod58: "unat (of_nat (c mod 58) :: u8) = c mod 58"
proof -
  have "c mod 58 < 58" by simp
  then show ?thesis by (simp add: unat_of_nat)
qed

lemma arr_val_zeros: "(\<forall>d \<in> set b. d = 0) \<Longrightarrow> arr_val b = 0"
  by (induction b) (auto simp: arr_val_def)

lemma arr_digits_update: "arr_digits b \<Longrightarrow> arr_digits (b[k := of_nat (c mod 58)])"
  using unat_mod58 [of c] set_update_subset_insert [of b k "of_nat (c mod 58)"]
  by (auto simp: arr_digits_def)

lemma b58_carry_correct:
  assumes "b58_carry n j carry len b = (j', b')"
    and "n + j = length b" and "arr_digits b"
    and "\<forall>i < n. i < length b - len \<longrightarrow> b ! i = 0"
    and "carry + 256 * arr_val (take n b) < 58 ^ n"
  shows "length b' = length b \<and> drop n b' = drop n b \<and> arr_digits b'
    \<and> arr_val (take n b') = carry + 256 * arr_val (take n b)
    \<and> (\<forall>i < length b - j'. b' ! i = 0)"
  using assms
proof (induction n arbitrary: j carry b)
  case 0
  then show ?case by (simp add: arr_val_def)
next
  case (Suc k)
  show ?case
  proof (cases "carry = 0 \<and> j \<ge> len")
    case True
    then have eq: "j' = j" "b' = b" using Suc.prems(1) by auto
    have z: "\<forall>i < Suc k. b ! i = 0" using True Suc.prems(2,4) by auto
    then have "\<forall>d \<in> set (take (Suc k) b). d = 0"
      by (auto simp: in_set_conv_nth)
    then have "arr_val (take (Suc k) b) = 0" by (rule arr_val_zeros)
    then show ?thesis using True eq z Suc.prems by auto
  next
    case False
    define c where "c = carry + 256 * unat (b ! k)"
    define b1 where "b1 = b[k := of_nat (c mod 58)]"
    have rec: "b58_carry k (Suc j) (c div 58) len b1 = (j', b')"
      using Suc.prems(1) False by (simp add: c_def b1_def Let_def)
    have k: "k < length b" using Suc.prems(2) by simp
    have take1: "take k b1 = take k b" by (simp add: b1_def)
    have val: "arr_val (take (Suc k) b) = arr_val (take k b) * 58 + unat (b ! k)"
      using k by (simp add: take_Suc_conv_app_nth arr_val_snoc)
    have split: "carry + 256 * arr_val (take (Suc k) b)
        = (c div 58 + 256 * arr_val (take k b)) * 58 + c mod 58"
      using div_mult_mod_eq [of c 58] by (simp add: val c_def algebra_simps)
    have "c div 58 + 256 * arr_val (take k b1) < 58 ^ k"
      using Suc.prems(5) split take1 by simp
    then have IH: "length b' = length b1 \<and> drop k b' = drop k b1 \<and> arr_digits b'
        \<and> arr_val (take k b') = c div 58 + 256 * arr_val (take k b1)
        \<and> (\<forall>i < length b1 - j'. b' ! i = 0)"
      using Suc.prems arr_digits_update [of b k c] by (intro Suc.IH [OF rec]) (auto simp: b1_def)
    have bk: "b' ! k = of_nat (c mod 58)"
      using IH k hd_drop_conv_nth [of k b'] hd_drop_conv_nth [of k b1] by (simp add: b1_def)
    have "arr_val (take (Suc k) b') = arr_val (take k b') * 58 + unat (b' ! k)"
      using IH k by (simp add: take_Suc_conv_app_nth arr_val_snoc b1_def)
    then have "arr_val (take (Suc k) b') = carry + 256 * arr_val (take (Suc k) b)"
      using IH split take1 by (simp add: bk unat_mod58)
    moreover have "drop (Suc k) b' = drop (Suc k) b"
      using IH by (metis b1_def drop_Suc drop_update_cancel lessI tl_drop)
    ultimately show ?thesis using IH by (simp add: b1_def)
  qed
qed

text \<open>After the outer loop the array holds the value of the bytes read, in base 58.\<close>

lemma b58_bytes_correct:
  assumes "b58_bytes xs len b = (len', b')"
    and "arr_digits b" and "\<forall>i < length b - len. b ! i = 0"
    and "val_be 256 (arr_val b) (map unat xs) < 58 ^ length b"
  shows "length b' = length b \<and> arr_digits b'
    \<and> arr_val b' = val_be 256 (arr_val b) (map unat xs) \<and> (\<forall>i < length b - len'. b' ! i = 0)"
  using assms
proof (induction xs arbitrary: len b)
  case Nil
  then show ?case by simp
next
  case (Cons x xs)
  obtain j b1 where c: "b58_carry (length b) 0 (unat x) len b = (j, b1)" by fastforce
  have rec: "b58_bytes xs j b1 = (len', b')" using Cons.prems(1) c by simp
  let ?v = "arr_val b * 256 + unat x"
  have "?v \<le> ?v * 256 ^ length xs" by simp
  also have "\<dots> \<le> val_be 256 ?v (map unat xs)" by (subst val_be_acc) simp
  finally have "unat x + 256 * arr_val (take (length b) b) < 58 ^ length b"
    using Cons.prems(4) by (simp add: algebra_simps)
  from b58_carry_correct [OF c _ Cons.prems(2) _ this] Cons.prems(3)
  have b1: "length b1 = length b" "arr_digits b1" "arr_val b1 = ?v" "\<forall>i < length b - j. b1 ! i = 0"
    by (auto simp: algebra_simps)
  then show ?case using Cons.IH [OF rec] Cons.prems(4) by simp
qed

subsection \<open>The guessed array size\<close>

lemma b58_size_enough: "256 ^ n < (58::nat) ^ (n * 138 div 100 + 1)"
proof -
  let ?size = "n * 138 div 100 + 1"
  have base: "(256::nat) ^ 100 \<le> 58 ^ 138" by simp
  have "((256::nat) ^ n) ^ 100 = (256 ^ 100) ^ n" by (metis power_mult mult.commute)
  also have "\<dots> \<le> (58 ^ 138) ^ n" by (rule power_mono [OF base]) simp
  also have "\<dots> = 58 ^ (n * 138)" by (metis power_mult mult.commute)
  also have "\<dots> < 58 ^ (?size * 100)"
  proof (rule power_strict_increasing)
    have "n * 138 = (n * 138) div 100 * 100 + (n * 138) mod 100" by (rule div_mult_mod_eq [symmetric])
    also have "\<dots> < ?size * 100" using mod_less_divisor [of 100 "n * 138"] by simp
    finally show "n * 138 < ?size * 100" .
  qed simp
  also have "\<dots> = (58 ^ ?size) ^ 100" by (simp only: power_mult)
  finally show ?thesis by (rule power_less_imp_less_base) simp
qed

section \<open>A reference encoding and the round trip\<close>

text \<open>The base-58 digits of a number, most significant first, and none for zero.\<close>

fun digits58 :: "nat \<Rightarrow> nat list" where
  "digits58 n = (if n = 0 then [] else digits58 (n div 58) @ [n mod 58])"

declare digits58.simps [simp del]

definition bytes_val :: "u8 list \<Rightarrow> nat" where
  "bytes_val bs = val_be 256 0 (map unat bs)"

definition base58_spec :: "u8 list \<Rightarrow> string" where
  "base58_spec bs = replicate (count_zeros bs) (CHR ''1'')
     @ map (\<lambda>d. BASE58_ALPHABET ! d) (digits58 (bytes_val bs))"

lemma digits58_bound: "\<forall>d \<in> set (digits58 n). d < 58"
  by (induction n rule: digits58.induct) (subst digits58.simps, auto)

lemma digits58_val: "val_be 58 0 (digits58 n) = n"
  by (induction n rule: digits58.induct) (subst digits58.simps, simp add: val_be_append)

lemma digits58_nonempty: "0 < n \<Longrightarrow> digits58 n \<noteq> []"
  by (simp add: digits58.simps [of n])

lemma digits58_hd: "digits58 n \<noteq> [] \<Longrightarrow> hd (digits58 n) \<noteq> 0"
proof (induction n rule: digits58.induct)
  case (1 n)
  have nz: "n \<noteq> 0" using "1.prems" by (metis digits58.simps)
  have eq: "digits58 n = digits58 (n div 58) @ [n mod 58]"
    using nz by (subst digits58.simps) simp
  show ?case
  proof (cases "n div 58 = 0")
    case True
    then have "digits58 n = [n mod 58]" and "n mod 58 = n"
      using eq by (simp_all add: digits58.simps [of 0] div_eq_0_iff)
    then show ?thesis using nz by simp
  next
    case False
    then have "digits58 (n div 58) \<noteq> []" by (intro digits58_nonempty) simp
    then show ?thesis using 1 nz eq by simp
  qed
qed

lemma hd_dropWhile_zero: "dropWhile (\<lambda>d. d = 0) xs \<noteq> [] \<Longrightarrow> hd (dropWhile (\<lambda>d. d = 0) xs) \<noteq> 0"
  using hd_dropWhile [of "\<lambda>d. d = 0" xs] by blast

lemma bytes_val_drop_zeros: "bytes_val (drop (count_zeros bs) bs) = bytes_val bs"
  by (induction bs) (auto simp: bytes_val_def)

lemma bytes_val_less: "bytes_val bs < 256 ^ length bs"
proof -
  have "\<forall>d \<in> set (map unat bs). d < 256"
    using unsigned_less [where 'b = 8 and 'a = nat] by auto
  then show ?thesis using val_be_less [of "map unat bs" 256] by (simp add: bytes_val_def)
qed

lemma drop_leading_zeros:
  assumes "\<forall>i < k. b ! i = 0" "k \<le> length b"
  shows "dropWhile (\<lambda>d. d = 0) (drop k b) = dropWhile (\<lambda>d. d = 0) b"
proof -
  have "\<forall>d \<in> set (take k b). d = 0" using assms by (auto simp: in_set_conv_nth)
  then have "dropWhile (\<lambda>d. d = 0) (take k b @ drop k b) = dropWhile (\<lambda>d. d = 0) (drop k b)"
    by (intro dropWhile_append2) auto
  then show ?thesis by simp
qed

lemma base58_digits_correct:
  assumes "b58_bytes xs 0 (replicate (length xs * 138 div 100 + 1) 0) = (len, b)"
  shows "map unat (dropWhile (\<lambda>d. d = 0) (drop (length b - len) b)) = digits58 (bytes_val xs)"
proof -
  define size where "size = length xs * 138 div 100 + 1"
  have z: "arr_val (replicate size 0) = 0" by (rule arr_val_zeros) simp
  have fits: "val_be 256 0 (map unat xs) < 58 ^ size"
    using bytes_val_less [of xs] b58_size_enough [of "length xs"]
    by (simp only: bytes_val_def size_def less_trans)
  have d: "arr_digits (replicate size 0)" by (simp add: arr_digits_def)
  have "length b = size \<and> arr_digits b \<and> arr_val b = val_be 256 0 (map unat xs)
      \<and> (\<forall>i < size - len. b ! i = 0)"
    using b58_bytes_correct [OF assms [folded size_def] d] z fits by simp
  then have b: "arr_digits b" "arr_val b = bytes_val xs" "\<forall>i < length b - len. b ! i = 0"
    by (simp_all add: bytes_val_def)
  define ds where "ds = map unat (dropWhile (\<lambda>d. d = 0) b)"
  have ds: "ds = dropWhile (\<lambda>d. d = 0) (map unat b)"
    by (simp add: ds_def dropWhile_map comp_def unat_eq_zero)
  have "val_be 58 0 ds = bytes_val xs" using b(2) by (simp add: ds arr_val_def)
  moreover have "\<forall>d \<in> set ds. d < 58"
    using b(1) set_dropWhileD [of _ "\<lambda>d. d = 0" b] by (auto simp: ds_def arr_digits_def)
  ultimately have "ds = digits58 (bytes_val xs)"
    using hd_dropWhile_zero [of "map unat b"] digits58_bound digits58_hd digits58_val
    by (intro val_be_inj [of 58]) (auto simp: ds)
  then show ?thesis using b(3) by (simp add: drop_leading_zeros ds_def)
qed

lemma base58Encode_is_spec: "base58Encode bs = base58_spec bs"
proof -
  let ?xs = "drop (count_zeros bs) bs"
  obtain len b where run: "b58_bytes ?xs 0 (replicate (length ?xs * 138 div 100 + 1) 0) = (len, b)"
    by fastforce
  then have eq: "base58Encode bs = replicate (count_zeros bs) (CHR ''1'')
      @ map (\<lambda>d. BASE58_ALPHABET ! unat d) (dropWhile (\<lambda>d. d = 0) (drop (length b - len) b))"
    by (simp add: base58Encode_def)
  have "map (\<lambda>d. BASE58_ALPHABET ! unat d) (dropWhile (\<lambda>d. d = 0) (drop (length b - len) b))
      = map ((!) BASE58_ALPHABET) (map unat (dropWhile (\<lambda>d. d = 0) (drop (length b - len) b)))"
    by simp
  also have "\<dots> = map ((!) BASE58_ALPHABET) (digits58 (bytes_val bs))"
    using base58_digits_correct [OF run] by (simp add: bytes_val_drop_zeros)
  finally show ?thesis using eq by (simp add: base58_spec_def)
qed

section \<open>Identifiers determine the bytes\<close>

lemma alphabet_props:
  "length BASE58_ALPHABET = 58" "distinct BASE58_ALPHABET" "BASE58_ALPHABET ! 0 = CHR ''1''"
  by (simp_all add: BASE58_ALPHABET_def)

lemma alphabet_inj: "a < 58 \<Longrightarrow> b < 58 \<Longrightarrow> BASE58_ALPHABET ! a = BASE58_ALPHABET ! b \<longleftrightarrow> a = b"
  using alphabet_props by (simp add: nth_eq_iff_index_eq)

lemma alphabet_map_inj:
  "\<forall>d \<in> set xs. d < 58 \<Longrightarrow> \<forall>d \<in> set ys. d < 58 \<Longrightarrow>
    map ((!) BASE58_ALPHABET) xs = map ((!) BASE58_ALPHABET) ys \<Longrightarrow> xs = ys"
  by (rule map_inj_on [where f = "(!) BASE58_ALPHABET"]) (auto simp: inj_on_def alphabet_inj)

lemma bytes_split: "bs = replicate (count_zeros bs) 0 @ drop (count_zeros bs) bs"
  by (induction bs) auto

lemma drop_zeros_hd:
  "drop (count_zeros bs) bs \<noteq> [] \<Longrightarrow> hd (map unat (drop (count_zeros bs) bs)) \<noteq> 0"
  by (induction bs) (auto simp: unat_gt_0)

lemma bytes_val_inj:
  assumes "count_zeros a = count_zeros b" "bytes_val a = bytes_val b"
  shows "a = b"
proof -
  have u: "\<forall>d \<in> set (map unat bs). d < 256" for bs :: "u8 list"
    using unsigned_less [where 'b = 8 and 'a = nat] by auto
  let ?d = "\<lambda>x. drop (count_zeros x) (x :: u8 list)"
  have "val_be 256 0 (map unat (?d a)) = val_be 256 0 (map unat (?d b))"
    using assms(2) bytes_val_drop_zeros [of a] bytes_val_drop_zeros [of b]
    by (simp add: bytes_val_def)
  then have "map unat (?d a) = map unat (?d b)"
    using u drop_zeros_hd by (intro val_be_inj [of 256]) (blast | simp)+
  then have "?d a = ?d b" by (rule map_injective) (simp add: inj_def word_unat_eq_iff)
  then show ?thesis using assms(1) bytes_split by metis
qed

lemma ones_prefix:
  assumes "replicate m c @ xs = replicate n c @ ys"
    and "xs \<noteq> [] \<Longrightarrow> hd xs \<noteq> c" "ys \<noteq> [] \<Longrightarrow> hd ys \<noteq> c"
  shows "m = n \<and> xs = ys"
proof -
  have t: "takeWhile (\<lambda>x. x = c) (replicate k c @ zs) = replicate k c"
    if "zs \<noteq> [] \<Longrightarrow> hd zs \<noteq> c" for k zs
    using that by (induction k) (cases zs, auto)
  have "replicate m c = replicate n c" using t [of xs m] t [of ys n] assms by metis
  then show ?thesis using assms(1) by simp
qed

lemma digits58_chars_hd:
  "map ((!) BASE58_ALPHABET) (digits58 n) \<noteq> [] \<Longrightarrow>
    hd (map ((!) BASE58_ALPHABET) (digits58 n)) \<noteq> CHR ''1''"
proof -
  assume "map ((!) BASE58_ALPHABET) (digits58 n) \<noteq> []"
  then have ne: "digits58 n \<noteq> []" by simp
  then have "hd (digits58 n) < 58" using digits58_bound [of n] by simp
  then show ?thesis
    using ne digits58_hd [OF ne] alphabet_inj [of "hd (digits58 n)" 0] alphabet_props(3)
    by (simp add: hd_map)
qed

lemma base58_spec_inj: "base58_spec a = base58_spec b \<longleftrightarrow> a = b"
proof
  assume "base58_spec a = base58_spec b"
  then have "count_zeros a = count_zeros b
      \<and> map ((!) BASE58_ALPHABET) (digits58 (bytes_val a))
        = map ((!) BASE58_ALPHABET) (digits58 (bytes_val b))"
    unfolding base58_spec_def by (rule ones_prefix) (use digits58_chars_hd in blast)+
  moreover from this have "digits58 (bytes_val a) = digits58 (bytes_val b)"
    using digits58_bound alphabet_map_inj by blast
  then have "bytes_val a = bytes_val b" using digits58_val by metis
  ultimately show "a = b" using bytes_val_inj by blast
qed simp

lemma base58Encode_inj [simp]: "base58Encode a = base58Encode b \<longleftrightarrow> a = b"
  by (simp add: base58Encode_is_spec base58_spec_inj)

text \<open>
  C17. The in-place encoder of GritsClient.js and HashVerifier.js, which carries through an array
  whose size it guesses as \<open>138 / 100\<close> of the input length, returns for every input the reference
  encoding: a \<open>1\<close> per leading zero byte, then the base-58 digits of the number the bytes spell. Different inputs
  have different encodings.
\<close>

theorem base58Encode_correct:
  "base58Encode bs = base58_spec bs \<and> (base58Encode bs = base58Encode bs' \<longleftrightarrow> bs = bs')"
  by (simp add: base58Encode_is_spec base58_spec_inj)

lemma computeCID_eq_iff: "computeCID P x = computeCID P y \<longleftrightarrow> p_digest P x = p_digest P y"
  by (simp add: computeCID_def multihash_def)

text \<open>
  With a digest that has no collision among the bytes the program meets, an identifier
  names one content.
\<close>

lemma computeCID_inj: "inj (p_digest P) \<Longrightarrow> computeCID P x = computeCID P y \<longleftrightarrow> x = y"
  by (simp add: computeCID_eq_iff inj_eq)

section \<open>Verified responses\<close>

lemma lower_content_type: "to_lower ''Content-Type'' = ''content-type''"
  "to_lower ''content-type'' = ''content-type''"
  by code_simp+

text \<open>
  The verifier lets a response through exactly when its body could be read and has the
  expected identifier; the response it then hands on is the one it was given. For bytes
  \<open>data\<close> stored under their identifier, that is when the body has their digest.
\<close>

theorem verify_sound:
  "verify P r (computeCID P data) = Inr r'
    \<longleftrightarrow> r' = r \<and> (\<exists>body. resp_bytes r = Inr body \<and> p_digest P body = p_digest P data)"
  by (auto simp: verify_def Let_def computeCID_eq_iff split: sum.split)

text \<open>
  What \<open>verifyOrReject\<close> returns is never a successful response with other content: it is the
  given response, with bytes of the expected identifier, or a plain-text 502.
\<close>

theorem verifyOrReject_safe:
  "(verifyOrReject P r c = r \<and> (\<exists>body. resp_bytes r = Inr body \<and> computeCID P body = c))
    \<or> (rs_status (verifyOrReject P r c) = 502
        \<and> header_get (verifyOrReject P r c) ''content-type'' = Some ''text/plain''
        \<and> (\<exists>why. verify P r c = Inl why
            \<and> resp_text (verifyOrReject P r c) = Inr (''Hash verification failed: '' @ why)))"
  by (auto simp: verifyOrReject_def reject_response_def verify_def resp_text_def header_get_def Let_def
      lower_content_type split: sum.splits)

end
