(* ===== verification/Client_State.thy ===== *)
theory Client_State
  imports Mirror Desync Cid
begin

text \<open>
  The state of \<open>GritsClient\<close> and \<open>GritsVolume\<close> (grits/GritsClient.js) and the operations of
  \<open>GritsClient\<close>: its two caches, the blobs it synthesises for files and directories, the
  session, and the registry of volumes. A program over the client threads the client, the world of the
  platform being one of its fields; a program of a volume threads the client and that volume.
\<close>

section \<open>Constants\<close>

definition JSON_CACHE_MAX_AGE :: int where "JSON_CACHE_MAX_AGE = 5 * 60 * 1000"
definition DEFAULT_HARD_TIMEOUT :: rat where "DEFAULT_HARD_TIMEOUT = 1 * 60 * 1000"
definition MINIROOT_TTL :: int where "MINIROOT_TTL = 1 * 60 * 1000"
definition DESYNC_MODE :: bool where "DESYNC_MODE = False"

definition ASSERT_PREV_MATCHES :: int where "ASSERT_PREV_MATCHES = 1"
definition ASSERT_IS_BLOB :: int where "ASSERT_IS_BLOB = 2"
definition ASSERT_IS_TREE :: int where "ASSERT_IS_TREE = 4"
definition ASSERT_IS_NONEMPTY :: int where "ASSERT_IS_NONEMPTY = 8"

section \<open>State\<close>

text \<open>
  A volume. A mini-root is \<open>path \<mapsto> { addr, ts }\<close> with \<open>addr\<close> null after \<open>resetRoot\<close>.
  Addresses are strings in the server's answers; another JSON value counts as its string form.
\<close>

record vol =
  vo_serverUrl :: string
  vo_volume :: string
  vo_miniRoots :: "(string \<times> (string option \<times> int)) list"
  vo_hardTimeout :: rat
  vo_configFetched :: bool
  vo_inFlight :: "(string \<times> bool) list"
  vo_prefetchQueue :: "string list"
  vo_processing :: bool
  vo_mirror :: mman
  vo_desync :: "desync option"

text \<open>What the client does to the page, in order: a reload, or the registration of a worker.\<close>

datatype page_effect = PE_reload | PE_register string

text \<open>
  The client. \<open>cl_window\<close> tells a window context from a service worker, \<open>cl_cookies\<close> is
  \<open>document.cookie\<close> split at semicolons, \<open>cl_blobCache\<close> is None while the Cache API is
  unavailable. Cached data is deeply frozen by the code, so a value stands for it.
\<close>

record 'w cl =
  cl_swControlled :: bool
  cl_swReloadTriggered :: bool
  cl_swRegistrationAttempted :: bool
  cl_jsonCache :: "(string \<times> (jsv \<times> int)) list"
  cl_blobCache :: "(string \<times> u8 list) list option"
  cl_volumes :: "(string \<times> vol) list"
  cl_hashes :: "(string \<times> string option) list"
  cl_extraHeaders :: "(string \<times> string) list"
  cl_authToken :: "string option"
  cl_username :: string
  cl_tracker :: tracker
  cl_window :: bool
  cl_cookies :: "string list"
  cl_effects :: "page_effect list"
  cl_world :: 'w

type_synonym 'w cv = "'w cl \<times> vol"

text \<open>\<open>GritsFile\<close>; its volume is the one whose program handles it.\<close>

record gfile =
  gf_cid :: string
  gf_meta :: jsv
  gf_path :: "string option"

definition new_client :: "bool \<Rightarrow> bool \<Rightarrow> 'w \<Rightarrow> 'w cl" where
  "new_client window cacheWorks w =
     \<lparr>cl_swControlled = False, cl_swReloadTriggered = False, cl_swRegistrationAttempted = False,
      cl_jsonCache = [], cl_blobCache = (if cacheWorks then Some [] else None), cl_volumes = [],
      cl_hashes = [], cl_extraHeaders = [], cl_authToken = None, cl_username = [],
      cl_tracker = new_tracker False, cl_window = window, cl_cookies = [], cl_effects = [], cl_world = w\<rparr>"

definition new_vol :: "string \<Rightarrow> string \<Rightarrow> vol" where
  "new_vol serverUrl volume =
     (let s = drop_last_slash serverUrl in
      \<lparr>vo_serverUrl = s, vo_volume = volume, vo_miniRoots = [], vo_hardTimeout = DEFAULT_HARD_TIMEOUT,
       vo_configFetched = False, vo_inFlight = [], vo_prefetchQueue = [], vo_processing = False,
       vo_mirror = new_mman s volume, vo_desync = (if DESYNC_MODE then Some new_desync else None)\<rparr>)"

section \<open>Programs over the client\<close>

definition fetch :: "'w platform \<Rightarrow> request \<Rightarrow> ('w cl, response) prog" where
  "fetch P rq = (\<lambda>c. case p_fetch P rq (cl_world c) of (r, w') \<Rightarrow> (r, c\<lparr>cl_world := w'\<rparr>))"

definition date_now :: "'w platform \<Rightarrow> ('w cl, int) prog" where
  "date_now P = reads (\<lambda>c. p_now P (cl_world c))"

definition perf_now :: "'w platform \<Rightarrow> ('w cl, rat) prog" where
  "perf_now P = reads (\<lambda>c. p_perf P (cl_world c))"

definition track :: "(tracker \<Rightarrow> tracker) \<Rightarrow> ('w cl, unit) prog" where
  "track f = modify (\<lambda>c. c\<lparr>cl_tracker := f (cl_tracker c)\<rparr>)"

text \<open>A client program as a program of a volume, and a program of the volume's mirror manager.\<close>

definition on_cl :: "('w cl, 'a) prog \<Rightarrow> ('w cv, 'a) prog" where
  "on_cl m = (\<lambda>(c, v). case m c of (r, c') \<Rightarrow> (r, (c', v)))"

definition on_vol :: "(vol \<Rightarrow> vol) \<Rightarrow> ('w cv, unit) prog" where
  "on_vol f = modify (\<lambda>(c, v). (c, f v))"

definition on_mm :: "(mman \<times> 'w, 'a) prog \<Rightarrow> ('w cv, 'a) prog" where
  "on_mm m = (\<lambda>(c, v). case m (vo_mirror v, cl_world c) of
     (r, (mm, w)) \<Rightarrow> (r, (c\<lparr>cl_world := w\<rparr>, v\<lparr>vo_mirror := mm\<rparr>)))"

section \<open>Caches\<close>

text \<open>A hit in the JSON cache renews \<open>lastAccessed\<close>.\<close>

definition jsonCache_get :: "'w platform \<Rightarrow> string \<Rightarrow> ('w cl, jsv option) prog" where
  "jsonCache_get P h = (\<lambda>c.
     case map_get (cl_jsonCache c) h of
       None \<Rightarrow> (Inr None, c)
     | Some (d, _) \<Rightarrow>
         (Inr (Some d), c\<lparr>cl_jsonCache := map_set h (d, p_now P (cl_world c)) (cl_jsonCache c)\<rparr>))"

definition jsonCache_set :: "'w platform \<Rightarrow> string \<Rightarrow> jsv \<Rightarrow> ('w cl, unit) prog" where
  "jsonCache_set P h d =
     modify (\<lambda>c. c\<lparr>cl_jsonCache := map_set h (d, p_now P (cl_world c)) (cl_jsonCache c)\<rparr>)"

definition blobCacheGet :: "string \<Rightarrow> ('w cl, u8 list option) prog" where
  "blobCacheGet cid =
     reads (\<lambda>c. case cl_blobCache c of None \<Rightarrow> None | Some cache \<Rightarrow> map_get cache cid)"

definition blobCachePut :: "string \<Rightarrow> u8 list \<Rightarrow> ('w cl, unit) prog" where
  "blobCachePut cid bytes =
     modify (\<lambda>c. c\<lparr>cl_blobCache := map_option (map_set cid bytes) (cl_blobCache c)\<rparr>)"

text \<open>
  \<open>_storeBlob\<close>: without a blob cache the code calls \<open>this._uploadBlob\<close>, a method of
  \<open>GritsVolume\<close> that \<open>GritsClient\<close> does not have.
\<close>

definition storeBlob :: "string \<Rightarrow> u8 list \<Rightarrow> ('w cl, unit) prog" where
  "storeBlob cid bytes = (\<lambda>c.
     if cl_blobCache c \<noteq> None then blobCachePut cid bytes c
     else throw (Err_Type ''this._uploadBlob is not a function'') c)"

definition cacheGet :: "string \<Rightarrow> ('w cl, u8 list option) prog" where
  "cacheGet cid = blobCacheGet cid"

definition cachePut :: "'w platform \<Rightarrow> u8 list \<Rightarrow> ('w cl, string) prog" where
  "cachePut P bytes =
     (let cid = computeCID P bytes in pbind (storeBlob cid bytes) (\<lambda>_. ret cid))"

definition flushCaches :: "('w cl, unit) prog" where
  "flushCaches = modify (\<lambda>c. c\<lparr>cl_jsonCache := [], cl_blobCache := map_option (\<lambda>_. []) (cl_blobCache c)\<rparr>)"

definition cleanupJsonCache :: "'w platform \<Rightarrow> ('w cl, unit) prog" where
  "cleanupJsonCache P = modify (\<lambda>c.
     let cutoff = p_now P (cl_world c) - JSON_CACHE_MAX_AGE
     in c\<lparr>cl_jsonCache := filter (\<lambda>(_, _, lastAccessed). \<not> lastAccessed < cutoff) (cl_jsonCache c)\<rparr>)"

text \<open>
  \<open>_unmarshal\<close>: the parsed blob from the JSON cache, or from the blob cache (then kept parsed); the
  first component of the pair the code returns, null for a miss or bytes that do not parse.
\<close>

definition unmarshal :: "'w platform \<Rightarrow> string \<Rightarrow> ('w cl, jsv) prog" where
  "unmarshal P hash =
     pbind (jsonCache_get P hash) (\<lambda>cached.
       case cached of
         Some d \<Rightarrow> ret d
       | None \<Rightarrow>
           pbind (blobCacheGet hash) (\<lambda>blob.
             case blob of
               None \<Rightarrow> ret JNull
             | Some bytes \<Rightarrow>
                 (case json_of_bytes bytes of
                    None \<Rightarrow> ret JNull
                  | Some d \<Rightarrow> pbind (jsonCache_set P hash d) (\<lambda>_. ret d))))"

section \<open>Synthesised blobs\<close>

definition isoNow :: "'w platform \<Rightarrow> ('w cl, string) prog" where
  "isoNow P = reads (\<lambda>c. iso_seconds (p_now P (cl_world c)))"

definition meta_json :: "string \<Rightarrow> int \<Rightarrow> string \<Rightarrow> int \<Rightarrow> string \<Rightarrow> jsv" where
  "meta_json ty sz contentHash mode ts =
     JObj [(''type'', JStr ty), (''size'', JNum sz), (''contentHash'', JStr contentHash),
           (''mode'', JNum mode), (''timestamp'', JStr ts)]"

text \<open>\<open>mkfile\<close>; 0o644 is 420.\<close>

definition mkfile :: "'w platform \<Rightarrow> string \<Rightarrow> int \<Rightarrow> ('w cl, string) prog" where
  "mkfile P contentCID sz =
     (if sz < 0
      then throw (Err_Type (''mkfile: size must be a non-negative integer, got Number ('' @ int_str sz @ '')''))
      else pbind (isoNow P) (\<lambda>ts.
        let bytes = json_bytes (meta_json ''blob'' sz contentCID 420 ts);
            cid = computeCID P bytes
        in pbind (storeBlob cid bytes) (\<lambda>_. ret cid)))"

text \<open>The values \<open>mkdir\<close> takes for an entry: an identifier, a file or something else, by its type name.\<close>

datatype dir_entry = DE_cid string | DE_file gfile | DE_other string

fun mkdir_listing :: "(string \<times> dir_entry) list \<Rightarrow> err + (string \<times> jsv) list" where
  "mkdir_listing [] = Inr []"
| "mkdir_listing ((name, DE_cid c) # es) =
     (case mkdir_listing es of Inl e \<Rightarrow> Inl e | Inr l \<Rightarrow> Inr ((name, JStr c) # l))"
| "mkdir_listing ((name, DE_file f) # es) =
     (case mkdir_listing es of Inl e \<Rightarrow> Inl e | Inr l \<Rightarrow> Inr ((name, JStr (gf_cid f)) # l))"
| "mkdir_listing ((name, DE_other ty) # es) =
     Inl (Err_Type (''mkdir: entry \"'' @ name @ ''\" must be a CID string or GritsFile, got '' @ ty))"

text \<open>\<open>mkdir\<close>; an object has each name once, and 0o755 is 493.\<close>

definition mkdir :: "'w platform \<Rightarrow> (string \<times> dir_entry) list \<Rightarrow> ('w cl, string) prog" where
  "mkdir P es =
     pbind (lift_res (mkdir_listing es)) (\<lambda>listing.
       let dirBytes = json_bytes (JObj listing);
           dirCID = computeCID P dirBytes
       in pbind (storeBlob dirCID dirBytes) (\<lambda>_.
          pbind (isoNow P) (\<lambda>ts.
            let metaBytes = json_bytes (meta_json ''dir'' (int (length dirBytes)) dirCID 493 ts);
                metaCID = computeCID P metaBytes
            in pbind (storeBlob metaCID metaBytes) (\<lambda>_. ret metaCID))))"

section \<open>Session\<close>

definition post_json :: "string \<Rightarrow> (string \<times> string) list \<Rightarrow> jsv \<Rightarrow> request" where
  "post_json url headers body =
     \<lparr>rq_method = ''POST'', rq_url = url, rq_headers = headers, rq_body = Some (json_bytes body)\<rparr>"

text \<open>\<open>vol._miniRoots.clear()\<close> for every volume.\<close>

definition clear_miniRoots :: "'w cl \<Rightarrow> 'w cl" where
  "clear_miniRoots c =
     c\<lparr>cl_volumes := map (\<lambda>(k, v). (k, v\<lparr>vo_miniRoots := []\<rparr>)) (cl_volumes c)\<rparr>"

definition AUTH_HEADER :: string where "AUTH_HEADER = ''X-Grits-Auth-Token''"

definition login :: "'w platform \<Rightarrow> string \<Rightarrow> string \<Rightarrow> string \<Rightarrow> bool \<Rightarrow> bool \<Rightarrow> ('w cl, unit) prog" where
  "login P serverUrl username password glob guest =
     (let body = JObj ([(''username'', JStr username), (''password'', JStr password)]
            @ (if glob then [(''global'', JBool True)] else [])
            @ (if guest then [(''guest'', JBool True)] else []))
      in pbind (fetch P (post_json (serverUrl @ ''/grits/v1/auth/login'')
                  [(''Content-Type'', ''application/json'')] body)) (\<lambda>res.
           if \<not> resp_ok res then
             pbind (lift_res (case resp_json res of Inl _ \<Rightarrow> Inr (JObj []) | Inr d \<Rightarrow> Inr d)) (\<lambda>data.
             pbind (lift_res (js_prop_strict data ''error'')) (\<lambda>error.
               throw (Err_Error (if truthy error then js_string error else ''login failed''))))
           else
             pbind (lift_res (resp_json res)) (\<lambda>data.
             pbind (lift_res (js_prop_strict data ''token'')) (\<lambda>token.
               if \<not> truthy token then throw (Err_Error ''login: no token in response'')
               else
                 pbind (modify (\<lambda>c. clear_miniRoots (c\<lparr>cl_authToken := Some (js_string token),
                          cl_username := username,
                          cl_extraHeaders := map_set AUTH_HEADER (js_string token) (cl_extraHeaders c)\<rparr>)))
                   (\<lambda>_. flushCaches)))))"

text \<open>\<open>logout\<close>; the empty URL or name is the one left out.\<close>

definition logout :: "'w platform \<Rightarrow> string \<Rightarrow> string \<Rightarrow> ('w cl, unit) prog" where
  "logout P serverUrl username =
     pbind (if serverUrl \<noteq> []
            then try_catch (pbind (fetch P (post_json (serverUrl @ ''/grits/v1/auth/logout'')
                     [(''Content-Type'', ''application/json'')]
                     (JObj (if username \<noteq> [] then [(''username'', JStr username)] else []))))
                   (\<lambda>_. ret ())) (\<lambda>_. ret ())
            else ret ()) (\<lambda>_.
     pbind (modify (\<lambda>c. clear_miniRoots (c\<lparr>cl_extraHeaders := map_del AUTH_HEADER (cl_extraHeaders c),
              cl_authToken := None, cl_username := []\<rparr>)))
       (\<lambda>_. flushCaches))"

definition whoami :: "'w platform \<Rightarrow> string \<Rightarrow> ('w cl, jsv) prog" where
  "whoami P serverUrl = (\<lambda>c.
     try_catch
       (pbind (fetch P \<lparr>rq_method = ''GET'', rq_url = serverUrl @ ''/grits/v1/whoami'',
                 rq_headers = (case cl_authToken c of None \<Rightarrow> [] | Some t \<Rightarrow> [(AUTH_HEADER, t)]),
                 rq_body = None\<rparr>) (\<lambda>res.
          if \<not> resp_ok res then ret (JArr [])
          else pbind (lift_res (resp_json res)) (\<lambda>data.
               pbind (lift_res (js_prop_strict data ''identities'')) (\<lambda>ids. ret (nullish ids (JArr []))))))
       (\<lambda>_. ret (JArr [])) c)"

section \<open>Volumes\<close>

text \<open>\<open>volume(serverUrl, volumeName)\<close>: the key of the volume, created at its first use.\<close>

definition volume :: "string \<Rightarrow> string \<Rightarrow> ('w cl, string) prog" where
  "volume serverUrl volumeName = (\<lambda>c.
     let key = volKey serverUrl volumeName
     in if map_has (cl_volumes c) key then (Inr key, c)
        else (Inr key, c\<lparr>cl_volumes := map_set key (new_vol serverUrl volumeName) (cl_volumes c)\<rparr>))"

text \<open>A method of the volume under a key: its program runs on the client and that volume.\<close>

definition with_volume :: "string \<Rightarrow> ('w cv, 'a) prog \<Rightarrow> ('w cl, 'a) prog" where
  "with_volume key m = (\<lambda>c.
     case map_get (cl_volumes c) key of
       None \<Rightarrow> (Inl (Err_Type ''no such volume''), c)
     | Some v \<Rightarrow> (case m (c, v) of
         (r, (c', v')) \<Rightarrow> (r, c'\<lparr>cl_volumes := map_set key v' (cl_volumes c')\<rparr>)))"

text \<open>
  \<open>fromModule\<close>, from the parts \<open>new URL\<close> gives: origin, host name and path; its result
  is the server, the volume and the path in it.
\<close>

definition fromModule :: "string \<Rightarrow> string \<Rightarrow> string \<Rightarrow> string \<times> string \<times> string" where
  "fromModule origin hostname pathname =
     (origin, ''primary'', ''sites/'' @ hostname @ ''/live/'' @ js_join ''/'' (path_parts pathname))"

definition collect_rows :: "string list \<Rightarrow> 'w cl \<Rightarrow> mirror_stat list \<times> 'w cl" where
  "collect_rows keys c =
     fold (\<lambda>k (rows, c). case map_get (cl_volumes c) k of
        None \<Rightarrow> (rows, c)
      | Some v \<Rightarrow>
          (let (r, mm) = getMirrorStats (vo_mirror v)
           in (rows @ r, c\<lparr>cl_volumes := map_set k (v\<lparr>vo_mirror := resetStats mm\<rparr>) (cl_volumes c)\<rparr>)))
       keys ([], c)"

text \<open>\<open>_collectMirrorStats\<close>: the rows of all volumes, whose byte totals start again from zero.\<close>

definition collectMirrorStats :: "'w cl \<Rightarrow> mirror_stat list \<times> 'w cl" where
  "collectMirrorStats c = collect_rows (map fst (cl_volumes c)) c"

end
