(* ===== verification/Volume.thy ===== *)
theory Volume
  imports Client_State
begin

text \<open>
  \<open>GritsVolume\<close> and \<open>GritsFile\<close> of grits/GritsClient.js: server communication, the caches in front
  of it, path lookup by walking cached directories and by asking the server, linking with upload
  of missing blobs, and prefetching.

  Concurrency: a method runs its awaits in order. Where the code starts work without
  awaiting it, the rest of that work is a definition of its own, to be run at any later time:
  \<open>drain_step\<close> (one round of \<open>_drain\<close>) and \<open>fetchVolumeConfig\<close>. The outcome of the race
  between the local walk and the server in \<open>_lookup_internal\<close> is an argument.
\<close>

section \<open>The service worker hash\<close>

definition getServiceWorkerHash :: "'w cv \<Rightarrow> string option option" where
  "getServiceWorkerHash = (\<lambda>(c, v). map_get (cl_hashes c) (vo_serverUrl v))"

definition trim :: "string \<Rightarrow> string" where
  "trim s = rev (dropWhile is_ws (rev (dropWhile is_ws s)))"

text \<open>
  The two cases of \<open>_updateServiceWorkerHash\<close> that act: a worker of another build answered, or
  the server has a worker and none answered. A header that is absent or empty is falsy.
\<close>

definition given :: "string option \<Rightarrow> bool" where
  "given h \<longleftrightarrow> (case h of None \<Rightarrow> False | Some s \<Rightarrow> s \<noteq> [])"

definition sw_answered :: "response \<Rightarrow> bool" where
  "sw_answered resp \<longleftrightarrow> header_get resp ''X-Grits-SW-Controlled'' = Some ''1''"

definition sw_stale :: "response \<Rightarrow> bool" where
  "sw_stale resp \<longleftrightarrow> sw_answered resp \<and> given (header_get resp ''X-Grits-SW-Self-Hash'')
     \<and> given (header_get resp ''X-Grits-Sw-Hash'')
     \<and> header_get resp ''X-Grits-SW-Self-Hash'' \<noteq> header_get resp ''X-Grits-Sw-Hash''"

definition sw_available :: "response \<Rightarrow> bool" where
  "sw_available resp \<longleftrightarrow> \<not> sw_answered resp \<and> given (header_get resp ''X-Grits-Sw-Hash'')"

definition sw_cooldown :: "'w cl \<Rightarrow> bool" where
  "sw_cooldown c \<longleftrightarrow> (\<exists>k \<in> set (cl_cookies c). starts_with ''grits-sw-loading='' (trim k))"

definition updateServiceWorkerHash :: "response \<Rightarrow> ('w cv, unit) prog" where
  "updateServiceWorkerHash resp = modify (\<lambda>(c, v).
     let c1 = c\<lparr>cl_hashes := map_set (vo_serverUrl v) (header_get resp ''X-Grits-Sw-Hash'') (cl_hashes c)\<rparr>
     in if \<not> cl_window c then (c1, v)
        else if sw_stale resp
        then (if \<not> cl_swReloadTriggered c1
              then (c1\<lparr>cl_swReloadTriggered := True, cl_effects := cl_effects c1 @ [PE_reload]\<rparr>, v)
              else (c1, v))
        else if sw_available resp
        then (if sw_cooldown c1 then (c1, v)
              else if cl_swRegistrationAttempted c1 then (c1, v)
              else (c1\<lparr>cl_swRegistrationAttempted := True,
                       cl_cookies := cl_cookies c1 @ [''grits-sw-loading=1''],
                       cl_effects := cl_effects c1 @ [PE_register ''/grits-serviceworker.js'']\<rparr>, v))
        else (c1, v))"

definition serverHeaders :: "(string \<times> string) list \<Rightarrow> 'w cl \<Rightarrow> (string \<times> string) list" where
  "serverHeaders extra c = fold (\<lambda>(k, v). map_set k v) extra (cl_extraHeaders c)"

section \<open>Blobs\<close>

definition server_blob_url :: "vol \<Rightarrow> string \<Rightarrow> string" where
  "server_blob_url v cid = vo_serverUrl v @ ''/grits/v1/blob/'' @ cid"

definition fetch_v :: "'w platform \<Rightarrow> (vol \<Rightarrow> 'w cl \<Rightarrow> request) \<Rightarrow> ('w cv, response) prog" where
  "fetch_v P rq = (\<lambda>(c, v). on_cl (fetch P (rq v c)) (c, v))"

definition serverHasBlob :: "'w platform \<Rightarrow> string \<Rightarrow> ('w cv, bool) prog" where
  "serverHasBlob P cid =
     try_catch
       (pbind (fetch_v P (\<lambda>v c. \<lparr>rq_method = ''HEAD'', rq_url = server_blob_url v cid,
                 rq_headers = serverHeaders [] c, rq_body = None\<rparr>))
          (\<lambda>resp. ret (resp_ok resp)))
       (\<lambda>_. ret False)"

definition uploadBlob :: "'w platform \<Rightarrow> string \<Rightarrow> u8 list \<Rightarrow> ('w cv, string) prog" where
  "uploadBlob P cid bytes =
     pbind (attempt (fetch_v P (\<lambda>v c. \<lparr>rq_method = ''PUT'', rq_url = server_blob_url v cid,
              rq_headers = serverHeaders [] c, rq_body = Some bytes\<rparr>))) (\<lambda>r.
       case r of
         Inl e \<Rightarrow> pbind (serverHasBlob P cid) (\<lambda>present. if present then ret cid else throw e)
       | Inr resp \<Rightarrow>
           if rs_status resp = 204 \<or> resp_ok resp then ret cid
           else throw (Err_Error (''uploadBlob '' @ cid @ '': '' @ nat_str (rs_status resp))))"

definition put :: "'w platform \<Rightarrow> u8 list \<Rightarrow> ('w cv, string) prog" where
  "put P data =
     (let cid = computeCID P data
      in pbind (serverHasBlob P cid) (\<lambda>present.
         pbind (if \<not> present then pbind (uploadBlob P cid data) (\<lambda>_. ret ()) else ret ()) (\<lambda>_.
         pbind (on_cl (blobCachePut cid data)) (\<lambda>_. ret cid))))"

text \<open>\<open>_fetchBlob\<close>: through the mirrors, and verified when the answer is successful.\<close>

definition vol_fetchBlob :: "'w platform \<Rightarrow> string \<Rightarrow> ('w cv, response) prog" where
  "vol_fetchBlob P cid =
     pbind (on_mm (fetchBlob P cid None)) (\<lambda>response.
       if resp_ok response then
         (case verify P response cid of
            Inr _ \<Rightarrow> ret response
          | Inl error \<Rightarrow>
              pbind (on_cl (track (tk_count ''hashVerifyFail'' 1))) (\<lambda>_. ret (reject_response error)))
       else ret response)"

definition record_since :: "'w platform \<Rightarrow> string \<Rightarrow> rat \<Rightarrow> ('w cv, unit) prog" where
  "record_since P name startTime =
     on_cl (pbind (perf_now P) (\<lambda>t. track (tk_record name (t - startTime))))"

text \<open>\<open>get\<close> after its two checks for a service worker.\<close>

definition get_checked :: "'w platform \<Rightarrow> string \<Rightarrow> ('w cv, response) prog" where
  "get_checked P cid =
     pbind (on_cl (perf_now P)) (\<lambda>startTime.
     pbind (on_cl (blobCacheGet cid)) (\<lambda>cached.
       case cached of
         Some bytes \<Rightarrow>
           pbind (record_since P ''blobCacheHit'' startTime) (\<lambda>_. ret (mk_response bytes 200))
       | None \<Rightarrow>
           pbind (vol_fetchBlob P cid) (\<lambda>resp.
             if resp_ok resp then
               pbind (record_since P ''blobCacheMiss'' startTime) (\<lambda>_. ret resp)
             else
               pbind (reads snd) (\<lambda>v.
               throw (Err_Error (''get: CID '' @ cid @ '' not found on '' @ vo_serverUrl v @ ''/''
                 @ vo_volume v))))))"

definition get :: "'w platform \<Rightarrow> string \<Rightarrow> ('w cv, response) prog" where
  "get P cid = (\<lambda>s.
     if cl_swControlled (fst s) then fetch_v P (\<lambda>v _. get_request (server_blob_url v cid)) s
     else case getServiceWorkerHash s of
       Some (Some _) \<Rightarrow> fetch_v P (\<lambda>v _. get_request (server_blob_url v cid)) s
     | _ \<Rightarrow> get_checked P cid s)"

text \<open>\<open>json\<close> and \<open>_fetchMeta\<close> have the same body.\<close>

definition json :: "'w platform \<Rightarrow> string \<Rightarrow> ('w cv, jsv) prog" where
  "json P cid =
     pbind (on_cl (jsonCache_get P cid)) (\<lambda>cached.
       case cached of
         Some d \<Rightarrow> ret d
       | None \<Rightarrow>
           pbind (get P cid) (\<lambda>resp.
           pbind (lift_res (resp_json resp)) (\<lambda>data.
           pbind (on_cl (jsonCache_set P cid data)) (\<lambda>_. ret data))))"

definition fetchMeta :: "'w platform \<Rightarrow> string \<Rightarrow> ('w cv, jsv) prog" where
  "fetchMeta P metaCID = json P metaCID"

section \<open>Mini-roots and the local walk\<close>

text \<open>The first usable mini-root at or above the path: its path and address.\<close>

definition root_usable :: "int \<Rightarrow> rat \<Rightarrow> string \<Rightarrow> string \<times> (string option \<times> int) \<Rightarrow> bool" where
  "root_usable now hardTimeout path = (\<lambda>(rootPath, addr, ts).
     addr \<noteq> None \<and> addr \<noteq> Some [] \<and> \<not> of_int (now - ts) > hardTimeout
     \<and> (rootPath = [] \<or> path = rootPath \<or> starts_with (rootPath @ [slash]) path))"

definition findMiniRoot :: "int \<Rightarrow> string \<Rightarrow> vol \<Rightarrow> (string \<times> string) option" where
  "findMiniRoot now path v =
     map_option (\<lambda>(rootPath, addr, ts). (rootPath, or_else addr []))
       (find (root_usable now (vo_hardTimeout v) path) (vo_miniRoots v))"

definition resetRoot :: "vol \<Rightarrow> vol" where
  "resetRoot v = v\<lparr>vo_miniRoots := map (\<lambda>(p, addr, ts). (p, None, ts)) (vo_miniRoots v)\<rparr>"

text \<open>What a lookup finds: the metadata address, the content address and the size.\<close>

record info =
  in_metadataHash :: string
  in_contentHash :: jsv
  in_contentSize :: jsv

datatype walk = Hit info | Partial string string

text \<open>
  The loop of \<open>_fastWalk\<close> over the parts of the path, with the reader of cached blobs as an
  argument (\<open>_unmarshal\<close> in the code). The signal it tests is aborted only when the server's answer
  has decided the race, so no walk whose result counts is aborted.
\<close>

fun walk_parts :: "(string \<Rightarrow> ('s, jsv) prog) \<Rightarrow> string list \<Rightarrow> string \<Rightarrow> ('s, walk) prog" where
  "walk_parts read [] metaHash =
     pbind (read metaHash) (\<lambda>finalMeta.
       if \<not> truthy finalMeta then ret (Partial metaHash [])
       else ret (Hit \<lparr>in_metadataHash = metaHash, in_contentHash = js_prop finalMeta ''contentHash'',
                      in_contentSize = nullish (js_prop finalMeta ''size'') (JNum 0)\<rparr>))"
| "walk_parts read (part # rest) metaHash =
     pbind (read metaHash) (\<lambda>meta.
       if \<not> truthy meta then ret (Partial metaHash (js_join ''/'' (part # rest)))
       else if js_prop meta ''type'' \<noteq> JStr ''dir''
       then throw (Err_Error (''fastWalk: expected dir at '' @ part))
       else
         pbind (read (js_string (js_prop meta ''contentHash''))) (\<lambda>dir.
           if \<not> truthy dir then ret (Partial metaHash (js_join ''/'' (part # rest)))
           else if \<not> truthy (js_prop dir part)
           then throw (Err_Error (''fastWalk: '' @ part @ '' not found in directory''))
           else
             (let childMetaHash = js_string (js_prop dir part) in
              pbind (read childMetaHash) (\<lambda>childMeta.
                if \<not> truthy childMeta then ret (Partial childMetaHash (js_join ''/'' rest))
                else walk_parts read rest childMetaHash))))"

text \<open>The parts of the remainder below the mini-root: \<open>remainder ? remainder.split('/') : []\<close>.\<close>

definition walk_remainder :: "string \<Rightarrow> string \<Rightarrow> string list" where
  "walk_remainder path rootPath =
     (let remainder = (if rootPath = [] then path else drop (length rootPath + 1) path)
      in if remainder = [] then [] else js_split slash remainder)"

definition fastWalk :: "'w platform \<Rightarrow> string \<Rightarrow> string \<Rightarrow> string \<Rightarrow> ('w cl, walk) prog" where
  "fastWalk P path rootPath addr = walk_parts (unmarshal P) (walk_remainder path rootPath) addr"

section \<open>Prefetching\<close>

definition startPrefetch :: "string list \<Rightarrow> ('w cv, unit) prog" where
  "startPrefetch addrs = modify (\<lambda>(c, v).
     if cl_swControlled c then (c, v)
     else (c, (fold (\<lambda>a v. if a \<noteq> [] \<and> \<not> map_has (vo_inFlight v) a
                           then v\<lparr>vo_prefetchQueue := vo_prefetchQueue v @ [a],
                                  vo_inFlight := map_set a True (vo_inFlight v)\<rparr>
                           else v) addrs v)\<lparr>vo_processing := True\<rparr>))"

text \<open>The \<open>try\<close> block of a round of \<open>_drain\<close>: the blob, and the listing if it is a directory.\<close>

definition prefetch_store :: "'w platform \<Rightarrow> string \<Rightarrow> (jsv \<Rightarrow> ('w cv, unit) prog) \<Rightarrow> ('w cv, unit) prog" where
  "prefetch_store P hash continue =
     pbind (vol_fetchBlob P hash) (\<lambda>resp.
       if \<not> resp_ok resp then ret ()
       else
         pbind (lift_res (resp_json resp)) (\<lambda>data.
         pbind (on_cl (jsonCache_set P hash data)) (\<lambda>_.
         pbind (on_cl (track (tk_count ''prefetchSuccess'' 1))) (\<lambda>_. continue data))))"

definition prefetch_one :: "'w platform \<Rightarrow> string \<Rightarrow> ('w cv, unit) prog" where
  "prefetch_one P hash = (\<lambda>s.
     if map_has (cl_jsonCache (fst s)) hash then ret () s
     else
       prefetch_store P hash (\<lambda>data.
         pbind (lift_res (js_prop_strict data ''type'')) (\<lambda>ty.
         pbind (reads (\<lambda>s. map_has (cl_jsonCache (fst s)) (js_string (js_prop data ''contentHash'')))) (\<lambda>known.
           if ty = JStr ''dir'' \<and> \<not> known
           then prefetch_store P (js_string (js_prop data ''contentHash'')) (\<lambda>_. ret ())
           else ret ()))) s)"

text \<open>
  One round of the loop of \<open>_drain\<close>. Exceptions are swallowed, and the address leaves the
  in-flight map in every case. With an empty queue the worker ends.
\<close>

definition drain_step :: "'w platform \<Rightarrow> ('w cv, unit) prog" where
  "drain_step P = (\<lambda>(c, v).
     case vo_prefetchQueue v of
       [] \<Rightarrow> (Inr (), (c, v\<lparr>vo_processing := False\<rparr>))
     | hash # rest \<Rightarrow>
         pbind (try_catch (prefetch_one P hash) (\<lambda>_. ret ()))
           (\<lambda>_. on_vol (\<lambda>v. v\<lparr>vo_inFlight := map_del hash (vo_inFlight v)\<rparr>))
           (c, v\<lparr>vo_prefetchQueue := rest\<rparr>))"

section \<open>Answers of the server\<close>

text \<open>The fields of an entry of \<open>paths\<close> as strings; what is missing is empty.\<close>

definition field :: "string \<Rightarrow> jsv \<Rightarrow> string" where
  "field k e = (case js_prop e k of JUndef \<Rightarrow> [] | JNull \<Rightarrow> [] | v \<Rightarrow> js_string v)"

text \<open>\<open>result?.paths?.length\<close>, then \<open>filter\<close>: no list is no paths, and a null entry throws.\<close>

definition response_paths :: "jsv \<Rightarrow> err + jsv list" where
  "response_paths result =
     (case js_prop result ''paths'' of
        JArr es \<Rightarrow> if JNull \<in> set es \<or> JUndef \<in> set es
                    then Inl (Err_Type ''Cannot read properties of null (reading error)'') else Inr es
      | JStr s \<Rightarrow> if s = [] then Inr [] else Inl (Err_Type ''result.paths.filter is not a function'')
      | _ \<Rightarrow> Inr [])"

definition successPaths :: "jsv list \<Rightarrow> (string \<times> string) list" where
  "successPaths es =
     map (\<lambda>e. (field ''path'' e, field ''addr'' e))
       (filter (\<lambda>e. \<not> truthy (js_prop e ''error'') \<and> truthy (js_prop e ''addr'')) es)"

text \<open>\<open>_miniRoots\<close> rebuilt: the successful paths without a successful proper ancestor.\<close>

definition new_miniRoots :: "int \<Rightarrow> (string \<times> string) list \<Rightarrow> (string \<times> (string option \<times> int)) list" where
  "new_miniRoots now ok =
     fold (\<lambda>(p, a) roots.
       if \<exists>(q, _) \<in> set ok. q \<noteq> p \<and> isAncestorOrSelf q p then roots
       else map_set p (Some a, now) roots) ok []"

definition ingestLookupResponse :: "'w platform \<Rightarrow> jsv \<Rightarrow> ('w cv, unit) prog" where
  "ingestLookupResponse P result =
     pbind (lift_res (response_paths result)) (\<lambda>es.
       if es = [] then ret ()
       else
         pbind (on_cl (date_now P)) (\<lambda>now.
         pbind (on_vol (\<lambda>v. v\<lparr>vo_miniRoots := new_miniRoots now (successPaths es)\<rparr>)) (\<lambda>_.
         startPrefetch (map snd (successPaths es)))))"

section \<open>Asking the server\<close>

definition live_roots :: "int \<Rightarrow> string \<Rightarrow> vol \<Rightarrow> string list" where
  "live_roots now path v =
     map fst (filter (\<lambda>(rootPath, _, ts). now - ts < MINIROOT_TTL \<and> rootPath \<noteq> path) (vo_miniRoots v))"

definition lookup_request :: "string list \<Rightarrow> vol \<Rightarrow> 'w cl \<Rightarrow> request" where
  "lookup_request paths v c =
     post_json (vo_serverUrl v @ ''/grits/v1/lookup'')
       (serverHeaders [(''Content-Type'', ''application/json'')] c)
       (JObj [(''volume'', JStr (vo_volume v)), (''paths'', JArr (map JStr paths))])"

text \<open>The path a 403 names: that of its JSON body, or the one asked for if it has no JSON body.\<close>

definition denied_path :: "string \<Rightarrow> response \<Rightarrow> err + string" where
  "denied_path path resp =
     (case resp_json resp of
        Inl _ \<Rightarrow> Inr path
      | Inr d \<Rightarrow> (case js_prop_strict d ''path'' of Inl e \<Rightarrow> Inl e | Inr p \<Rightarrow> Inr (js_string p)))"

definition entry_info :: "jsv \<Rightarrow> info" where
  "entry_info e = \<lparr>in_metadataHash = field ''addr'' e, in_contentHash = js_prop e ''contentHash'',
     in_contentSize = nullish (js_prop e ''size'') (JNum 0)\<rparr>"

text \<open>What \<open>_slowLookup\<close> makes of the entry it finds for its path.\<close>

definition slow_entry :: "string \<Rightarrow> jsv option \<Rightarrow> err + info option" where
  "slow_entry path entry =
     (case entry of
        None \<Rightarrow> Inr None
      | Some e \<Rightarrow>
          if js_prop e ''error'' = JStr ''not_found'' then Inr None
          else if js_prop e ''error'' = JStr ''access_denied'' then Inl (Err_AccessDenied path)
          else if truthy (js_prop e ''error'')
          then Inl (Err_Error (''lookup: unexpected error at '' @ path @ '': '' @ js_string (js_prop e ''error'')))
          else Inr (Some (entry_info e)))"

definition slowLookup :: "'w platform \<Rightarrow> string \<Rightarrow> ('w cv, info option) prog" where
  "slowLookup P path =
     pbind (on_cl (date_now P)) (\<lambda>now.
     pbind (reads (\<lambda>s. path # live_roots now path (snd s))) (\<lambda>paths.
     pbind (fetch_v P (lookup_request paths)) (\<lambda>resp.
     pbind (updateServiceWorkerHash resp) (\<lambda>_.
       if rs_status resp = 403 then
         pbind (lift_res (denied_path path resp)) (\<lambda>p. throw (Err_AccessDenied p))
       else if \<not> resp_ok resp then ret None
       else
         pbind (lift_res (resp_json resp)) (\<lambda>result.
         pbind (ingestLookupResponse P result) (\<lambda>_.
         pbind (on_vol (\<lambda>v. v\<lparr>vo_configFetched := True\<rparr>)) (\<lambda>_.
         pbind (lift_res (js_prop_strict result ''paths'')) (\<lambda>_.
         pbind (lift_res (response_paths result)) (\<lambda>es.
           if es = [] then throw (Err_Error (''lookup: No paths returned looking up '' @ path))
           else lift_res (slow_entry path (find (\<lambda>e. js_prop e ''path'' = JStr path) es)))))))))))"

section \<open>Lookup\<close>

text \<open>
  The outcomes of the race: the walk settles before the 30 ms are over; the server is
  asked, but the walk settles before it answers; the server answers first. A walk that ends early
  or fails never settles its promise, so then the server decides.
\<close>

datatype race = Fast_first | Fast_late | Slow_first

text \<open>The slow path with its \<open>catch\<close>: an access error removes the mini-root of the denied path.\<close>

definition slow_or_forget :: "'w platform \<Rightarrow> string \<Rightarrow> ('w cv, info option) prog" where
  "slow_or_forget P n =
     try_catch (slowLookup P n) (\<lambda>e.
       case e of
         Err_AccessDenied p \<Rightarrow>
           pbind (on_vol (\<lambda>v. v\<lparr>vo_miniRoots := map_del p (vo_miniRoots v)\<rparr>)) (\<lambda>_. throw e)
       | _ \<Rightarrow> throw e)"

definition lookup_internal :: "'w platform \<Rightarrow> race \<Rightarrow> string \<Rightarrow> ('w cv, info option) prog" where
  "lookup_internal P race path = (\<lambda>s.
     let n = normalizePath path in
     if cl_swControlled (fst s) then slowLookup P n s
     else case findMiniRoot (p_now P (cl_world (fst s))) n (snd s) of
       None \<Rightarrow> slow_or_forget P n s
     | Some (rootPath, addr) \<Rightarrow>
         pbind (on_cl (perf_now P)) (\<lambda>raceStart.
         pbind (attempt (on_cl (fastWalk P n rootPath addr))) (\<lambda>fast.
           case (fast, race) of
             (Inr (Hit i), Fast_first) \<Rightarrow>
               pbind (record_since P ''fastWalkHit'' raceStart) (\<lambda>_. ret (Some i))
           | (Inr (Hit i), Fast_late) \<Rightarrow>
               pbind (record_since P ''fastWalkHit'' raceStart) (\<lambda>_.
               pbind (attempt (slow_or_forget P n)) (\<lambda>_. ret (Some i)))
           | _ \<Rightarrow>
               pbind (slow_or_forget P n) (\<lambda>result.
                 case result of
                   None \<Rightarrow> ret None
                 | Some i \<Rightarrow>
                     pbind (record_since P ''slowLookup'' raceStart) (\<lambda>_.
                     pbind (on_cl (pbind (perf_now P) (\<lambda>t. track (tk_trackContentUrl n (t - raceStart))))) (\<lambda>_.
                     ret (Some i)))))) s)"

definition lookup :: "'w platform \<Rightarrow> race \<Rightarrow> string \<Rightarrow> ('w cv, gfile) prog" where
  "lookup P race path =
     (let normalized = strip_lead path in
      pbind (lookup_internal P race normalized) (\<lambda>info.
        case info of
          None \<Rightarrow> pbind (reads snd) (\<lambda>v.
            throw (Err_Error (''lookup: //'' @ vo_volume v @ ''/'' @ normalized @ '': not found'')))
        | Some i \<Rightarrow>
            pbind (fetchMeta P (in_metadataHash i)) (\<lambda>meta.
            ret \<lparr>gf_cid = in_metadataHash i, gf_meta = meta, gf_path = Some normalized\<rparr>)))"

definition fileForCID :: "'w platform \<Rightarrow> string \<Rightarrow> ('w cv, gfile) prog" where
  "fileForCID P metaCID =
     pbind (fetchMeta P metaCID) (\<lambda>meta. ret \<lparr>gf_cid = metaCID, gf_meta = meta, gf_path = None\<rparr>)"

text \<open>The background part of \<open>_fetchVolumeConfig\<close>; every exception is swallowed.\<close>

definition fetchVolumeConfig :: "'w platform \<Rightarrow> race \<Rightarrow> ('w cv, unit) prog" where
  "fetchVolumeConfig P race =
     try_catch
       (pbind (lookup_internal P race ''.grits/volume.json'') (\<lambda>info.
          case info of
            None \<Rightarrow> on_vol (\<lambda>v. v\<lparr>vo_hardTimeout := DEFAULT_HARD_TIMEOUT\<rparr>)
          | Some i \<Rightarrow>
              pbind (vol_fetchBlob P (js_string (in_contentHash i))) (\<lambda>resp.
                if \<not> resp_ok resp then ret ()
                else
                  pbind (lift_res (resp_json resp)) (\<lambda>cfg.
                    case js_prop cfg ''clientCacheDuration'' of
                      JStr d \<Rightarrow>
                        (case parseDuration d of
                           None \<Rightarrow> ret ()
                         | Some ms \<Rightarrow> if ms > 0 then on_vol (\<lambda>v. v\<lparr>vo_hardTimeout := ms\<rparr>) else ret ())
                    | _ \<Rightarrow> ret ()))))
       (\<lambda>_. ret ())"

section \<open>Linking\<close>

definition req_json :: "link_arg \<Rightarrow> jsv" where
  "req_json r =
     JObj [(''path'', JStr (normalizePath (la_path r))), (''addr'', JStr (or_else (la_addr r) [])),
           (''prevAddr'', JStr (or_else (la_prev r) [])), (''assert'', JNum (or_else (la_assert r) 0))]"

definition link_request :: "link_arg list \<Rightarrow> vol \<Rightarrow> 'w cl \<Rightarrow> request" where
  "link_request requests v c =
     post_json (vo_serverUrl v @ ''/grits/v1/link'')
       (serverHeaders [(''Content-Type'', ''application/json'')] c)
       (JObj [(''volume'', JStr (vo_volume v)), (''requests'', JArr (map req_json requests))])"

definition uploadMissingBlob :: "'w platform \<Rightarrow> string \<Rightarrow> ('w cv, unit) prog" where
  "uploadMissingBlob P addr =
     pbind (on_cl (blobCacheGet addr)) (\<lambda>cached.
       case cached of
         Some bytes \<Rightarrow> pbind (uploadBlob P addr bytes) (\<lambda>_. ret ())
       | None \<Rightarrow>
           pbind (serverHasBlob P addr) (\<lambda>present.
             if present then ret ()
             else throw (Err_Error (''multiLink: server needs blob '' @ addr
               @ '' but it is not available locally or on the server''))))"

text \<open>What a round of the loop ends with: a retry after the upload of a missing blob, or the outcome.\<close>

datatype link_round = Retry string | Done "err + jsv"

text \<open>The status handling of a round, after the 422 of a missing blob has been singled out.\<close>

definition link_failure :: "response \<Rightarrow> err" where
  "link_failure resp =
     (let msg = (case resp_text resp of Inl _ \<Rightarrow> [] | Inr t \<Rightarrow> t)
      in if rs_status resp = 409 then Err_Assertion msg
         else Err_Error (''multiLink: '' @ nat_str (rs_status resp) @ '' '' @ msg))"

text \<open>
  One round: after a 422 with another error the body is already used, so \<open>resp.text()\<close> rejects and the
  message is the status text.
\<close>

definition link_round :: "'w platform \<Rightarrow> link_arg list \<Rightarrow> string list \<Rightarrow> ('w cv, link_round) prog" where
  "link_round P requests seenMissing =
     pbind (fetch_v P (link_request requests)) (\<lambda>resp.
     pbind (updateServiceWorkerHash resp) (\<lambda>_.
       if resp_ok resp then
         pbind (lift_res (resp_json resp)) (\<lambda>result.
         pbind (ingestLookupResponse P result) (\<lambda>_. ret (Done (Inr result))))
       else if rs_status resp = 422 then
         pbind (lift_res (resp_json resp)) (\<lambda>body.
         pbind (lift_res (js_prop_strict body ''error'')) (\<lambda>error.
           if error = JStr ''missing_blob'' then
             (let missingAddr = js_string (js_prop body ''missingAddr'') in
              if missingAddr \<in> set seenMissing
              then throw (Err_Error (''multiLink: stuck, server repeatedly requested missing blob '' @ missingAddr))
              else pbind (uploadMissingBlob P missingAddr) (\<lambda>_. ret (Retry missingAddr)))
           else throw (Err_Error ''multiLink: 422 '')))
       else throw (link_failure resp)))"

text \<open>\<open>_serverMultiLink\<close>: \<open>None\<close> if the loop never ends.\<close>

partial_function (option) link_loop ::
  "'w platform \<Rightarrow> link_arg list \<Rightarrow> string list \<Rightarrow> 'w cv \<Rightarrow> ((err + jsv) \<times> 'w cv) option" where
  "link_loop P requests seenMissing s =
     (case link_round P requests seenMissing s of
        (Inl e, s') \<Rightarrow> Some (Inl e, s')
      | (Inr (Done r), s') \<Rightarrow> Some (r, s')
      | (Inr (Retry a), s') \<Rightarrow> link_loop P requests (seenMissing @ [a]) s')"

definition serverMultiLink :: "'w platform \<Rightarrow> link_arg list \<Rightarrow> 'w cv \<Rightarrow> ((err + jsv) \<times> 'w cv) option" where
  "serverMultiLink P requests s = link_loop P requests [] s"

definition link_of :: "string \<Rightarrow> string \<Rightarrow> link_arg" where
  "link_of metaCID path = \<lparr>la_path = path, la_addr = Some metaCID, la_prev = None, la_assert = None\<rparr>"

text \<open>\<open>link\<close> of an identifier or a file's identifier; \<open>multiLink\<close> is direct outside desync mode.\<close>

definition link :: "'w platform \<Rightarrow> string \<Rightarrow> string \<Rightarrow> 'w cv \<Rightarrow> ((err + jsv) \<times> 'w cv) option" where
  "link P metaCID path = serverMultiLink P [link_of metaCID path]"

section \<open>Files\<close>

definition contentCID :: "gfile \<Rightarrow> string" where
  "contentCID f = js_string (js_prop (gf_meta f) ''contentHash'')"

definition file_size :: "gfile \<Rightarrow> jsv" where
  "file_size f = js_prop (gf_meta f) ''size''"

definition isDir :: "gfile \<Rightarrow> bool" where
  "isDir f \<longleftrightarrow> js_prop (gf_meta f) ''type'' = JStr ''dir''"

definition isFile :: "gfile \<Rightarrow> bool" where
  "isFile f \<longleftrightarrow> js_prop (gf_meta f) ''type'' = JStr ''blob''"

definition file_get :: "'w platform \<Rightarrow> gfile \<Rightarrow> ('w cv, response) prog" where
  "file_get P f = get P (contentCID f)"

definition file_bytes :: "'w platform \<Rightarrow> gfile \<Rightarrow> ('w cv, u8 list) prog" where
  "file_bytes P f = pbind (file_get P f) (\<lambda>r. lift_res (resp_bytes r))"

definition file_text :: "'w platform \<Rightarrow> gfile \<Rightarrow> ('w cv, string) prog" where
  "file_text P f = pbind (file_get P f) (\<lambda>r. lift_res (resp_text r))"

definition file_json :: "'w platform \<Rightarrow> gfile \<Rightarrow> ('w cv, jsv) prog" where
  "file_json P f = json P (contentCID f)"

definition children :: "'w platform \<Rightarrow> gfile \<Rightarrow> ('w cv, (string \<times> gfile) list) prog" where
  "children P f =
     (if \<not> isDir f then throw (Err_Error ''children: not a directory'')
      else pbind (file_json P f) (\<lambda>listing.
        map_each (\<lambda>(name, metaCID).
          pbind (fetchMeta P (js_string metaCID)) (\<lambda>meta.
          ret (name, \<lparr>gf_cid = js_string metaCID, gf_meta = meta,
                      gf_path = map_option (\<lambda>p. p @ ''/'' @ name) (gf_path f)\<rparr>))) (entries listing)))"

definition indexHtml :: "'w platform \<Rightarrow> gfile \<Rightarrow> ('w cv, gfile) prog" where
  "indexHtml P f =
     (if \<not> isDir f then throw (Err_Error ''indexHtml: not a directory'')
      else pbind (file_json P f) (\<lambda>listing.
        if \<not> truthy (js_prop listing ''index.html'')
        then throw (Err_Error ''indexHtml: no index.html in this directory'')
        else
          (let indexCID = js_string (js_prop listing ''index.html'') in
           pbind (fetchMeta P indexCID) (\<lambda>meta.
           ret \<lparr>gf_cid = indexCID, gf_meta = meta, gf_path = None\<rparr>))))"

section \<open>Local assertion checks\<close>

text \<open>\<open>_checkAssertions\<close>: the message of the first failing assertion.\<close>

definition flag :: "int \<Rightarrow> int \<Rightarrow> bool" where
  "flag a b \<longleftrightarrow> and a b \<noteq> 0"

definition checkAssertions :: "int \<Rightarrow> string \<Rightarrow> gfile option \<Rightarrow> string option" where
  "checkAssertions assert prevAddr currentFile =
     (let actualAddr = (case currentFile of None \<Rightarrow> [] | Some f \<Rightarrow> gf_cid f) in
      if flag assert ASSERT_PREV_MATCHES \<and> actualAddr \<noteq> prevAddr
      then Some (''ASSERT_PREV_MATCHES failed: expected prev='' @ prevAddr @ '', got '' @ actualAddr)
      else if flag assert ASSERT_IS_BLOB \<and> (case currentFile of None \<Rightarrow> True | Some f \<Rightarrow> \<not> isFile f)
      then Some ''ASSERT_IS_BLOB failed: path is not a blob''
      else if flag assert ASSERT_IS_TREE \<and> (case currentFile of None \<Rightarrow> True | Some f \<Rightarrow> \<not> isDir f)
      then Some ''ASSERT_IS_TREE failed: path is not a directory''
      else if flag assert ASSERT_IS_NONEMPTY
              \<and> (case currentFile of None \<Rightarrow> True | Some f \<Rightarrow> file_size f = JNum 0)
      then Some ''ASSERT_IS_NONEMPTY failed: path is absent or empty''
      else None)"

end
