(* ===== verification/Volume_Cache.thy ===== *)
theory Volume_Cache
  imports Volume
begin

text \<open>
  Integrity of the two client caches. What a cache holds under an identifier has that identifier,
  whatever the server and its mirrors answer, as long as no server of the client has a
  service worker module: with one, \<open>get\<close> takes the server's bytes unchecked. The theory also has the
  read-back of synthesised files and directories.
\<close>

section \<open>The invariant\<close>

text \<open>The data named by an identifier: what some bytes with that identifier parse to.\<close>

definition names :: "'w platform \<Rightarrow> string \<Rightarrow> jsv \<Rightarrow> bool" where
  "names P h d \<longleftrightarrow> (\<exists>bytes. computeCID P bytes = h \<and> json_of_bytes bytes = Some d)"

definition cache_ok :: "'w platform \<Rightarrow> 'w cl \<Rightarrow> bool" where
  "cache_ok P c \<longleftrightarrow>
     (\<forall>m cid bytes. cl_blobCache c = Some m \<and> map_get m cid = Some bytes \<longrightarrow> computeCID P bytes = cid)
   \<and> (\<forall>h d t. map_get (cl_jsonCache c) h = Some (d, t) \<longrightarrow> names P h d)"

definition no_sw :: "'w cl \<Rightarrow> bool" where
  "no_sw c \<longleftrightarrow> \<not> cl_swControlled c \<and> (\<forall>u h. map_get (cl_hashes c) u = Some h \<longrightarrow> h = None)"

definition safe :: "'w platform \<Rightarrow> 'w cl \<Rightarrow> bool" where
  "safe P c \<longleftrightarrow> cache_ok P c \<and> no_sw c"

definition safe_v :: "'w platform \<Rightarrow> 'w cv \<Rightarrow> bool" where
  "safe_v P s \<longleftrightarrow> safe P (fst s)"

text \<open>The servers have no service worker module: no response carries its hash.\<close>

definition no_sw_header :: "'w platform \<Rightarrow> bool" where
  "no_sw_header P \<longleftrightarrow>
     (\<forall>rq w r w'. p_fetch P rq w = (Inr r, w') \<longrightarrow> header_get r ''X-Grits-Sw-Hash'' = None)"

named_theorems safe_intros \<open>programs that keep the caches sound\<close>

lemma safe_upd:
  "cl_blobCache c' = cl_blobCache c \<Longrightarrow> cl_jsonCache c' = cl_jsonCache c \<Longrightarrow> cl_hashes c' = cl_hashes c \<Longrightarrow>
    cl_swControlled c' = cl_swControlled c \<Longrightarrow> safe P c' = safe P c"
  by (simp add: safe_def cache_ok_def no_sw_def)

lemma safe_fields [simp]:
  "safe P (c\<lparr>cl_world := w\<rparr>) = safe P c" "safe P (c\<lparr>cl_tracker := t\<rparr>) = safe P c"
  "safe P (c\<lparr>cl_volumes := vs\<rparr>) = safe P c"
  by (rule safe_upd; simp)+

lemma safe_json: "safe P c \<Longrightarrow> names P h d \<Longrightarrow> safe P (c\<lparr>cl_jsonCache := map_set h (d, t) (cl_jsonCache c)\<rparr>)"
  by (auto simp: safe_def cache_ok_def no_sw_def)

lemma safe_blob: "safe P c \<Longrightarrow> computeCID P bytes = cid \<Longrightarrow>
    safe P (c\<lparr>cl_blobCache := map_option (map_set cid bytes) (cl_blobCache c)\<rparr>)"
  by (auto simp: safe_def cache_ok_def no_sw_def split: if_splits)

section \<open>Client operations\<close>

lemma keep_fetch [safe_intros]: "preserved (safe P) (fetch P rq)"
  by (simp add: preserved_def fetch_def split: prod.split)

lemma keep_date [safe_intros]: "preserved (safe P) (date_now Q)"
  by (simp add: date_now_def)

lemma keep_perf [safe_intros]: "preserved (safe P) (perf_now Q)"
  by (simp add: perf_now_def)

lemma keep_iso [safe_intros]: "preserved (safe P) (isoNow Q)"
  by (simp add: isoNow_def)

lemma keep_track [safe_intros]: "preserved (safe P) (track f)"
  by (simp add: track_def preserved_def modify_def)

lemma keep_blobGet [safe_intros]: "preserved (safe P) (blobCacheGet cid)"
  by (simp add: blobCacheGet_def)

lemma keep_jsonGet [safe_intros]: "preserved (safe P) (jsonCache_get P h)"
  unfolding preserved_def jsonCache_get_def
  by (auto split: option.split intro!: safe_json) (auto simp: safe_def cache_ok_def)

lemma keep_jsonSet: "names P h d \<Longrightarrow> preserved (safe P) (jsonCache_set P h d)"
  unfolding jsonCache_set_def by (rule preserved_modify) (simp add: safe_json)

lemma keep_blobPut: "computeCID P bytes = cid \<Longrightarrow> preserved (safe P) (blobCachePut cid bytes)"
  unfolding blobCachePut_def by (rule preserved_modify) (simp add: safe_blob)

lemma keep_storeBlob: "computeCID P bytes = cid \<Longrightarrow> preserved (safe P) (storeBlob cid bytes)"
  using keep_blobPut [of P bytes cid] by (auto simp: preserved_def storeBlob_def throw_def)

lemma keep_cachePut [safe_intros]: "preserved (safe P) (cachePut P bytes)"
  unfolding cachePut_def Let_def by (intro preserved_intros keep_storeBlob) simp

lemma keep_flush [safe_intros]: "preserved (safe P) flushCaches"
  unfolding flushCaches_def
  by (rule preserved_modify) (auto simp: safe_def cache_ok_def no_sw_def)

lemma keep_mkfile [safe_intros]: "preserved (safe P) (mkfile P c n)"
  unfolding mkfile_def Let_def by (auto intro!: preserved_intros safe_intros keep_storeBlob)

lemma keep_mkdir [safe_intros]: "preserved (safe P) (mkdir P es)"
  unfolding mkdir_def Let_def by (intro preserved_intros safe_intros keep_storeBlob) simp_all

lemma give_jsonGet: "gives (safe P) (jsonCache_get P h) (\<lambda>r. \<forall>d. r = Some d \<longrightarrow> names P h d)"
  unfolding gives_def
proof (intro allI impI conjI)
  fix s
  assume s: "safe P s"
  show "safe P (snd (jsonCache_get P h s))" by (rule preservedD [OF keep_jsonGet s])
  show "names P h d" if "fst (jsonCache_get P h s) = Inr x" "x = Some d" for x d
    using that s by (auto simp: jsonCache_get_def safe_def cache_ok_def split: option.splits)
qed

lemma give_blobGet: "gives (safe P) (blobCacheGet h) (\<lambda>r. \<forall>b. r = Some b \<longrightarrow> computeCID P b = h)"
  by (auto simp: gives_def blobCacheGet_def reads_def safe_def cache_ok_def split: option.splits)

text \<open>
  Reading a blob for the local walk: the caches stay sound, and data that comes out is named by the
  identifier.
\<close>

lemma give_unmarshal: "gives (safe P) (unmarshal P h) (\<lambda>d. truthy d \<longrightarrow> names P h d)"
  unfolding unmarshal_def
proof (rule gives_bind [OF give_jsonGet])
  fix cached
  assume c: "\<forall>d. cached = Some d \<longrightarrow> names P h d"
  have blob: "gives (safe P) (case blob of None \<Rightarrow> ret JNull
        | Some bytes \<Rightarrow> (case json_of_bytes bytes of None \<Rightarrow> ret JNull
            | Some d \<Rightarrow> pbind (jsonCache_set P h d) (\<lambda>_. ret d))) (\<lambda>d. truthy d \<longrightarrow> names P h d)"
    if "\<forall>b. blob = Some b \<longrightarrow> computeCID P b = h" for blob
    using that
    by (auto split: option.split intro!: gives_ret gives_bind_any keep_jsonSet) (auto simp: names_def)
  show "gives (safe P) (case cached of Some d \<Rightarrow> ret d
      | None \<Rightarrow> pbind (blobCacheGet h) (\<lambda>blob. case blob of None \<Rightarrow> ret JNull
        | Some bytes \<Rightarrow> (case json_of_bytes bytes of None \<Rightarrow> ret JNull
            | Some d \<Rightarrow> pbind (jsonCache_set P h d) (\<lambda>_. ret d)))) (\<lambda>d. truthy d \<longrightarrow> names P h d)"
    using c by (cases cached) (auto intro!: gives_ret gives_bind [OF give_blobGet] blob)
qed

section \<open>Volume operations\<close>

lemma keep_on_cl [safe_intros]: "preserved (safe P) m \<Longrightarrow> preserved (safe_v P) (on_cl m)"
  by (auto simp: preserved_def on_cl_def safe_v_def case_prod_beta)

lemma keep_on_vol [safe_intros]: "preserved (safe_v P) (on_vol f)"
  by (auto simp: on_vol_def preserved_def modify_def safe_v_def)

lemma keep_on_mm [safe_intros]: "preserved (safe_v P) (on_mm m)"
  by (auto simp: on_mm_def preserved_def safe_v_def split: prod.split)

lemma keep_fetch_v [safe_intros]: "preserved (safe_v P) (fetch_v P rq)"
  unfolding fetch_v_def preserved_def using preservedD [OF keep_on_cl [OF keep_fetch]] by (auto split: prod.split)

lemma keep_record_since [safe_intros]: "preserved (safe_v P) (record_since P n t)"
  unfolding record_since_def by (intro preserved_intros safe_intros)

lemma keep_serverHasBlob [safe_intros]: "preserved (safe_v P) (serverHasBlob P cid)"
  unfolding serverHasBlob_def by (intro preserved_intros safe_intros)

lemma keep_uploadBlob [safe_intros]: "preserved (safe_v P) (uploadBlob P cid bytes)"
  unfolding uploadBlob_def
  by (auto intro!: preserved_intros safe_intros split: sum.split)

lemma keep_put [safe_intros]: "preserved (safe_v P) (put P data)"
  unfolding put_def Let_def by (auto intro!: preserved_intros safe_intros keep_blobPut)

lemma keep_vol_fetchBlob [safe_intros]: "preserved (safe_v P) (vol_fetchBlob P cid)"
  unfolding vol_fetchBlob_def by (auto intro!: preserved_intros safe_intros split: sum.split)

lemma reject_not_ok [simp]: "\<not> resp_ok (reject_response e)"
  by (simp add: reject_response_def resp_ok_def)

text \<open>A successful response of \<open>_fetchBlob\<close> has been verified.\<close>

lemma give_vol_fetchBlob:
  "gives (safe_v P) (vol_fetchBlob P cid)
     (\<lambda>resp. resp_ok resp \<longrightarrow> (\<exists>body. resp_bytes resp = Inr body \<and> computeCID P body = cid))"
  unfolding vol_fetchBlob_def
  by (rule gives_bind_any [OF keep_on_mm])
    (auto intro!: gives_ret gives_bind_any safe_intros split: sum.split,
     auto simp: verify_def Let_def split: sum.splits if_splits)

lemma no_hash: "safe_v P s \<Longrightarrow> getServiceWorkerHash s = None \<or> getServiceWorkerHash s = Some None"
  by (cases "map_get (cl_hashes (fst s)) (vo_serverUrl (snd s))")
    (auto simp: getServiceWorkerHash_def case_prod_beta safe_v_def safe_def no_sw_def)

lemma get_is_checked: "safe_v P s \<Longrightarrow> get P cid s = get_checked P cid s"
  using no_hash [of P s] by (auto simp: get_def safe_v_def safe_def no_sw_def)

text \<open>What \<open>get\<close> returns has the identifier asked for.\<close>

definition has_cid :: "'w platform \<Rightarrow> string \<Rightarrow> response \<Rightarrow> bool" where
  "has_cid P cid resp \<longleftrightarrow> (\<exists>body. resp_bytes resp = Inr body \<and> computeCID P body = cid)"

lemma give_get: "gives (safe_v P) (get P cid) (has_cid P cid)"
proof -
  have blob: "gives (safe_v P) (on_cl (blobCacheGet cid)) (\<lambda>r. \<forall>b. r = Some b \<longrightarrow> computeCID P b = cid)"
    using give_blobGet [of P cid] by (auto simp: gives_def on_cl_def safe_v_def case_prod_beta)
  have "gives (safe_v P) (get_checked P cid) (has_cid P cid)"
    unfolding get_checked_def
  proof (intro gives_bind_any [OF keep_on_cl [OF keep_perf]] gives_bind [OF blob])
    fix t cached
    assume c: "\<forall>b. cached = Some b \<longrightarrow> computeCID P b = cid"
    have net: "gives (safe_v P) (pbind (vol_fetchBlob P cid) (\<lambda>resp.
        if resp_ok resp then pbind (record_since P ''blobCacheMiss'' t) (\<lambda>_. ret resp)
        else pbind (reads snd) (\<lambda>v. throw (Err_Error (''get: CID '' @ cid @ '' not found on ''
          @ vo_serverUrl v @ ''/'' @ vo_volume v))))) (has_cid P cid)"
      by (rule gives_bind [OF give_vol_fetchBlob])
        (auto simp: has_cid_def intro!: gives_ret gives_throw gives_bind_any safe_intros)
    show "gives (safe_v P) (case cached of
        Some bytes \<Rightarrow> pbind (record_since P ''blobCacheHit'' t) (\<lambda>_. ret (mk_response bytes 200))
      | None \<Rightarrow> pbind (vol_fetchBlob P cid) (\<lambda>resp.
        if resp_ok resp then pbind (record_since P ''blobCacheMiss'' t) (\<lambda>_. ret resp)
        else pbind (reads snd) (\<lambda>v. throw (Err_Error (''get: CID '' @ cid @ '' not found on ''
          @ vo_serverUrl v @ ''/'' @ vo_volume v))))) (has_cid P cid)"
      using c net
      by (cases cached) (auto intro!: gives_ret gives_bind_any safe_intros
          simp: has_cid_def mk_response_def resp_bytes_def)
  qed
  then show ?thesis by (simp add: gives_def get_is_checked)
qed

lemma keep_get [safe_intros]: "preserved (safe_v P) (get P cid)"
  by (rule gives_preserved [OF give_get])

lemma resp_json_names: "has_cid P cid resp \<Longrightarrow> resp_json resp = Inr d \<Longrightarrow> names P cid d"
  by (auto simp: has_cid_def resp_json_def resp_bytes_def names_def split: sum.splits option.splits)

text \<open>\<open>json\<close> and \<open>_fetchMeta\<close> return data that the identifier names.\<close>

lemma give_json: "gives (safe_v P) (json P cid) (names P cid)"
proof -
  have cached: "gives (safe_v P) (on_cl (jsonCache_get P cid)) (\<lambda>r. \<forall>d. r = Some d \<longrightarrow> names P cid d)"
    using give_jsonGet [of P cid] by (auto simp: gives_def on_cl_def safe_v_def case_prod_beta)
  have net: "gives (safe_v P) (pbind (get P cid) (\<lambda>resp.
      pbind (lift_res (resp_json resp)) (\<lambda>data.
      pbind (on_cl (jsonCache_set P cid data)) (\<lambda>_. ret data)))) (names P cid)"
  proof (rule gives_bind [OF give_get])
    fix resp
    assume "has_cid P cid resp"
    then have "gives (safe_v P) (lift_res (resp_json resp)) (names P cid)"
      by (intro gives_lift_res resp_json_names)
    then show "gives (safe_v P) (pbind (lift_res (resp_json resp)) (\<lambda>data.
        pbind (on_cl (jsonCache_set P cid data)) (\<lambda>_. ret data))) (names P cid)"
      by (rule gives_bind) (auto intro!: gives_ret gives_bind_any keep_on_cl keep_jsonSet)
  qed
  show ?thesis unfolding json_def
    by (rule gives_bind [OF cached]) (auto split: option.split intro!: gives_ret net)
qed

lemma keep_json [safe_intros]: "preserved (safe_v P) (json P cid)"
  by (rule gives_preserved [OF give_json])

lemma give_fetchMeta: "gives (safe_v P) (fetchMeta P cid) (names P cid)"
  by (simp add: fetchMeta_def give_json)

lemma keep_fetchMeta [safe_intros]: "preserved (safe_v P) (fetchMeta P cid)"
  by (simp add: fetchMeta_def keep_json)

section \<open>Prefetching, lookups and links\<close>

lemma keep_startPrefetch [safe_intros]: "preserved (safe_v P) (startPrefetch addrs)"
  unfolding startPrefetch_def by (rule preserved_modify) (auto simp: safe_v_def)

lemma keep_ingest [safe_intros]: "preserved (safe_v P) (ingestLookupResponse P result)"
  unfolding ingestLookupResponse_def by (auto intro!: preserved_intros safe_intros)

lemma give_vol_fetchBlob_ok:
  "gives (safe_v P) (vol_fetchBlob P cid) (\<lambda>resp. resp_ok resp \<longrightarrow> has_cid P cid resp)"
  using give_vol_fetchBlob [of P cid] by (simp add: has_cid_def)

lemma keep_set_names: "names P h d \<Longrightarrow> preserved (safe_v P) (on_cl (jsonCache_set P h d))"
  by (intro safe_intros keep_jsonSet)

lemma keep_prefetch_store:
  assumes "\<And>d. preserved (safe_v P) (continue d)"
  shows "preserved (safe_v P) (prefetch_store P h continue)"
proof -
  have store: "preserved (safe_v P) (pbind (lift_res (resp_json resp)) (\<lambda>data.
      pbind (on_cl (jsonCache_set P h data)) (\<lambda>_.
      pbind (on_cl (track (tk_count ''prefetchSuccess'' 1))) (\<lambda>_. continue data))))"
    if "has_cid P h resp" for resp
    by (rule preserved_bind_gives [OF gives_lift_res [OF resp_json_names [OF that]]])
      (auto intro!: preserved_pbind keep_set_names keep_on_cl [OF keep_track] assms)
  show ?thesis unfolding prefetch_store_def
    by (rule preserved_bind_gives [OF give_vol_fetchBlob_ok]) (simp add: store)
qed

lemma keep_prefetch_one [safe_intros]: "preserved (safe_v P) (prefetch_one P hash)"
proof -
  have "preserved (safe_v P) (prefetch_store P hash (\<lambda>data.
         pbind (lift_res (js_prop_strict data ''type'')) (\<lambda>ty.
         pbind (reads (\<lambda>s. map_has (cl_jsonCache (fst s)) (js_string (js_prop data ''contentHash'')))) (\<lambda>known.
           if ty = JStr ''dir'' \<and> \<not> known
           then prefetch_store P (js_string (js_prop data ''contentHash'')) (\<lambda>_. ret ())
           else ret ()))))"
    by (intro keep_prefetch_store) (auto intro!: preserved_intros keep_prefetch_store)
  then show ?thesis by (auto simp: preserved_def prefetch_one_def prog_simps)
qed

lemma keep_drain_step [safe_intros]: "preserved (safe_v P) (drain_step P)"
proof -
  have "preserved (safe_v P) (pbind (try_catch (prefetch_one P hash) (\<lambda>_. ret ()))
      (\<lambda>_. on_vol (\<lambda>v. v\<lparr>vo_inFlight := map_del hash (vo_inFlight v)\<rparr>)))" for hash
    by (intro preserved_intros safe_intros)
  then show ?thesis
    by (auto simp: preserved_def drain_step_def safe_v_def split: list.split)
qed

text \<open>From here on, the servers must not announce a service worker.\<close>

lemma give_fetch_v:
  "no_sw_header P \<Longrightarrow>
    gives (safe_v P) (fetch_v P rq) (\<lambda>r. header_get r ''X-Grits-Sw-Hash'' = None)"
  using preservedD [OF keep_fetch_v]
  by (fastforce simp: gives_def fetch_v_def on_cl_def fetch_def no_sw_header_def split: prod.splits)

lemma keep_updateHash:
  "header_get r ''X-Grits-Sw-Hash'' = None \<Longrightarrow> preserved (safe_v P) (updateServiceWorkerHash r)"
  unfolding updateServiceWorkerHash_def
  by (rule preserved_modify) (auto simp: safe_v_def safe_def cache_ok_def no_sw_def Let_def split: if_splits)

lemma keep_slowLookup [safe_intros]:
  "no_sw_header P \<Longrightarrow> preserved (safe_v P) (slowLookup P path)"
  unfolding slowLookup_def
  by (intro preserved_pbind safe_intros preserved_reads preserved_bind_gives [OF give_fetch_v])
    (auto intro!: preserved_intros safe_intros keep_updateHash)

lemma keep_slow_or_forget [safe_intros]:
  "no_sw_header P \<Longrightarrow> preserved (safe_v P) (slow_or_forget P n)"
  unfolding slow_or_forget_def by (auto intro!: preserved_intros safe_intros split: err.split)

lemma keep_unmarshal [safe_intros]: "preserved (safe P) (unmarshal P h)"
  by (rule gives_preserved [OF give_unmarshal])

lemma keep_walk:
  assumes "\<And>h. preserved I (read h)"
  shows "preserved I (walk_parts read parts h)"
proof (induction parts arbitrary: h)
  case Nil
  show ?case unfolding walk_parts.simps by (auto intro!: preserved_intros assms)
next
  case (Cons p ps)
  then show ?case unfolding walk_parts.simps Let_def by (auto intro!: preserved_intros assms)
qed

lemma keep_fastWalk [safe_intros]: "preserved (safe P) (fastWalk P path r a)"
  by (simp add: fastWalk_def keep_walk keep_unmarshal)

lemma keep_lookup_internal [safe_intros]:
  assumes "no_sw_header P"
  shows "preserved (safe_v P) (lookup_internal P race path)"
proof -
  have "preserved (safe_v P) (pbind (on_cl (perf_now P)) (\<lambda>raceStart.
      pbind (attempt (on_cl (fastWalk P n rootPath addr))) (\<lambda>fast.
        case (fast, race) of
          (Inr (Hit i), Fast_first) \<Rightarrow>
            pbind (record_since P ''fastWalkHit'' raceStart) (\<lambda>_. ret (Some i))
        | (Inr (Hit i), Fast_late) \<Rightarrow>
            pbind (record_since P ''fastWalkHit'' raceStart) (\<lambda>_.
            pbind (attempt (slow_or_forget P n)) (\<lambda>_. ret (Some i)))
        | _ \<Rightarrow>
            pbind (slow_or_forget P n) (\<lambda>result.
              case result of
                None \<Rightarrow> ret None
              | Some i \<Rightarrow>
                  pbind (record_since P ''slowLookup'' raceStart) (\<lambda>_.
                  pbind (on_cl (pbind (perf_now P) (\<lambda>t. track (tk_trackContentUrl n (t - raceStart))))) (\<lambda>_.
                  ret (Some i)))))))" for n rootPath addr
    by (intro preserved_pbind safe_intros preserved_attempt)
      (auto intro!: preserved_intros safe_intros assms split: sum.split walk.split race.split option.split)
  then show ?thesis
    using preservedD [OF keep_slowLookup [OF assms]] preservedD [OF keep_slow_or_forget [OF assms]]
    by (auto simp: preserved_def lookup_internal_def Let_def split: option.split)
qed

lemma keep_lookup [safe_intros]: "no_sw_header P \<Longrightarrow> preserved (safe_v P) (lookup P race path)"
  unfolding lookup_def Let_def by (auto intro!: preserved_intros safe_intros split: option.split)

lemma keep_fileForCID [safe_intros]: "preserved (safe_v P) (fileForCID P cid)"
  unfolding fileForCID_def by (intro preserved_intros safe_intros)

lemma keep_config [safe_intros]: "no_sw_header P \<Longrightarrow> preserved (safe_v P) (fetchVolumeConfig P race)"
  unfolding fetchVolumeConfig_def
  by (intro preserved_try_catch preserved_pbind safe_intros)
    (auto intro!: preserved_intros safe_intros split: option.split jsv.split)

lemma keep_children [safe_intros]: "preserved (safe_v P) (children P f)"
  unfolding children_def file_json_def
  by (auto intro!: preserved_intros safe_intros split: prod.split)

lemma keep_indexHtml [safe_intros]: "preserved (safe_v P) (indexHtml P f)"
  unfolding indexHtml_def file_json_def Let_def by (auto intro!: preserved_intros safe_intros)

lemma keep_uploadMissing [safe_intros]: "preserved (safe_v P) (uploadMissingBlob P a)"
  unfolding uploadMissingBlob_def by (auto intro!: preserved_intros safe_intros split: option.split)

lemma keep_link_round [safe_intros]:
  "no_sw_header P \<Longrightarrow> preserved (safe_v P) (link_round P rs seen)"
  unfolding link_round_def Let_def
  by (rule preserved_bind_gives [OF give_fetch_v]) (auto intro!: preserved_intros safe_intros keep_updateHash)

text \<open>What every round keeps, the loop keeps.\<close>

lemma link_loop_keeps:
  assumes "link_loop P rs seen s = Some (r, s')" and "\<And>seen. preserved I (link_round P rs seen)" and "I s"
  shows "I s'"
proof -
  define K where "K = (\<lambda>(((Q, qs), xs :: string list), t) y.
    Q = P \<longrightarrow> qs = rs \<longrightarrow> I t \<longrightarrow> I (snd (y :: (err + jsv) \<times> 'a cv)))"
  have "K (((P, rs), seen), s) (r, s')"
  proof (rule link_loop.raw_induct [OF _ assms(1), of K])
    fix loop Q qs xs t y
    assume IH: "\<And>requests seenMissing s b y. loop requests seenMissing s b = Some y \<Longrightarrow>
        K (((requests, seenMissing), s), b) y"
      and run: "(case link_round Q qs xs t of (Inl e, s') \<Rightarrow> Some (Inl e, s')
        | (Inr (Retry a), s') \<Rightarrow> loop Q qs (xs @ [a]) s' | (Inr (Done r), s') \<Rightarrow> Some (r, s')) = Some y"
    show "K (((Q, qs), xs), t) y"
      unfolding K_def case_prod_conv
    proof (intro impI)
      assume eq: "Q = P" "qs = rs" and t: "I t"
      obtain res t' where rd: "link_round P rs xs t = (res, t')" by (metis surj_pair)
      have t': "I t'" by (rule preservedD_eq [OF assms(2) rd t])
      show "I (snd y)"
        using run rd eq t' IH [of P rs _ t' y] by (auto simp: K_def split: sum.splits link_round.splits)
    qed
  qed
  then show ?thesis using assms(3) by (simp add: K_def)
qed

lemma keep_link_loop:
  "no_sw_header P \<Longrightarrow> serverMultiLink P rs s = Some (r, s') \<Longrightarrow> safe_v P s \<Longrightarrow> safe_v P s'"
  unfolding serverMultiLink_def using link_loop_keeps keep_link_round by blast

section \<open>Sessions\<close>

lemma keep_session:
  assumes "\<And>c. safe P (f c) = safe P c"
  shows "preserved (safe P) (modify (\<lambda>c. clear_miniRoots (f c)))"
  using assms by (intro preserved_modify) (simp add: clear_miniRoots_def)

lemma safe_login_fields: "safe P (c\<lparr>cl_authToken := t, cl_username := u, cl_extraHeaders := h\<rparr>) = safe P c"
  by (rule safe_upd) simp_all

lemma safe_logout_fields: "safe P (c\<lparr>cl_extraHeaders := h, cl_authToken := t, cl_username := u\<rparr>) = safe P c"
  by (rule safe_upd) simp_all

lemma keep_login [safe_intros]: "preserved (safe P) (login P u n pw g q)"
  unfolding login_def Let_def
  by (auto intro!: preserved_pbind preserved_lift_res preserved_throw safe_intros
      keep_session safe_login_fields)

lemma keep_logout [safe_intros]: "preserved (safe P) (logout P u n)"
  unfolding logout_def
  by (auto intro!: preserved_pbind preserved_try_catch preserved_ret safe_intros
      keep_session safe_logout_fields)

section \<open>Reachable clients\<close>

text \<open>
  A client and one of its volumes through any sequence of the operations, time and the outside
  world going on in between.
\<close>

inductive v_reach :: "'w platform \<Rightarrow> 'w cv \<Rightarrow> bool" for P where
  start: "v_reach P (new_client window cacheWorks w, new_vol serverUrl name)"
| world: "v_reach P (c, v) \<Longrightarrow> v_reach P (c\<lparr>cl_world := w\<rparr>, v)"
| volume: "v_reach P (c, v) \<Longrightarrow> v_reach P (c, v')"
| mkfile: "v_reach P s \<Longrightarrow> v_reach P (snd (on_cl (mkfile P cid n) s))"
| mkdir: "v_reach P s \<Longrightarrow> v_reach P (snd (on_cl (mkdir P es) s))"
| cachePut: "v_reach P s \<Longrightarrow> v_reach P (snd (on_cl (cachePut P bytes) s))"
| login: "v_reach P s \<Longrightarrow> v_reach P (snd (on_cl (login P u n pw g q) s))"
| logout: "v_reach P s \<Longrightarrow> v_reach P (snd (on_cl (logout P u n) s))"
| put: "v_reach P s \<Longrightarrow> v_reach P (snd (put P bytes s))"
| get: "v_reach P s \<Longrightarrow> v_reach P (snd (get P cid s))"
| json: "v_reach P s \<Longrightarrow> v_reach P (snd (json P cid s))"
| lookup: "v_reach P s \<Longrightarrow> v_reach P (snd (lookup P race path s))"
| children: "v_reach P s \<Longrightarrow> v_reach P (snd (children P f s))"
| indexHtml: "v_reach P s \<Longrightarrow> v_reach P (snd (indexHtml P f s))"
| link: "v_reach P s \<Longrightarrow> serverMultiLink P rs s = Some (r, s') \<Longrightarrow> v_reach P s'"
| drain: "v_reach P s \<Longrightarrow> v_reach P (snd (drain_step P s))"
| config: "v_reach P s \<Longrightarrow> v_reach P (snd (fetchVolumeConfig P race s))"

lemma reach_safe:
  assumes "no_sw_header P"
  shows "v_reach P s \<Longrightarrow> safe_v P s"
proof (induction rule: v_reach.induct)
  case (start window cacheWorks w serverUrl name)
  then show ?case
    by (simp add: safe_v_def safe_def cache_ok_def no_sw_def new_client_def)
next
  case (link s rs r s')
  then show ?case using keep_link_loop [OF assms] by blast
qed (auto simp: safe_v_def intro: preservedD [of "safe_v P", unfolded safe_v_def] safe_intros assms
      keep_on_cl [unfolded safe_v_def] keep_mkfile keep_mkdir keep_cachePut keep_login keep_logout
      keep_put [unfolded safe_v_def] keep_get [unfolded safe_v_def] keep_json [unfolded safe_v_def]
      keep_lookup [unfolded safe_v_def] keep_children [unfolded safe_v_def] keep_indexHtml [unfolded safe_v_def]
      keep_drain_step [unfolded safe_v_def] keep_config [unfolded safe_v_def])

section \<open>Properties\<close>

text \<open>A platform whose network is down and whose digest has no collision, for the witnesses.\<close>

definition offline :: "unit platform" where
  "offline = \<lparr>p_fetch = (\<lambda>rq w. (Inl (Err_Type ''Failed to fetch''), w)), p_now = (\<lambda>_. 1000),
     p_perf = (\<lambda>_. 0), p_digest = id\<rparr>"

lemma offline_no_sw: "no_sw_header offline"
  by (simp add: no_sw_header_def offline_def)

lemma offline_inj: "inj (p_digest offline)"
  by (simp add: offline_def)

text \<open>
  C1. As long as no server announces a service worker module, the two caches of a client stay
  sound through any sequence of operations, whatever the servers and mirrors send: every cached blob
  has the identifier it is filed under, and every parsed entry is the JSON of bytes with that
  identifier.
\<close>

theorem cache_integrity:
  assumes "no_sw_header P" and "v_reach P (c, v)"
  shows "cache_ok P c"
  using reach_safe [OF assms] by (simp add: safe_v_def safe_def)

theorem cache_integrity_witness:
  "cache_ok offline (fst (snd (put offline [1, 2] (new_client True True (), new_vol ''s'' ''v''))))"
proof -
  let ?s = "snd (put offline [1, 2] (new_client True True (), new_vol ''s'' ''v''))"
  have "v_reach offline (fst ?s, snd ?s)"
    using v_reach.put [OF v_reach.start [of offline True True "()" "''s''" "''v''"], of "[1, 2]"] by simp
  then show ?thesis using cache_integrity [OF offline_no_sw] by blast
qed



text \<open>
  Once a volume's server has announced a service worker hash, \<open>json\<close> (and with it directory
  listings and metadata) takes the server's answer unchecked: JSON that is not in the cache is whatever
  the response parses to, whatever its bytes hash to, and it is then cached under the identifier.
\<close>

theorem json_unverified_with_service_worker:
  assumes "map_get (cl_hashes c) (vo_serverUrl v) = Some (Some h)" and "map_get (cl_jsonCache c) cid = None"
    and "p_fetch P (get_request (server_blob_url v cid)) (cl_world c) = (Inr resp, w')"
    and "resp_json resp = Inr d"
  shows "\<exists>c'. json P cid (c, v) = (Inr d, (c', v)) \<and> map_get (cl_jsonCache c') cid = Some (d, p_now P w')"
  using assms
  by (simp add: json_def prog_simps on_cl_def jsonCache_get_def get_def getServiceWorkerHash_def
      fetch_v_def fetch_def jsonCache_set_def)

definition lie :: response where
  "lie = \<lparr>rs_status = 200, rs_headers = [(''X-Grits-Sw-Hash'', ''h'')], rs_body = Inr (json_bytes (JNum 666))\<rparr>"

definition liar :: "unit platform" where
  "liar = \<lparr>p_fetch = (\<lambda>rq w. (Inr lie, w)), p_now = (\<lambda>_. 5), p_perf = (\<lambda>_. 0), p_digest = id\<rparr>"

theorem json_unverified_with_service_worker_witness:
  "fst (json liar ''Qm'' ((new_client True True ())\<lparr>cl_hashes := [(''s'', Some ''h'')]\<rparr>, new_vol ''s'' ''v''))
     = Inr (JNum 666)"
proof -
  let ?c = "(new_client True True ())\<lparr>cl_hashes := [(''s'', Some ''h'')]\<rparr>"
  let ?v = "new_vol ''s'' ''v''"
  have 1: "map_get (cl_hashes ?c) (vo_serverUrl ?v) = Some (Some ''h'')"
    by (simp add: new_vol_def Let_def drop_last_slash_def)
  have 2: "map_get (cl_jsonCache ?c) ''Qm'' = None" by (simp add: new_client_def)
  have 3: "p_fetch liar (get_request (server_blob_url ?v ''Qm'')) (cl_world ?c) = (Inr lie, ())"
    by (simp add: liar_def)
  have 4: "resp_json lie = Inr (JNum 666)" by (simp add: resp_json_def lie_def)
  from json_unverified_with_service_worker [OF 1 2 3 4] show ?thesis by (elim exE conjE) simp
qed

section \<open>Reading synthesised nodes back\<close>

lemma names_inj: "inj (p_digest P) \<Longrightarrow> names P h d \<Longrightarrow> names P h e \<Longrightarrow> d = e"
  using computeCID_inj by (fastforce simp: names_def)

definition in_blobCache :: "string \<Rightarrow> u8 list \<Rightarrow> 'w cl \<Rightarrow> bool" where
  "in_blobCache cid bytes c \<longleftrightarrow> (\<exists>m. cl_blobCache c = Some m \<and> map_get m cid = Some bytes)"

lemma unmarshal_known:
  assumes "safe P c" and "inj (p_digest P)" and "in_blobCache h bytes c" and "json_of_bytes bytes = Some d"
  shows "fst (unmarshal P h c) = Inr d"
proof (cases "map_get (cl_jsonCache c) h")
  case None
  then show ?thesis using assms(3,4)
    by (auto simp: unmarshal_def prog_simps jsonCache_get_def in_blobCache_def blobCacheGet_def
        jsonCache_set_def split: prod.split)
next
  case (Some dt)
  obtain e t where e: "map_get (cl_jsonCache c) h = Some (e, t)" using Some by (cases dt) auto
  have "names P h e" using assms(1) e by (auto simp: safe_def cache_ok_def)
  moreover have "names P h d"
    using assms(1,3,4) by (auto simp: safe_def cache_ok_def in_blobCache_def names_def)
  ultimately have "e = d" using names_inj [OF assms(2)] by blast
  then show ?thesis using e by (simp add: unmarshal_def prog_simps jsonCache_get_def)
qed

lemma storeBlob_run:
  "cl_blobCache c = Some m \<Longrightarrow> storeBlob cid bytes c = (Inr (), c\<lparr>cl_blobCache := Some (map_set cid bytes m)\<rparr>)"
  by (simp add: storeBlob_def blobCachePut_def prog_simps)

lemma mkdir_run:
  assumes "mkdir P es c = (Inr cid, c')" and "cl_blobCache c = Some m"
  shows "\<exists>listing ts. mkdir_listing es = Inr listing
    \<and> (let dirBytes = json_bytes (JObj listing); dirCID = computeCID P dirBytes;
           metaBytes = json_bytes (meta_json ''dir'' (int (length dirBytes)) dirCID 493 ts)
       in cid = computeCID P metaBytes
        \<and> c' = c\<lparr>cl_blobCache := Some (map_set cid metaBytes (map_set dirCID dirBytes m))\<rparr>)"
  using assms
  by (auto simp: mkdir_def prog_simps Let_def storeBlob_run isoNow_def split: sum.splits)

lemma mkdir_listing_wf:
  "mkdir_listing es = Inr listing \<Longrightarrow> distinct (map fst es) \<Longrightarrow> wf_jsv (JObj listing)"
proof -
  have "mkdir_listing es = Inr listing \<Longrightarrow> map fst listing = map fst es \<and> wf_members listing" for es listing
    by (induction es arbitrary: listing rule: mkdir_listing.induct) (auto split: sum.splits)
  then show "mkdir_listing es = Inr listing \<Longrightarrow> distinct (map fst es) \<Longrightarrow> wf_jsv (JObj listing)"
    by fastforce
qed

text \<open>A listing holds identifiers only, so that no listing has the bytes of the metadata of a directory.\<close>

lemma mkdir_listing_strings: "mkdir_listing xs = Inr ys \<Longrightarrow> list_all (\<lambda>(n, v). \<exists>s. v = JStr s) ys"
  by (induction xs arbitrary: ys rule: mkdir_listing.induct) (auto split: sum.splits)

lemma wf_dir_meta: "wf_jsv (meta_json ''dir'' n c k ts)"
  by (simp add: meta_json_def)

lemma dir_meta_no_listing:
  assumes "mkdir_listing es = Inr listing" and "wf_jsv (JObj listing)"
  shows "json_bytes (meta_json ''dir'' n c k ts) \<noteq> json_bytes (JObj listing)"
proof
  assume "json_bytes (meta_json ''dir'' n c k ts) = json_bytes (JObj listing)"
  then have "meta_json ''dir'' n c k ts = JObj listing" using json_bytes_inj [OF wf_dir_meta assms(2)] by blast
  then have "(''size'', JNum n) \<in> set listing" by (auto simp: meta_json_def)
  then show False using mkdir_listing_strings [OF assms(1)] by (auto simp: list_all_iff)
qed

lemma unmarshal_blobCache: "cl_blobCache (snd (unmarshal P cid c)) = cl_blobCache c"
  by (auto simp: unmarshal_def prog_simps jsonCache_get_def blobCacheGet_def jsonCache_set_def split: option.split)

text \<open>
  C8. A directory made by \<open>mkdir\<close> reads back locally: with the blob cache available and distinct
  names, its identifier unmarshals to directory metadata, and the content identifier in there to
  the listing of exactly the entries given, in a sound cache and with a digest without collisions.
\<close>

theorem mkdir_reads_back:
  assumes "mkdir P es c = (Inr cid, c')" and "cl_blobCache c \<noteq> None" and "distinct (map fst es)"
    and "safe P c" and "inj (p_digest P)"
  shows "\<exists>meta listing. fst (unmarshal P cid c') = Inr meta \<and> js_prop meta ''type'' = JStr ''dir''
    \<and> mkdir_listing es = Inr listing
    \<and> fst (unmarshal P (js_string (js_prop meta ''contentHash'')) (snd (unmarshal P cid c'))) = Inr (JObj listing)"
proof -
  obtain m where m: "cl_blobCache c = Some m" using assms(2) by auto
  obtain listing ts where l: "mkdir_listing es = Inr listing" and
    run: "let dirBytes = json_bytes (JObj listing); dirCID = computeCID P dirBytes;
           metaBytes = json_bytes (meta_json ''dir'' (int (length dirBytes)) dirCID 493 ts)
       in cid = computeCID P metaBytes
        \<and> c' = c\<lparr>cl_blobCache := Some (map_set cid metaBytes (map_set dirCID dirBytes m))\<rparr>"
    using mkdir_run [OF assms(1) m] by blast
  define dirBytes where "dirBytes = json_bytes (JObj listing)"
  define meta where "meta = meta_json ''dir'' (int (length dirBytes)) (computeCID P dirBytes) 493 ts"
  have wf: "wf_jsv (JObj listing)" "wf_jsv meta"
    using mkdir_listing_wf [OF l assms(3)] by (simp_all add: meta_def meta_json_def)
  have parse: "json_of_bytes dirBytes = Some (JObj listing)" "json_of_bytes (json_bytes meta) = Some meta"
    using wf by (simp_all add: dirBytes_def)
  have ne: "json_bytes meta \<noteq> dirBytes"
    unfolding dirBytes_def meta_def by (rule dir_meta_no_listing [OF l wf(1)])
  have cid: "cid = computeCID P (json_bytes meta)"
    and c': "c' = c\<lparr>cl_blobCache := Some (map_set cid (json_bytes meta) (map_set (computeCID P dirBytes) dirBytes m))\<rparr>"
    using run by (simp_all add: Let_def dirBytes_def meta_def)
  have neq: "computeCID P dirBytes \<noteq> cid" using ne computeCID_inj [OF assms(5)] by (simp add: cid)
  have safe': "safe P c'"
    using givesD [OF gives_True [OF keep_mkdir] assms(1,4)] by simp
  have inm: "in_blobCache cid (json_bytes meta) c'" and ind: "in_blobCache (computeCID P dirBytes) dirBytes c'"
    using neq by (simp_all add: in_blobCache_def c')
  have u: "fst (unmarshal P cid c') = Inr meta" by (rule unmarshal_known [OF safe' assms(5) inm parse(2)])
  let ?c2 = "snd (unmarshal P cid c')"
  have "safe P ?c2" by (rule preservedD [OF keep_unmarshal safe'])
  moreover have "in_blobCache (computeCID P dirBytes) dirBytes ?c2"
    using ind by (simp add: in_blobCache_def unmarshal_blobCache)
  ultimately have "fst (unmarshal P (computeCID P dirBytes) ?c2) = Inr (JObj listing)"
    using unmarshal_known [OF _ assms(5) _ parse(1)] by blast
  then show ?thesis using u l by (intro exI [of _ meta] exI [of _ listing]) (simp add: meta_def meta_json_def)
qed

theorem mkdir_reads_back_witness:
  "\<exists>cid c' meta. mkdir offline [(''a'', DE_cid ''x'')] (new_client True True ()) = (Inr cid, c')
    \<and> fst (unmarshal offline cid c') = Inr meta \<and> js_prop meta ''type'' = JStr ''dir''"
proof -
  let ?c = "new_client True True ()"
  obtain cid c' where m: "mkdir offline [(''a'', DE_cid ''x'')] ?c = (Inr cid, c')"
    by (simp add: mkdir_def prog_simps storeBlob_def blobCachePut_def isoNow_def new_client_def Let_def)
  have "safe offline ?c" by (simp add: safe_def cache_ok_def no_sw_def new_client_def)
  moreover have "cl_blobCache ?c \<noteq> None" by (simp add: new_client_def)
  ultimately obtain meta where "fst (unmarshal offline cid c') = Inr meta" "js_prop meta ''type'' = JStr ''dir''"
    using mkdir_reads_back [OF m _ _ _ offline_inj] by auto
  then show ?thesis using m by blast
qed

end
