(* ===== verification/Volume_Lookup.thy ===== *)
theory Volume_Lookup
  imports Volume_Cache
begin

text \<open>
  What a lookup means: the tree of directories that content identifiers spell out, the local walk
  as a partial evaluation of it, and the mini-roots the walk starts from.
\<close>

section \<open>Paths in the tree of identifiers\<close>

text \<open>
  \<open>path_to N h ps g\<close>: from the node \<open>h\<close> the names \<open>ps\<close> lead to the node \<open>g\<close>, where
  \<open>N h d\<close> says that the identifier \<open>h\<close> names the JSON value \<open>d\<close>.
\<close>

inductive path_to :: "(string \<Rightarrow> jsv \<Rightarrow> bool) \<Rightarrow> string \<Rightarrow> string list \<Rightarrow> string \<Rightarrow> bool" for N where
  here: "path_to N h [] h"
| step: "N h meta \<Longrightarrow> js_prop meta ''type'' = JStr ''dir'' \<Longrightarrow>
    N (js_string (js_prop meta ''contentHash'')) dir \<Longrightarrow> truthy (js_prop dir p) \<Longrightarrow>
    path_to N (js_string (js_prop dir p)) ps g \<Longrightarrow> path_to N h (p # ps) g"

inductive_cases path_to_NilE: "path_to N h [] g"
inductive_cases path_to_ConsE: "path_to N h (p # ps) g"
inductive_simps path_to_Nil: "path_to N h [] g"

lemma path_to_append:
  "path_to N h ps g \<Longrightarrow> path_to N g qs k \<Longrightarrow> path_to N h (ps @ qs) k"
  by (induction rule: path_to.induct) (auto intro: path_to.step)

definition named_once :: "(string \<Rightarrow> jsv \<Rightarrow> bool) \<Rightarrow> bool" where
  "named_once N \<longleftrightarrow> (\<forall>h d e. N h d \<longrightarrow> N h e \<longrightarrow> d = e)"

lemma path_to_unique:
  assumes "named_once N"
  shows "path_to N h ps g \<Longrightarrow> path_to N h ps k \<Longrightarrow> g = k"
proof (induction arbitrary: k rule: path_to.induct)
  case (here h)
  then show ?case by (auto elim: path_to_NilE)
next
  case (step h meta dir p ps g)
  from step.prems obtain meta' dir' where
    "N h meta'" "N (js_string (js_prop meta' ''contentHash'')) dir'"
    and tail: "path_to N (js_string (js_prop dir' p)) ps k"
    by (rule path_to_ConsE)
  then have "meta' = meta" "dir' = dir" using assms step.hyps unfolding named_once_def by blast+
  then show ?case using step.IH tail by blast
qed

lemma truthy_prop: "js_prop v k = JStr s \<Longrightarrow> truthy v"
  by (cases v) auto

lemma truthy_prop_truthy: "truthy (js_prop v k) \<Longrightarrow> truthy v"
  by (cases v) auto

text \<open>What the result of a walk says about the path: found, or found up to a node.\<close>

definition walk_means :: "(string \<Rightarrow> jsv \<Rightarrow> bool) \<Rightarrow> string \<Rightarrow> string list \<Rightarrow> walk \<Rightarrow> bool" where
  "walk_means N h parts w =
     (case w of
        Hit i \<Rightarrow> path_to N h parts (in_metadataHash i)
          \<and> (\<exists>meta. N (in_metadataHash i) meta \<and> in_contentHash i = js_prop meta ''contentHash''
                \<and> in_contentSize i = nullish (js_prop meta ''size'') (JNum 0))
      | Partial g rem \<Rightarrow> \<exists>past rest. parts = past @ rest \<and> rem = js_join ''/'' rest \<and> path_to N h past g)"

lemma walk_means_step:
  assumes "N h meta" "js_prop meta ''type'' = JStr ''dir''"
    and "N (js_string (js_prop meta ''contentHash'')) dir" "truthy (js_prop dir p)"
    and "walk_means N (js_string (js_prop dir p)) ps w"
  shows "walk_means N h (p # ps) w"
proof (cases w)
  case (Hit i)
  then show ?thesis using assms by (auto simp: walk_means_def intro: path_to.step)
next
  case (Partial g rem)
  then obtain past rest where pr: "ps = past @ rest" "rem = js_join ''/'' rest"
    "path_to N (js_string (js_prop dir p)) past g"
    using assms(5) by (auto simp: walk_means_def)
  then have "path_to N h (p # past) g" using assms(1-4) by (intro path_to.step)
  then show ?thesis using pr Partial by (simp add: walk_means_def) (metis append_Cons)
qed

lemma walk_means_here: "walk_means N h parts (Partial h (js_join ''/'' parts))"
  by (simp add: walk_means_def) (metis append_Nil path_to.here)

section \<open>Walking with a reader\<close>

text \<open>
  The interface \<open>_fastWalk\<close> has to the caches: a read keeps the invariant, never throws, and what
  it returns, if anything, is what the identifier names.
\<close>

locale node_reader =
  fixes read :: "string \<Rightarrow> ('s, jsv) prog" and I :: "'s \<Rightarrow> bool" and N :: "string \<Rightarrow> jsv \<Rightarrow> bool"
  assumes read_sound: "gives I (read h) (\<lambda>d. truthy d \<longrightarrow> N h d)"
    and read_total: "\<exists>d s'. read h s = (Inr d, s')"
begin

lemma walk_sound: "gives I (walk_parts read parts h) (walk_means N h parts)"
proof (induction parts arbitrary: h)
  case Nil
  show ?case unfolding walk_parts.simps
  proof (rule gives_bind [OF read_sound])
    fix meta
    assume "truthy meta \<longrightarrow> N h meta"
    then show "gives I (if \<not> truthy meta then ret (Partial h [])
        else ret (Hit \<lparr>in_metadataHash = h, in_contentHash = js_prop meta ''contentHash'',
               in_contentSize = nullish (js_prop meta ''size'') (JNum 0)\<rparr>)) (walk_means N h [])"
      using walk_means_here [of N h "[]"]
      by (auto intro!: gives_ret simp: walk_means_def path_to_Nil)
  qed
next
  case (Cons p ps)
  show ?case unfolding walk_parts.simps Let_def
  proof (rule gives_bind [OF read_sound])
    fix meta
    assume meta: "truthy meta \<longrightarrow> N h meta"
    have child: "gives I (pbind (read (js_string (js_prop dir p))) (\<lambda>childMeta.
        if \<not> truthy childMeta then ret (Partial (js_string (js_prop dir p)) (js_join ''/'' ps))
        else walk_parts read ps (js_string (js_prop dir p)))) (walk_means N h (p # ps))"
      if "truthy meta" "js_prop meta ''type'' = JStr ''dir''"
        "N (js_string (js_prop meta ''contentHash'')) dir" "truthy (js_prop dir p)" for dir
    proof -
      have "gives I (pbind (read (js_string (js_prop dir p))) (\<lambda>childMeta.
          if \<not> truthy childMeta then ret (Partial (js_string (js_prop dir p)) (js_join ''/'' ps))
          else walk_parts read ps (js_string (js_prop dir p)))) (walk_means N (js_string (js_prop dir p)) ps)"
        by (rule gives_bind [OF read_sound]) (auto intro!: gives_ret Cons.IH walk_means_here)
      then show ?thesis
        by (rule gives_weaken) (use that meta in \<open>auto intro: walk_means_step\<close>)
    qed
    have "gives I (pbind (read (js_string (js_prop meta ''contentHash''))) (\<lambda>dir.
        if \<not> truthy dir then ret (Partial h (js_join ''/'' (p # ps)))
        else if \<not> truthy (js_prop dir p) then throw (Err_Error (''fastWalk: '' @ p @ '' not found in directory''))
        else pbind (read (js_string (js_prop dir p))) (\<lambda>childMeta.
            if \<not> truthy childMeta then ret (Partial (js_string (js_prop dir p)) (js_join ''/'' ps))
            else walk_parts read ps (js_string (js_prop dir p))))) (walk_means N h (p # ps))"
      if "truthy meta" "js_prop meta ''type'' = JStr ''dir''"
      by (rule gives_bind [OF read_sound])
        (auto intro!: gives_ret gives_throw child walk_means_here that)
    then show "gives I (if \<not> truthy meta then ret (Partial h (js_join ''/'' (p # ps)))
      else if js_prop meta ''type'' \<noteq> JStr ''dir'' then throw (Err_Error (''fastWalk: expected dir at '' @ p))
      else pbind (read (js_string (js_prop meta ''contentHash''))) (\<lambda>dir.
        if \<not> truthy dir then ret (Partial h (js_join ''/'' (p # ps)))
        else if \<not> truthy (js_prop dir p) then throw (Err_Error (''fastWalk: '' @ p @ '' not found in directory''))
        else pbind (read (js_string (js_prop dir p))) (\<lambda>childMeta.
            if \<not> truthy childMeta then ret (Partial (js_string (js_prop dir p)) (js_join ''/'' ps))
            else walk_parts read ps (js_string (js_prop dir p)))))
      (walk_means N h (p # ps))"
      using walk_means_here [of N h "p # ps"] by (auto intro!: gives_ret gives_throw)
  qed
qed

text \<open>A walk that throws has met a node that shows the path does not exist.\<close>

lemma walk_error:
  assumes once: "named_once N"
  shows "walk_parts read parts h s = (Inl e, s') \<Longrightarrow> I s \<Longrightarrow> \<not> path_to N h parts g"
proof (induction parts arbitrary: h s)
  case Nil
  obtain d t where "read h s = (Inr d, t)" using read_total by blast
  then show ?case using Nil by (simp add: prog_simps split: if_splits)
next
  case (Cons p ps)
  obtain meta s1 where r1: "read h s = (Inr meta, s1)" using read_total by blast
  have g1: "I s1" "truthy meta \<longrightarrow> N h meta" using givesD [OF read_sound r1 Cons.prems(2)] by auto
  have tm: "truthy meta" using Cons.prems(1) r1 by (auto simp: prog_simps split: if_splits)
  then have nm: "N h meta" using g1 by simp
  show ?case
  proof
    assume "path_to N h (p # ps) g"
    then obtain meta' dir' where p': "N h meta'" "js_prop meta' ''type'' = JStr ''dir''"
      "N (js_string (js_prop meta' ''contentHash'')) dir'" "truthy (js_prop dir' p)"
      "path_to N (js_string (js_prop dir' p)) ps g"
      by (rule path_to_ConsE)
    then have m: "meta' = meta" using once nm unfolding named_once_def by blast
    obtain dir s2 where r2: "read (js_string (js_prop meta ''contentHash'')) s1 = (Inr dir, s2)"
      using read_total by blast
    have g2: "I s2" "truthy dir \<longrightarrow> N (js_string (js_prop meta ''contentHash'')) dir"
      using givesD [OF read_sound r2 g1(1)] by auto
    have td: "truthy dir" using Cons.prems(1) r1 r2 tm p'(2) m
      by (auto simp: prog_simps split: if_splits)
    then have d: "dir' = dir" using g2 p'(3) m once unfolding named_once_def by blast
    obtain cm s3 where r3: "read (js_string (js_prop dir p)) s2 = (Inr cm, s3)" using read_total by blast
    have g3: "I s3" using givesD [OF read_sound r3 g2(1)] by simp
    have "walk_parts read ps (js_string (js_prop dir p)) s3 = (Inl e, s')"
      using Cons.prems(1) r1 r2 r3 tm td p'(2,4) m d by (auto simp: prog_simps Let_def split: if_splits)
    then show False using Cons.IH g3 p'(5) d by blast
  qed
qed

end

text \<open>The caches of the client provide the interface.\<close>

lemma unmarshal_total: "\<exists>d s'. unmarshal P h s = (Inr d, s')"
  by (auto simp: unmarshal_def prog_simps jsonCache_get_def blobCacheGet_def jsonCache_set_def
      split: option.split)

interpretation local_reader: node_reader "unmarshal P" "safe P" "names P" for P
  by unfold_locales (rule give_unmarshal, rule unmarshal_total)

lemma names_once: "inj (p_digest P) \<Longrightarrow> named_once (names P)"
  unfolding named_once_def using names_inj by blast

section \<open>Mini-roots\<close>

lemma ancestors_comparable:
  "isAncestorOrSelf p t \<Longrightarrow> isAncestorOrSelf q t \<Longrightarrow> isAncestorOrSelf p q \<or> isAncestorOrSelf q p"
  by (auto simp: isAncestorOrSelf_iff append_eq_append_conv2 append_eq_Cons_conv Cons_eq_append_conv)

lemma ancestor_shorter: "isAncestorOrSelf q p \<Longrightarrow> q \<noteq> p \<Longrightarrow> length q < length p"
  by (auto simp: isAncestorOrSelf_iff)

definition minimal_path :: "(string \<times> string) list \<Rightarrow> string \<Rightarrow> bool" where
  "minimal_path ok p \<longleftrightarrow> \<not> (\<exists>(q, _) \<in> set ok. q \<noteq> p \<and> isAncestorOrSelf q p)"

lemma new_miniRoots_alt:
  "new_miniRoots now ok =
     fold (\<lambda>(p, a) roots. if minimal_path ok p then map_set p (Some a, now) roots else roots) ok []"
  unfolding new_miniRoots_def by (rule fold_cong) (auto simp: minimal_path_def fun_eq_iff)

lemma fold_roots_get:
  "map_get (fold (\<lambda>(p, a) roots. if M p then map_set p (Some a, now) roots else roots) xs roots) p = Some (a', ts)
    \<Longrightarrow> map_get roots p = Some (a', ts) \<or> M p \<and> ts = now \<and> (\<exists>a. a' = Some a \<and> (p, a) \<in> set xs)"
proof (induction xs arbitrary: roots)
  case (Cons x xs)
  then show ?case by (cases x) (fastforce split: if_splits)
qed simp

lemma fold_roots_has:
  "map_get roots p \<noteq> None \<or> M p \<and> p \<in> fst ` set xs \<Longrightarrow>
    map_get (fold (\<lambda>(p, a) roots. if M p then map_set p (Some a, now) roots else roots) xs roots) p \<noteq> None"
proof (induction xs arbitrary: roots)
  case (Cons x xs)
  obtain q a where x: "x = (q, a)" by (cases x)
  define roots' where "roots' = (if M q then map_set q (Some a, now) roots else roots)"
  have "map_get roots' p \<noteq> None \<or> M p \<and> p \<in> fst ` set xs"
    using Cons.prems unfolding roots'_def x by (cases "p = q"; cases "M q") simp_all
  then show ?case using Cons.IH [of roots'] by (simp add: x roots'_def)
qed simp

lemma fold_roots_distinct:
  "distinct (map fst roots) \<Longrightarrow>
    distinct (map fst (fold (\<lambda>(p, a) roots. if M p then map_set p (Some a, now) roots else roots) xs roots))"
proof (induction xs arbitrary: roots)
  case (Cons x xs)
  then show ?case by (cases x) (simp add: distinct_map_set)
qed simp

definition roots_ok :: "(string \<times> (string option \<times> int)) list \<Rightarrow> bool" where
  "roots_ok roots \<longleftrightarrow> distinct (map fst roots)
     \<and> (\<forall>p q. map_get roots p \<noteq> None \<and> map_get roots q \<noteq> None \<and> isAncestorOrSelf p q \<longrightarrow> p = q)"

lemma new_roots_get:
  "map_get (new_miniRoots now ok) p = Some (a', ts) \<Longrightarrow>
    minimal_path ok p \<and> ts = now \<and> (\<exists>a. a' = Some a \<and> (p, a) \<in> set ok)"
  using fold_roots_get [of "minimal_path ok" now ok "[]" p a' ts] by (simp add: new_miniRoots_alt)

lemma new_roots_ok: "roots_ok (new_miniRoots now ok)"
  unfolding roots_ok_def
proof (intro conjI allI impI)
  show "distinct (map fst (new_miniRoots now ok))"
    using fold_roots_distinct [of "[]"] by (simp add: new_miniRoots_alt)
  fix p q
  assume a: "map_get (new_miniRoots now ok) p \<noteq> None \<and> map_get (new_miniRoots now ok) q \<noteq> None
    \<and> isAncestorOrSelf p q"
  then obtain x y where xy: "map_get (new_miniRoots now ok) p = Some x" "map_get (new_miniRoots now ok) q = Some y"
    by blast
  obtain c t d u where "x = (c, t)" "y = (d, u)" by (metis surj_pair)
  then show "p = q" using new_roots_get [of now ok p] new_roots_get [of now ok q] xy a
    by (auto simp: minimal_path_def)
qed

lemma new_roots_cover:
  "p \<in> fst ` set ok \<Longrightarrow> \<exists>q. map_get (new_miniRoots now ok) q \<noteq> None \<and> isAncestorOrSelf q p"
proof (induction "length p" arbitrary: p rule: less_induct)
  case less
  show ?case
  proof (cases "minimal_path ok p")
    case True
    then have "map_get (new_miniRoots now ok) p \<noteq> None"
      using fold_roots_has [of "[]" p "minimal_path ok" ok] less.prems by (simp add: new_miniRoots_alt)
    then show ?thesis by (intro exI [of _ p]) simp
  next
    case False
    then obtain q a where q: "(q, a) \<in> set ok" "q \<noteq> p" "isAncestorOrSelf q p" by (auto simp: minimal_path_def)
    then obtain r where "map_get (new_miniRoots now ok) r \<noteq> None" "isAncestorOrSelf r q"
      using less.hyps [of q] ancestor_shorter by force
    then show ?thesis using q(3) isAncestorOrSelf_trans by blast
  qed
qed

text \<open>
  C5. The mini-roots rebuilt from an answer: no one is an ancestor of another; each carries the
  address the answer gives for its path and the time of the answer; and every path the answer resolves
  lies at or below one.
\<close>

theorem miniRoots_rebuilt:
  "roots_ok (new_miniRoots now ok)
   \<and> (\<forall>p a ts. map_get (new_miniRoots now ok) p = Some (a, ts) \<longrightarrow> ts = now \<and> (\<exists>c. a = Some c \<and> (p, c) \<in> set ok))
   \<and> (\<forall>p \<in> fst ` set ok. \<exists>q. map_get (new_miniRoots now ok) q \<noteq> None \<and> isAncestorOrSelf q p)"
  using new_roots_ok new_roots_get new_roots_cover by blast

theorem miniRoots_rebuilt_witness:
  "roots_ok (new_miniRoots 7 [(''a/b'', ''c2''), (''a'', ''c1'')])
    \<and> map_get (new_miniRoots 7 [(''a/b'', ''c2''), (''a'', ''c1'')]) ''a'' = Some (Some ''c1'', 7)"
  using miniRoots_rebuilt [of 7 "[(''a/b'', ''c2''), (''a'', ''c1'')]"]
  by (simp add: new_miniRoots_def isAncestorOrSelf_def)

lemma root_usable_iff:
  "root_usable now t path (r, a, ts) \<longleftrightarrow>
     a \<noteq> None \<and> a \<noteq> Some [] \<and> of_int (now - ts) \<le> t \<and> isAncestorOrSelf r path"
  by (auto simp: root_usable_def isAncestorOrSelf_def)

text \<open>
  With such mini-roots the loop of \<open>_findMiniRoot\<close>, which takes the first match, finds the only
  one: it answers with a root and address exactly when that root is at or above the path, has an
  address, and is not older than the volume's timeout.
\<close>

theorem findMiniRoot_unique:
  assumes "roots_ok (vo_miniRoots v)"
  shows "findMiniRoot now path v = Some (r, a) \<longleftrightarrow>
    (\<exists>ts. map_get (vo_miniRoots v) r = Some (Some a, ts) \<and> a \<noteq> [] \<and> of_int (now - ts) \<le> vo_hardTimeout v
      \<and> isAncestorOrSelf r path)"
proof -
  let ?u = "root_usable now (vo_hardTimeout v) path"
  have dist: "distinct (map fst (vo_miniRoots v))" using assms by (simp add: roots_ok_def)
  have one: "x = y" if "x \<in> set (vo_miniRoots v)" "y \<in> set (vo_miniRoots v)" "?u x" "?u y" for x y
  proof -
    obtain p pa pt q qa qt where xy: "x = (p, pa, pt)" "y = (q, qa, qt)" by (metis surj_pair)
    then have get: "map_get (vo_miniRoots v) p = Some (pa, pt)" "map_get (vo_miniRoots v) q = Some (qa, qt)"
      using that(1,2) dist by simp_all
    have "isAncestorOrSelf p q \<or> isAncestorOrSelf q p"
      using that(3,4) xy ancestors_comparable by (simp add: root_usable_iff) blast
    then have "p = q" using assms get unfolding roots_ok_def by (metis option.distinct(1))
    then show ?thesis using get xy by simp
  qed
  show ?thesis
  proof
    assume "findMiniRoot now path v = Some (r, a)"
    then obtain a' ts where f: "find ?u (vo_miniRoots v) = Some (r, a', ts)" "a = or_else a' []"
      by (auto simp: findMiniRoot_def)
    then have "(r, a', ts) \<in> set (vo_miniRoots v)" "?u (r, a', ts)" by (auto simp: find_Some_iff)
    then show "\<exists>ts. map_get (vo_miniRoots v) r = Some (Some a, ts) \<and> a \<noteq> [] \<and> of_int (now - ts) \<le> vo_hardTimeout v
        \<and> isAncestorOrSelf r path"
      using f(2) dist by (auto simp: root_usable_iff)
  next
    assume "\<exists>ts. map_get (vo_miniRoots v) r = Some (Some a, ts) \<and> a \<noteq> [] \<and> of_int (now - ts) \<le> vo_hardTimeout v
        \<and> isAncestorOrSelf r path"
    then obtain ts where e: "(r, Some a, ts) \<in> set (vo_miniRoots v)" "?u (r, Some a, ts)"
      by (auto simp: root_usable_iff dest: map_of_SomeD)
    then obtain z where z: "find ?u (vo_miniRoots v) = Some z"
      by (cases "find ?u (vo_miniRoots v)") (auto simp: find_None_iff)
    then have "z \<in> set (vo_miniRoots v)" "?u z" by (auto simp: find_Some_iff)
    then have "z = (r, Some a, ts)" using one e by blast
    then show "findMiniRoot now path v = Some (r, a)" using z by (simp add: findMiniRoot_def)
  qed
qed

theorem findMiniRoot_unique_witness:
  "findMiniRoot 10 ''a/x'' ((new_vol ''s'' ''v'')\<lparr>vo_miniRoots := new_miniRoots 7 [(''a'', ''c1''), (''b'', ''c2'')]\<rparr>)
     = Some (''a'', ''c1'')"
proof -
  let ?v = "(new_vol ''s'' ''v'')\<lparr>vo_miniRoots := new_miniRoots 7 [(''a'', ''c1''), (''b'', ''c2'')]\<rparr>"
  have "roots_ok (vo_miniRoots ?v)" by (simp add: new_roots_ok)
  moreover have "map_get (vo_miniRoots ?v) ''a'' = Some (Some ''c1'', 7)"
    by (simp add: new_miniRoots_def isAncestorOrSelf_def)
  ultimately show ?thesis
    by (simp add: findMiniRoot_unique new_vol_def Let_def DEFAULT_HARD_TIMEOUT_def isAncestorOrSelf_def)
qed

section \<open>The local walk\<close>



section \<open>Files\<close>

lemma give_lookup:
  assumes "no_sw_header P"
  shows "gives (safe_v P) (lookup P race path)
    (\<lambda>f. names P (gf_cid f) (gf_meta f) \<and> gf_path f = Some (strip_lead path))"
  unfolding lookup_def Let_def
proof (rule gives_bind_any [OF keep_lookup_internal [OF assms]])
  fix info
  have "gives (safe_v P) (pbind (fetchMeta P h) (\<lambda>meta.
      ret \<lparr>gf_cid = h, gf_meta = meta, gf_path = Some (strip_lead path)\<rparr>))
      (\<lambda>f. names P (gf_cid f) (gf_meta f) \<and> gf_path f = Some (strip_lead path))" for h
    by (rule gives_bind [OF give_fetchMeta]) (simp add: gives_ret)
  then show "gives (safe_v P) (case info of
        None \<Rightarrow> pbind (reads snd) (\<lambda>v.
          throw (Err_Error (''lookup: //'' @ vo_volume v @ ''/'' @ strip_lead path @ '': not found'')))
      | Some i \<Rightarrow> pbind (fetchMeta P (in_metadataHash i)) (\<lambda>meta.
          ret \<lparr>gf_cid = in_metadataHash i, gf_meta = meta, gf_path = Some (strip_lead path)\<rparr>))
      (\<lambda>f. names P (gf_cid f) (gf_meta f) \<and> gf_path f = Some (strip_lead path))"
    by (auto intro!: gives_bind_any gives_throw split: option.split)
qed


definition child_ok :: "'w platform \<Rightarrow> gfile \<Rightarrow> string \<times> jsv \<Rightarrow> string \<times> gfile \<Rightarrow> bool" where
  "child_ok P f = (\<lambda>(name, cid) (name', k). name' = name \<and> gf_cid k = js_string cid
     \<and> names P (gf_cid k) (gf_meta k) \<and> gf_path k = map_option (\<lambda>p. p @ ''/'' @ name) (gf_path f))"

lemma gives_map_each2:
  "(\<And>x. x \<in> set xs \<Longrightarrow> gives I (g x) (R x)) \<Longrightarrow> gives I (map_each g xs) (list_all2 R xs)"
proof (induction xs)
  case (Cons x xs)
  then have gx: "gives I (g x) (R x)" and rest: "gives I (map_each g xs) (list_all2 R xs)" by simp_all
  show ?case unfolding map_each.simps
    by (rule gives_bind [OF gx], rule gives_bind [OF rest], rule gives_ret) simp
qed (simp add: gives_ret)

lemma give_children:
  "gives (safe_v P) (children P f)
     (\<lambda>kids. isDir f \<and> (\<exists>listing. names P (contentCID f) listing \<and> list_all2 (child_ok P f) (entries listing) kids))"
proof (cases "isDir f")
  case True
  define kid where "kid = (\<lambda>(name, metaCID). pbind (fetchMeta P (js_string metaCID)) (\<lambda>meta.
    ret (name, \<lparr>gf_cid = js_string metaCID, gf_meta = meta,
                gf_path = map_option (\<lambda>p. p @ ''/'' @ name) (gf_path f)\<rparr>)))"
  have kid: "gives (safe_v P) (kid x) (child_ok P f x)" for x
    by (cases x) (auto intro!: gives_bind [OF give_fetchMeta] gives_ret simp: child_ok_def kid_def)
  have "children P f = pbind (json P (contentCID f)) (\<lambda>listing. map_each kid (entries listing))"
    using True by (simp add: children_def file_json_def kid_def)
  moreover have "gives (safe_v P) (pbind (json P (contentCID f)) (\<lambda>listing. map_each kid (entries listing)))
      (\<lambda>kids. \<exists>listing. names P (contentCID f) listing \<and> list_all2 (child_ok P f) (entries listing) kids)"
  proof (rule gives_bind [OF give_json])
    fix listing
    assume "names P (contentCID f) listing"
    then show "gives (safe_v P) (map_each kid (entries listing))
        (\<lambda>kids. \<exists>listing. names P (contentCID f) listing \<and> list_all2 (child_ok P f) (entries listing) kids)"
      by (intro gives_weaken [OF gives_map_each2 [OF kid]]) blast
  qed
  ultimately show ?thesis using True by simp
next
  case False
  then show ?thesis by (simp add: children_def gives_throw)
qed

text \<open>
  \<open>children\<close> of a file lists exactly the entries of the listing that the file's content identifier
  names, in order, each child with the identifier of its entry, the metadata that identifier names, and
  its path below the file's.
\<close>

theorem children_authentic:
  assumes "no_sw_header P" and "v_reach P s" and "children P f s = (Inr kids, s')"
  shows "isDir f \<and> (\<exists>listing. names P (contentCID f) listing \<and> list_all2 (child_ok P f) (entries listing) kids)"
  using givesD [OF give_children assms(3)] reach_safe [OF assms(1,2)] by blast

theorem children_authentic_witness:
  "\<exists>s'. children offline \<lparr>gf_cid = ''Qm'', gf_meta = JObj [(''type'', JStr ''dir''),
        (''contentHash'', JStr (computeCID offline (json_bytes (JObj []))))], gf_path = None\<rparr>
      (snd (on_cl (cachePut offline (json_bytes (JObj []))) (new_client True True (), new_vol ''s'' ''v''))) = (Inr [], s')
    \<and> names offline (computeCID offline (json_bytes (JObj []))) (JObj [])"
proof -
  let ?f = "\<lparr>gf_cid = ''Qm'', gf_meta = JObj [(''type'', JStr ''dir''),
        (''contentHash'', JStr (computeCID offline (json_bytes (JObj []))))], gf_path = None\<rparr>"
  let ?s = "snd (on_cl (cachePut offline (json_bytes (JObj []))) (new_client True True (), new_vol ''s'' ''v''))"
  have r: "v_reach offline ?s" by (intro v_reach.cachePut v_reach.start)
  have "\<exists>s'. children offline ?f ?s = (Inr [], s')"
    by (simp add: children_def isDir_def file_json_def contentCID_def json_def prog_simps on_cl_def
        jsonCache_get_def cachePut_def storeBlob_def blobCachePut_def new_client_def Let_def get_def
        getServiceWorkerHash_def get_checked_def perf_now_def blobCacheGet_def record_since_def track_def
        jsonCache_set_def resp_json_def mk_response_def case_prod_beta)
  then obtain s' where run: "children offline ?f ?s = (Inr [], s')" by blast
  then obtain listing where l: "names offline (contentCID ?f) listing"
    using children_authentic [OF offline_no_sw r run] by blast
  moreover have "names offline (contentCID ?f) (JObj [])"
    unfolding names_def by (rule exI [of _ "json_bytes (JObj [])"]) (simp add: contentCID_def)
  ultimately show ?thesis using run by (auto simp: contentCID_def)
qed

text \<open>A server with one file \<open>a\<close>, for the witness of \<open>lookup\<close>.\<close>

definition tiny_meta :: jsv where
  "tiny_meta = meta_json ''blob'' 0 ''Qc'' 420 ''t''"

definition tiny_cid :: string where
  "tiny_cid = computeCID offline (json_bytes tiny_meta)"

definition ok_body :: "jsv \<Rightarrow> response" where
  "ok_body d = \<lparr>rs_status = 200, rs_headers = [], rs_body = Inr (json_bytes d)\<rparr>"

definition tiny_answer :: jsv where
  "tiny_answer = JObj [(''paths'', JArr [JObj [(''path'', JStr ''a''), (''addr'', JStr tiny_cid)]])]"

definition tiny :: "unit platform" where
  "tiny = \<lparr>p_fetch = (\<lambda>rq w. (Inr (ok_body (if rq_method rq = ''POST'' then tiny_answer else tiny_meta)), w)),
     p_now = (\<lambda>_. 0), p_perf = (\<lambda>_. 0), p_digest = id\<rparr>"

lemma tiny_no_sw: "no_sw_header tiny"
  by (simp add: no_sw_header_def tiny_def ok_body_def header_get_def)

lemma tiny_parse: "resp_json (ok_body tiny_answer) = Inr tiny_answer" "resp_json (ok_body tiny_meta) = Inr tiny_meta"
  "resp_ok (ok_body d)" "rs_status (ok_body d) = 200" "header_get (ok_body d) k = None"
  by (simp_all add: resp_json_def ok_body_def resp_ok_def header_get_def tiny_answer_def tiny_meta_def meta_json_def)

lemma tiny_verify: "verify tiny (ok_body tiny_meta) tiny_cid = Inr (ok_body tiny_meta)"
  by (simp add: verify_def ok_body_def resp_bytes_def tiny_cid_def computeCID_def multihash_def tiny_def offline_def)

lemma tiny_paths: "response_paths tiny_answer = Inr [JObj [(''path'', JStr ''a''), (''addr'', JStr tiny_cid)]]"
  "js_prop_strict tiny_answer ''paths'' = Inr (JArr [JObj [(''path'', JStr ''a''), (''addr'', JStr tiny_cid)]])"
  by (simp_all add: response_paths_def tiny_answer_def)

lemma tiny_cid_ne: "tiny_cid \<noteq> []"
proof -
  have "0 < val_be 256 4640 (map unat (p_digest offline (json_bytes tiny_meta)))"
    by (subst val_be_acc) simp
  then show ?thesis
    using digits58_nonempty
    by (simp add: tiny_cid_def computeCID_def base58Encode_is_spec base58_spec_def multihash_def bytes_val_def)
qed


end
