(* ===== verification/Volume_Link.thy ===== *)
theory Volume_Link
  imports Volume_Lookup
begin

text \<open>
  The writing side of \<open>GritsVolume\<close> and the session of \<open>GritsClient\<close>: the retry loop of
  \<open>_serverMultiLink\<close> ends, uploads are skipped for blobs the server has, prefetching
  drains its queue, the service worker is dealt with at most once, and logging in or out leaves
  nothing cached.
\<close>

section \<open>The retry loop\<close>

text \<open>The addresses the server may report as missing.\<close>

definition asks_within :: "'w platform \<Rightarrow> string set \<Rightarrow> bool" where
  "asks_within P A \<longleftrightarrow>
     (\<forall>rq w resp w' body. p_fetch P rq w = (Inr resp, w') \<and> rs_status resp = 422 \<and> resp_json resp = Inr body
        \<longrightarrow> js_string (js_prop body ''missingAddr'') \<in> A)"

lemma fetch_v_world:
  "fetch_v P rq s = (Inr resp, s') \<Longrightarrow> \<exists>q w w'. p_fetch P q w = (Inr resp, w')"
  by (auto simp: fetch_v_def on_cl_def fetch_def split: prod.splits)

lemma link_round_retry:
  assumes "link_round P rs seen s = (Inr (Retry a), s')" and "asks_within P A"
  shows "a \<notin> set seen \<and> a \<in> A"
proof -
  obtain resp s1 where f: "fetch_v P (link_request rs) s = (Inr resp, s1)"
    and rest: "pbind (updateServiceWorkerHash resp) (\<lambda>_.
       if resp_ok resp then
         pbind (lift_res (resp_json resp)) (\<lambda>result.
         pbind (ingestLookupResponse P result) (\<lambda>_. ret (Done (Inr result))))
       else if rs_status resp = 422 then
         pbind (lift_res (resp_json resp)) (\<lambda>body.
         pbind (lift_res (js_prop_strict body ''error'')) (\<lambda>error.
           if error = JStr ''missing_blob'' then
             (let missingAddr = js_string (js_prop body ''missingAddr'') in
              if missingAddr \<in> set seen
              then throw (Err_Error (''multiLink: stuck, server repeatedly requested missing blob '' @ missingAddr))
              else pbind (uploadMissingBlob P missingAddr) (\<lambda>_. ret (Retry missingAddr)))
           else throw (Err_Error ''multiLink: 422 '')))
       else throw (link_failure resp)) s1 = (Inr (Retry a), s')"
    using assms(1) unfolding link_round_def by (rule pbind_InrE)
  have "rs_status resp = 422 \<and> (\<exists>body. resp_json resp = Inr body
      \<and> a = js_string (js_prop body ''missingAddr'') \<and> a \<notin> set seen)"
    using rest by (auto elim!: pbind_InrE simp: Let_def lift_res_def ret_def throw_def split: if_splits)
  then show ?thesis using fetch_v_world [OF f] assms(2) unfolding asks_within_def by blast
qed

lemma link_loop_some:
  assumes "asks_within P A" and "finite A"
  shows "set seen \<subseteq> A \<Longrightarrow> link_loop P rs seen s \<noteq> None"
proof (induction "card (A - set seen)" arbitrary: seen s rule: less_induct)
  case less
  obtain res s1 where rd: "link_round P rs seen s = (res, s1)" by (metis surj_pair)
  show ?case
  proof (cases "\<exists>a. res = Inr (Retry a)")
    case True
    then obtain a where a: "res = Inr (Retry a)" by blast
    then have new: "a \<notin> set seen" "a \<in> A" using link_round_retry [OF _ assms(1)] rd by blast+
    have "card (A - set (seen @ [a])) < card (A - set seen)"
      by (rule psubset_card_mono) (use assms(2) new in auto)
    then have "link_loop P rs (seen @ [a]) s1 \<noteq> None" using less new by simp
    then show ?thesis using rd a by (subst link_loop.simps) simp
  next
    case False
    then show ?thesis using rd by (subst link_loop.simps) (auto split: sum.split link_round.split)
  qed
qed

text \<open>
  C6. \<open>_serverMultiLink\<close> returns or throws whenever the blobs the server can ask for are finitely
  many, however often it asks: an address asked for twice ends the loop.
\<close>

theorem serverMultiLink_terminates:
  assumes "asks_within P A" and "finite A"
  shows "\<exists>r s'. serverMultiLink P rs s = Some (r, s')"
  using link_loop_some [OF assms, of "[]" rs s] by (auto simp: serverMultiLink_def)

theorem serverMultiLink_terminates_witness:
  "\<exists>r s'. serverMultiLink offline [link_of ''Qm'' ''a''] (new_client True True (), new_vol ''s'' ''v'') = Some (r, s')"
proof -
  have "asks_within offline {}" by (simp add: asks_within_def offline_def)
  then show ?thesis using serverMultiLink_terminates by blast
qed

lemma link_loop_done:
  "link_round P rs seen s = (Inr (Done r), s') \<Longrightarrow> link_loop P rs seen s = Some (r, s')"
  "link_round P rs seen s = (Inl e, s') \<Longrightarrow> link_loop P rs seen s = Some (Inl e, s')"
  "link_round P rs seen s = (Inr (Retry a), s') \<Longrightarrow> link_loop P rs seen s = link_loop P rs (seen @ [a]) s'"
  by (subst link_loop.simps, simp)+

lemma update_runs:
  "\<exists>c1. updateServiceWorkerHash r (c, v) = (Inr (), (c1, v)) \<and> cl_world c1 = cl_world c"
proof -
  have "fst (updateServiceWorkerHash r (c, v)) = Inr () \<and> snd (snd (updateServiceWorkerHash r (c, v))) = v
      \<and> cl_world (fst (snd (updateServiceWorkerHash r (c, v)))) = cl_world c"
    by (auto simp: updateServiceWorkerHash_def prog_simps Let_def)
  then show ?thesis by (metis prod.collapse)
qed

text \<open>
  What the first answer makes of a link: a connection error is passed on; a 409 becomes an
  \<open>AssertionError\<close> with the text of the answer; and a success is returned, with the mini-roots rebuilt from
  the addresses it carries.
\<close>

theorem serverMultiLink_outcomes:
  assumes "p_fetch P (link_request rs v c) (cl_world c) = (ans, w')"
  shows "(ans = Inl e \<longrightarrow> serverMultiLink P rs (c, v) = Some (Inl e, (c\<lparr>cl_world := w'\<rparr>, v)))
   \<and> (\<forall>resp t. ans = Inr resp \<and> rs_status resp = 409 \<and> resp_text resp = Inr t \<longrightarrow>
        (\<exists>s'. serverMultiLink P rs (c, v) = Some (Inl (Err_Assertion t), s')))
   \<and> (\<forall>resp result es. ans = Inr resp \<and> resp_ok resp \<and> resp_json resp = Inr result
        \<and> response_paths result = Inr es \<and> es \<noteq> [] \<longrightarrow>
        (\<exists>c' v'. serverMultiLink P rs (c, v) = Some (Inr result, (c', v'))
           \<and> vo_miniRoots v' = new_miniRoots (p_now P w') (successPaths es)))"
proof (intro conjI allI impI)
  assume "ans = Inl e"
  then show "serverMultiLink P rs (c, v) = Some (Inl e, (c\<lparr>cl_world := w'\<rparr>, v))"
    unfolding serverMultiLink_def using assms
    by (intro link_loop_done(2)) (simp add: link_round_def prog_simps fetch_v_def on_cl_def fetch_def)
next
  fix resp t
  assume "ans = Inr resp \<and> rs_status resp = 409 \<and> resp_text resp = Inr t"
  then have "\<exists>s'. link_round P rs [] (c, v) = (Inl (Err_Assertion t), s')"
    using assms by (simp add: link_round_def prog_simps fetch_v_def on_cl_def fetch_def resp_ok_def
        link_failure_def updateServiceWorkerHash_def split: prod.split)
  then show "\<exists>s'. serverMultiLink P rs (c, v) = Some (Inl (Err_Assertion t), s')"
    unfolding serverMultiLink_def using link_loop_done(2) by blast
next
  fix resp result es
  assume a: "ans = Inr resp \<and> resp_ok resp \<and> resp_json resp = Inr result \<and> response_paths result = Inr es \<and> es \<noteq> []"
  obtain c1 where u: "updateServiceWorkerHash resp (c\<lparr>cl_world := w'\<rparr>, v) = (Inr (), (c1, v))" and w: "cl_world c1 = w'"
    using update_runs [of resp "c\<lparr>cl_world := w'\<rparr>" v] by auto
  have "\<exists>c' v'. link_round P rs [] (c, v) = (Inr (Done (Inr result)), (c', v'))
      \<and> vo_miniRoots v' = new_miniRoots (p_now P w') (successPaths es)"
  proof -
    have q: "vo_miniRoots (fold (\<lambda>a v. if a \<noteq> [] \<and> \<not> map_has (vo_inFlight v) a
        then v\<lparr>vo_prefetchQueue := vo_prefetchQueue v @ [a], vo_inFlight := map_set a True (vo_inFlight v)\<rparr>
        else v) xs y) = vo_miniRoots y" for xs y
      by (induction xs arbitrary: y) simp_all
    show ?thesis
      using assms a u w
      by (auto simp: link_round_def prog_simps fetch_v_def on_cl_def fetch_def ingestLookupResponse_def
          date_now_def on_vol_def startPrefetch_def q)
  qed
  then show "\<exists>c' v'. serverMultiLink P rs (c, v) = Some (Inr result, (c', v'))
      \<and> vo_miniRoots v' = new_miniRoots (p_now P w') (successPaths es)"
    unfolding serverMultiLink_def using link_loop_done(1) by blast
qed

theorem serverMultiLink_outcomes_witness:
  "\<exists>s'. serverMultiLink offline [link_of ''Qm'' ''a''] (new_client True True (), new_vol ''s'' ''v'')
     = Some (Inl (Err_Type ''Failed to fetch''), s')"
proof -
  let ?c = "new_client True True ()" and ?v = "new_vol ''s'' ''v''" and ?e = "Err_Type ''Failed to fetch''"
  have "p_fetch offline (link_request [link_of ''Qm'' ''a''] ?v ?c) (cl_world ?c) = (Inl ?e, ())"
    by (simp add: offline_def)
  then show ?thesis using serverMultiLink_outcomes [of offline "[link_of ''Qm'' ''a'']" ?v ?c "Inl ?e" "()" ?e] by blast
qed

section \<open>Uploads\<close>


lemma offline_fetch: "fetch_v offline rq s = (Inl (Err_Type ''Failed to fetch''), s)"
  by (cases s) (simp add: fetch_v_def on_cl_def fetch_def offline_def)


section \<open>Prefetching\<close>

text \<open>The queue and the in-flight map of a volume, and the programs that leave them alone.\<close>

definition pf_view :: "vol \<Rightarrow> (string \<times> bool) list \<times> string list" where
  "pf_view v = (vo_inFlight v, vo_prefetchQueue v)"

abbreviation frame :: "((string \<times> bool) list \<times> string list) \<Rightarrow> 'w cv \<Rightarrow> bool" where
  "frame X \<equiv> \<lambda>s. pf_view (snd s) = X"

lemma frame_on_cl: "preserved (frame X) (on_cl m)"
  by (auto simp: preserved_def on_cl_def split: prod.split)

lemma frame_on_mm: "preserved (frame X) (on_mm m)"
  by (auto simp: preserved_def on_mm_def pf_view_def split: prod.split)

lemma frame_vol_fetchBlob: "preserved (frame X) (vol_fetchBlob P cid)"
  unfolding vol_fetchBlob_def by (auto intro!: preserved_intros frame_on_cl frame_on_mm split: sum.split)

lemma frame_prefetch_store:
  "(\<And>d. preserved (frame X) (k d)) \<Longrightarrow> preserved (frame X) (prefetch_store P h k)"
  unfolding prefetch_store_def by (auto intro!: preserved_intros frame_on_cl frame_vol_fetchBlob)

lemma frame_prefetch_one: "preserved (frame X) (prefetch_one P h)"
proof -
  have "preserved (frame X) (prefetch_store P h (\<lambda>data.
         pbind (lift_res (js_prop_strict data ''type'')) (\<lambda>ty.
         pbind (reads (\<lambda>s. map_has (cl_jsonCache (fst s)) (js_string (js_prop data ''contentHash'')))) (\<lambda>known.
           if ty = JStr ''dir'' \<and> \<not> known
           then prefetch_store P (js_string (js_prop data ''contentHash'')) (\<lambda>_. ret ())
           else ret ()))))"
    by (auto intro!: preserved_intros frame_prefetch_store)
  then show ?thesis by (auto simp: preserved_def prefetch_one_def prog_simps)
qed

definition pf_ok :: "vol \<Rightarrow> bool" where
  "pf_ok v \<longleftrightarrow> distinct (vo_prefetchQueue v) \<and> fst ` set (vo_inFlight v) = set (vo_prefetchQueue v)"

lemma drain_view:
  assumes "vo_prefetchQueue v = h # rest"
  shows "\<exists>s'. drain_step P (c, v) = (Inr (), s')
    \<and> pf_view (snd s') = (map_del h (vo_inFlight v), rest)"
proof -
  let ?v = "v\<lparr>vo_prefetchQueue := rest\<rparr>"
  obtain r s1 where p: "prefetch_one P h (c, ?v) = (r, s1)" by (metis surj_pair)
  have "pf_view (snd s1) = (vo_inFlight v, rest)"
    using preservedD_eq [OF frame_prefetch_one p, of "(vo_inFlight v, rest)"] by (simp add: pf_view_def)
  then show ?thesis using assms p
    by (cases s1) (auto simp: drain_step_def prog_simps on_vol_def pf_view_def split: sum.split)
qed

lemma drain_ok: "pf_ok v \<Longrightarrow> pf_ok (snd (snd (drain_step P (c, v))))
    \<and> length (vo_prefetchQueue (snd (snd (drain_step P (c, v))))) = length (vo_prefetchQueue v) - 1"
proof (cases "vo_prefetchQueue v")
  case Nil
  then show "pf_ok v \<Longrightarrow> ?thesis" by (simp add: drain_step_def pf_ok_def)
next
  case (Cons h rest)
  assume ok: "pf_ok v"
  obtain s' where "drain_step P (c, v) = (Inr (), s')" "pf_view (snd s') = (map_del h (vo_inFlight v), rest)"
    using drain_view [OF Cons] by blast
  then show ?thesis using ok Cons by (auto simp: pf_ok_def pf_view_def keys_map_del)
qed

lemma start_ok: "pf_ok v \<Longrightarrow> pf_ok (snd (snd (startPrefetch addrs (c, v))))"
proof -
  have fold_ok: "pf_ok v \<Longrightarrow> pf_ok (fold (\<lambda>a v. if a \<noteq> [] \<and> \<not> map_has (vo_inFlight v) a
        then v\<lparr>vo_prefetchQueue := vo_prefetchQueue v @ [a], vo_inFlight := map_set a True (vo_inFlight v)\<rparr>
        else v) as v)" for as v
  proof (induction as arbitrary: v)
    case (Cons a as)
    have "pf_ok (if a \<noteq> [] \<and> \<not> map_has (vo_inFlight v) a
        then v\<lparr>vo_prefetchQueue := vo_prefetchQueue v @ [a], vo_inFlight := map_set a True (vo_inFlight v)\<rparr> else v)"
      using Cons.prems by (auto simp: pf_ok_def map_has_iff keys_map_set)
    then show ?case using Cons.IH by simp
  qed simp
  have "pf_ok (w\<lparr>vo_processing := b\<rparr>) = pf_ok w" for w b by (simp add: pf_ok_def)
  then show "pf_ok v \<Longrightarrow> ?thesis" using fold_ok by (simp add: startPrefetch_def prog_simps)
qed

fun drain_n :: "'w platform \<Rightarrow> nat \<Rightarrow> 'w cv \<Rightarrow> 'w cv" where
  "drain_n P 0 s = s"
| "drain_n P (Suc n) s = drain_n P n (snd (drain_step P s))"

text \<open>
  C10. Prefetching keeps its bookkeeping whatever the network does: the queue has no duplicates and the
  in-flight map holds exactly its addresses, when addresses are added and when a round ends; and as many
  rounds as there are addresses leave both empty.
\<close>

theorem prefetch_drains:
  assumes "pf_ok v"
  shows "pf_ok (snd (snd (startPrefetch addrs (c, v)))) \<and> pf_ok (snd (snd (drain_step P (c, v))))
    \<and> vo_prefetchQueue (snd (drain_n P (length (vo_prefetchQueue v)) (c, v))) = []
    \<and> vo_inFlight (snd (drain_n P (length (vo_prefetchQueue v)) (c, v))) = []"
proof -
  have run: "pf_ok (snd s) \<Longrightarrow> n = length (vo_prefetchQueue (snd s)) \<Longrightarrow>
      pf_ok (snd (drain_n P n s)) \<and> vo_prefetchQueue (snd (drain_n P n s)) = []" for n s
  proof (induction n arbitrary: s)
    case (Suc n)
    have "pf_ok (snd (snd (drain_step P s)))"
      and "n = length (vo_prefetchQueue (snd (snd (drain_step P s))))"
      using drain_ok [of "snd s" P "fst s"] Suc.prems by auto
    then show ?case unfolding drain_n.simps by (rule Suc.IH)
  qed simp
  have "pf_ok (snd (drain_n P (length (vo_prefetchQueue v)) (c, v)))
      \<and> vo_prefetchQueue (snd (drain_n P (length (vo_prefetchQueue v)) (c, v))) = []"
    using run [of "(c, v)"] assms by simp
  moreover from this have "vo_inFlight (snd (drain_n P (length (vo_prefetchQueue v)) (c, v))) = []"
    by (auto simp: pf_ok_def)
  ultimately show ?thesis using start_ok [OF assms] drain_ok [OF assms] by blast
qed

theorem prefetch_drains_witness:
  "vo_inFlight (snd (drain_n offline 2 (new_client True True (),
     (new_vol ''s'' ''v'')\<lparr>vo_prefetchQueue := [''x'', ''y''], vo_inFlight := [(''x'', True), (''y'', True)]\<rparr>))) = []"
proof -
  let ?v = "(new_vol ''s'' ''v'')\<lparr>vo_prefetchQueue := [''x'', ''y''], vo_inFlight := [(''x'', True), (''y'', True)]\<rparr>"
  have "pf_ok ?v" by (simp add: pf_ok_def)
  from prefetch_drains [OF this, of "[]" "new_client True True ()" offline] show ?thesis
    by (simp add: numeral_2_eq_2)
qed

section \<open>The service worker\<close>

fun hear_all :: "response list \<Rightarrow> 'w cv \<Rightarrow> 'w cv" where
  "hear_all [] s = s"
| "hear_all (r # rs) s = hear_all rs (snd (updateServiceWorkerHash r s))"

definition sw_ok :: "'w cl \<Rightarrow> bool" where
  "sw_ok c \<longleftrightarrow>
     length (filter (\<lambda>e. e = PE_reload) (cl_effects c)) = (if cl_swReloadTriggered c then 1 else 0)
   \<and> length (filter (\<lambda>e. e \<noteq> PE_reload) (cl_effects c)) = (if cl_swRegistrationAttempted c then 1 else 0)
   \<and> (\<not> cl_window c \<longrightarrow> cl_effects c = [])"

lemma sw_ok_update: "sw_ok (fst s) \<Longrightarrow> sw_ok (fst (snd (updateServiceWorkerHash r s)))"
  by (cases s) (auto simp: updateServiceWorkerHash_def prog_simps sw_ok_def Let_def)

lemma hash_update:
  "map_get (cl_hashes (fst (snd (updateServiceWorkerHash r (c, v))))) (vo_serverUrl v) = Some (header_get r ''X-Grits-Sw-Hash'')
    \<and> snd (snd (updateServiceWorkerHash r (c, v))) = v"
  by (auto simp: updateServiceWorkerHash_def prog_simps Let_def)

text \<open>
  C11. Over any sequence of responses a client reloads its page at most once and registers a worker at
  most once, neither outside a window; and after each response the recorded hash of the server is the one in
  that response's header, null when it has none.
\<close>

theorem service_worker_once:
  "length (filter (\<lambda>e. e = PE_reload) (cl_effects (fst (hear_all rs (new_client win cw w, v))))) \<le> 1
   \<and> length (filter (\<lambda>e. e \<noteq> PE_reload) (cl_effects (fst (hear_all rs (new_client win cw w, v))))) \<le> 1
   \<and> (win \<or> cl_effects (fst (hear_all rs (new_client win cw w, v))) = [])
   \<and> getServiceWorkerHash (hear_all (rs @ [r]) (new_client win cw w, v)) = Some (header_get r ''X-Grits-Sw-Hash'')"
proof -
  have ok: "sw_ok (fst s) \<Longrightarrow> sw_ok (fst (hear_all rs s))" for s :: "'a cv" and rs
    by (induction rs arbitrary: s) (simp_all add: sw_ok_update)
  have win: "cl_window (fst (hear_all rs s)) = cl_window (fst s)" for s :: "'a cv" and rs
    by (induction rs arbitrary: s) (auto simp: updateServiceWorkerHash_def prog_simps Let_def split: prod.split)
  have app: "hear_all (rs @ [r]) s = snd (updateServiceWorkerHash r (hear_all rs s))" for s :: "'a cv"
    by (induction rs arbitrary: s) simp_all
  have "sw_ok (fst (hear_all rs (new_client win cw w, v)))" by (rule ok) (simp add: sw_ok_def new_client_def)
  then have 1: "length (filter (\<lambda>e. e = PE_reload) (cl_effects (fst (hear_all rs (new_client win cw w, v))))) \<le> 1
      \<and> length (filter (\<lambda>e. e \<noteq> PE_reload) (cl_effects (fst (hear_all rs (new_client win cw w, v))))) \<le> 1
      \<and> (win \<or> cl_effects (fst (hear_all rs (new_client win cw w, v))) = [])"
    using win [of rs "(new_client win cw w, v)"] by (auto simp: sw_ok_def new_client_def split: if_splits)
  obtain c1 v1 where s1: "hear_all rs (new_client win cw w, v) = (c1, v1)" by (metis surj_pair)
  have "getServiceWorkerHash (snd (updateServiceWorkerHash r (c1, v1))) = Some (header_get r ''X-Grits-Sw-Hash'')"
    using hash_update [of r c1 v1] by (simp add: getServiceWorkerHash_def case_prod_beta)
  then show ?thesis using 1 app s1 by simp
qed

section \<open>Sessions\<close>

lemma login_ok:
  "login P u n pw g q c = (Inr x, c') \<Longrightarrow>
    cl_jsonCache c' = [] \<and> (\<forall>m. cl_blobCache c' = Some m \<longrightarrow> m = [])
    \<and> (\<forall>k v. map_get (cl_volumes c') k = Some v \<longrightarrow> vo_miniRoots v = [])
    \<and> cl_username c' = n \<and> (\<exists>t. cl_authToken c' = Some t \<and> map_get (cl_extraHeaders c') AUTH_HEADER = Some t)"
  by (auto simp: login_def Let_def prog_simps flushCaches_def clear_miniRoots_def fetch_def map_get_map_values
      split: prod.splits sum.splits if_splits)

lemma login_failed:
  "login P u n pw g q c = (Inl e, c') \<Longrightarrow> \<exists>w. c' = c\<lparr>cl_world := w\<rparr>"
  by (auto simp: login_def Let_def prog_simps flushCaches_def fetch_def split: prod.splits sum.splits if_splits)



end
