(* ===== verification/Volume_Desync.thy ===== *)
theory Volume_Desync
  imports Volume_Lookup
begin

text \<open>
  The desync paths of \<open>GritsVolume\<close>: lookups that start from a pending write, and links that are
  queued after a local check. The code reaches them only with \<open>DESYNC_MODE\<close>, a constant that is
  false; they take the queue of Desync as it is and the caches of the client. Awaiting a write is an
  argument: the program of the flush worker until then.
\<close>

section \<open>Lookups\<close>

definition desync_request :: "string \<Rightarrow> string \<Rightarrow> vol \<Rightarrow> 'w cl \<Rightarrow> request" where
  "desync_request serverRelPath startAddr v c =
     post_json (vo_serverUrl v @ ''/grits/v1/lookup'')
       (serverHeaders [(''Content-Type'', ''application/json'')] c)
       (JObj [(''volume'', JStr (vo_volume v)), (''paths'', JArr [JStr serverRelPath]),
              (''startAddr'', JStr startAddr)])"

text \<open>
  The server's part of \<open>_desyncLookup\<close>. The callback of \<open>result.paths?.find\<close> compares with a
  variable \<open>path\<close> that does not exist, so any path in the answer raises a ReferenceError.
\<close>

definition desync_server :: "'w platform \<Rightarrow> string \<Rightarrow> string \<Rightarrow> string \<Rightarrow> ('w cv, info option) prog" where
  "desync_server P targetPath startAddr serverRelPath =
     pbind (fetch_v P (desync_request serverRelPath startAddr)) (\<lambda>resp.
     pbind (updateServiceWorkerHash resp) (\<lambda>_.
       if rs_status resp = 403 then
         pbind (lift_res (denied_path targetPath resp)) (\<lambda>p. throw (Err_AccessDenied p))
       else if \<not> resp_ok resp then ret None
       else
         pbind (lift_res (resp_json resp)) (\<lambda>result.
         pbind (lift_res (response_paths result)) (\<lambda>es.
         pbind (startPrefetch (map (field ''addr'') es)) (\<lambda>_.
           if es = [] then ret None else throw (Err_Reference ''path is not defined''))))))"

definition desyncLookup ::
  "'w platform \<Rightarrow> string \<Rightarrow> string \<times> string option \<times> nat \<Rightarrow> ('w cv, info option) prog" where
  "desyncLookup P targetPath override =
     (let (opath, oaddr, _) = override; addr = or_else oaddr [] in
      if opath = targetPath then
        (if addr = [] then ret None
         else ret (Some \<lparr>in_metadataHash = addr, in_contentHash = JNull, in_contentSize = JNum 0\<rparr>))
      else
        (let relativePath = (if opath = [] then targetPath else drop (length opath + 1) targetPath) in
         pbind (attempt (on_cl (fastWalk P relativePath [] addr))) (\<lambda>walkResult.
           case walkResult of
             Inl _ \<Rightarrow> ret None
           | Inr (Hit i) \<Rightarrow> ret (Some i)
           | Inr (Partial startAddr serverRelPath) \<Rightarrow> desync_server P targetPath startAddr serverRelPath)))"

text \<open>
  The routing of \<open>_lookup_internal\<close> with a queue: a write at or above the path is followed locally; a
  write below it is awaited; otherwise the lookup goes on as without a queue.
\<close>

definition lookup_desync ::
  "'w platform \<Rightarrow> (nat \<Rightarrow> ('w cv, unit) prog) \<Rightarrow> race \<Rightarrow> string \<Rightarrow> ('w cv, info option) prog" where
  "lookup_desync P await race path = (\<lambda>s.
     let n = normalizePath path in
     if cl_swControlled (fst s) then slowLookup P n s
     else case vo_desync (snd s) of
       None \<Rightarrow> lookup_internal P race path s
     | Some d \<Rightarrow>
         (case findAncestorOverride d n of
            Some override \<Rightarrow> desyncLookup P n override s
          | None \<Rightarrow>
              (let seq = findDescendantSeq d n in
               pbind (if seq \<ge> 0 then await (nat seq) else ret ())
                 (\<lambda>_. lookup_internal P race path) s)))"

definition waitForDescendants :: "(nat \<Rightarrow> ('w cv, unit) prog) \<Rightarrow> string \<Rightarrow> ('w cv, unit) prog" where
  "waitForDescendants await dirPath = (\<lambda>s.
     case vo_desync (snd s) of
       None \<Rightarrow> ret () s
     | Some d \<Rightarrow>
         (let seq = findDescendantSeq d dirPath in
          if seq < 0 then ret () s else await (nat seq) s))"

section \<open>Links\<close>

definition enqueue_v :: "string \<Rightarrow> string \<Rightarrow> int \<Rightarrow> string \<Rightarrow> vol \<Rightarrow> vol" where
  "enqueue_v path addr ass prevAddr v =
     v\<lparr>vo_desync := map_option (enqueue path (Some addr) ass prevAddr) (vo_desync v)\<rparr>"

text \<open>The local check of a request: any failure of the lookup counts as an absent file.\<close>

definition desync_check ::
  "(string \<Rightarrow> ('w cv, gfile) prog) \<Rightarrow> string \<Rightarrow> int \<Rightarrow> string \<Rightarrow> ('w cv, unit) prog" where
  "desync_check look path ass prevAddr =
     (if ass = 0 then ret ()
      else
        pbind (attempt (look path)) (\<lambda>r.
          case checkAssertions ass prevAddr (case r of Inl _ \<Rightarrow> None | Inr f \<Rightarrow> Some f) of
            None \<Rightarrow> ret ()
          | Some msg \<Rightarrow> throw (Err_Assertion msg)))"

definition desync_one :: "(string \<Rightarrow> ('w cv, gfile) prog) \<Rightarrow> link_arg \<Rightarrow> ('w cv, unit) prog" where
  "desync_one look r =
     (let path = normalizePath (la_path r); addr = or_else (la_addr r) []; prevAddr = or_else (la_prev r) [];
          ass = or_else (la_assert r) 0
      in pbind (desync_check look path ass prevAddr) (\<lambda>_. on_vol (enqueue_v path addr ass prevAddr)))"

text \<open>
  \<open>_desyncMultiLink\<close>: the answer is made from a lookup of the first path after all are queued;
  \<open>look\<close> and \<open>look_info\<close> are \<open>lookup\<close> and \<open>_lookup_internal\<close>.
\<close>

definition desyncMultiLink ::
  "(string \<Rightarrow> ('w cv, gfile) prog) \<Rightarrow> (string \<Rightarrow> ('w cv, info option) prog) \<Rightarrow> link_arg list \<Rightarrow> ('w cv, jsv) prog" where
  "desyncMultiLink look look_info requests =
     pbind (for_each requests (desync_one look)) (\<lambda>_.
       case requests of
         [] \<Rightarrow> throw (Err_Type ''Cannot read properties of undefined (reading path)'')
       | r # _ \<Rightarrow>
           (let primaryPath = normalizePath (la_path r) in
            pbind (look_info primaryPath) (\<lambda>info.
              case info of
                None \<Rightarrow> ret (JObj [(''paths'', JArr [])])
              | Some i \<Rightarrow> ret (JObj [(''paths'', JArr [JObj [(''path'', JStr primaryPath),
                  (''addr'', JStr (in_metadataHash i)), (''size'', in_contentSize i)]])]))))"

text \<open>\<open>multiLink\<close>, with \<open>None\<close> for a server loop that does not end.\<close>

definition multiLink ::
  "'w platform \<Rightarrow> (string \<Rightarrow> ('w cv, gfile) prog) \<Rightarrow> (string \<Rightarrow> ('w cv, info option) prog) \<Rightarrow> link_arg list
    \<Rightarrow> 'w cv \<Rightarrow> ((err + jsv) \<times> 'w cv) option" where
  "multiLink P look look_info requests s =
     (if DESYNC_MODE then Some (desyncMultiLink look look_info requests s) else serverMultiLink P requests s)"

section \<open>Reading one's own writes\<close>

lemma ancestor_newest:
  assumes "dq_core d" and "map_get (dq_overrides d) p = Some e" and "de_seq e = dq_seq d" and "isAncestorOrSelf p t"
  shows "findAncestorOverride d t = Some (p, de_addr e, de_seq e)"
proof -
  have dist: "distinct (map fst (dq_overrides d))" using dq_coreD(6) [OF assms(1)] .
  have inp: "(p, e) \<in> set (dq_overrides d)" using assms(2) by (rule map_of_SomeD)
  obtain q f where a: "ancestor_loop t None (dq_overrides d) = Some (q, f)"
    using ancestor_loop_None [of t None "dq_overrides d"] inp assms(4) by (cases "ancestor_loop t None (dq_overrides d)") auto
  have inq: "(q, f) \<in> set (dq_overrides d)" using ancestor_loop_in [OF a] by simp
  have le: "de_seq e \<le> de_seq f" using ancestor_loop_max [OF a inp assms(4)] .
  have "item_of q f \<in> set (dq_queue d)" using dq_coreD(3) [OF assms(1)] inq dist by simp
  then have "de_seq f \<le> dq_seq d" using dq_coreD(2) [OF assms(1)] by (fastforce simp: item_of_def)
  then have same: "de_seq f = de_seq e" using le assms(3) by simp
  have "item_of p e \<in> set (dq_queue d)" using dq_coreD(3) [OF assms(1,2)] .
  moreover have "item_of q f \<in> set (dq_queue d)" by fact
  moreover have "inj_on di_seq (set (dq_queue d))"
    using dq_coreD(1) [OF assms(1)] by (simp add: strict_sorted_iff distinct_map)
  moreover have "di_seq (item_of p e) = di_seq (item_of q f)" using same by (simp add: item_of_def)
  ultimately have "item_of p e = item_of q f" by (meson inj_onD)
  then have "p = q \<and> de_addr f = de_addr e" by (simp add: item_of_def)
  then show ?thesis using a same by (simp add: findAncestorOverride_def)
qed

lemma flush_loop_seq: "dq_seq (flush_loop d) = dq_seq d"
  by (induction d rule: flush_loop.induct) (subst flush_loop.simps, simp split: list.split)

lemma flush_keeps_current:
  "map_get (dq_overrides (flush_loop d)) p = map_get (dq_overrides d) p"
  by (induction d rule: flush_loop.induct) (subst flush_loop.simps, simp split: list.split)

lemma enqueue_override:
  "map_get (dq_overrides (enqueue p a ass prev d)) p
     = Some \<lparr>de_addr = a, de_assert = ass, de_prev = prev, de_seq = Suc (dq_seq d)\<rparr>
   \<and> dq_seq (enqueue p a ass prev d) = Suc (dq_seq d)"
  by (simp add: enqueue_def Let_def kick_def flush_loop_seq flush_keeps_current)

text \<open>
  C21. In desync mode a client reads its own writes at once: right after a link to \<open>p\<close> is queued, a lookup
  of \<open>p\<close> gives the address linked, without asking anyone, and not-found after an unlink; lookups
  of other paths with no pending write at, above or below them are those of a volume without a queue.
\<close>

theorem desync_read_your_writes:
  assumes "dq_reach d" and "vo_desync (snd s) = Some (enqueue (normalizePath p) (Some a) ass prev d)"
    and "\<not> cl_swControlled (fst s)"
  shows "lookup_desync P await race p s =
      (Inr (if a = [] then None
            else Some \<lparr>in_metadataHash = a, in_contentHash = JNull, in_contentSize = JNum 0\<rparr>), s)
    \<and> (\<forall>q. findAncestorOverride (enqueue (normalizePath p) (Some a) ass prev d) (normalizePath q) = None
        \<and> findDescendantSeq (enqueue (normalizePath p) (Some a) ass prev d) (normalizePath q) < 0 \<longrightarrow>
        lookup_desync P await race q s = lookup_internal P race q s)"
proof -
  let ?p = "normalizePath p"
  let ?d = "enqueue ?p (Some a) ass prev d"
  have core: "dq_core ?d"
    using inv_enqueue [OF reach_inv [OF assms(1)]] by (simp add: dq_inv_def)
  have e: "map_get (dq_overrides ?d) ?p
      = Some \<lparr>de_addr = Some a, de_assert = ass, de_prev = prev, de_seq = Suc (dq_seq d)\<rparr>"
    "dq_seq ?d = Suc (dq_seq d)"
    using enqueue_override [of ?p "Some a" ass prev d] by auto
  have "findAncestorOverride ?d ?p = Some (?p, Some a, Suc (dq_seq d))"
    using ancestor_newest [OF core e(1)] e(2) by simp
  then show ?thesis using assms(2,3)
    by (auto simp: lookup_desync_def Let_def desyncLookup_def prog_simps)
qed

theorem desync_read_your_writes_witness:
  "fst (lookup_desync offline (\<lambda>_. ret ()) Fast_first ''/a/'' (new_client True True (),
     (new_vol ''s'' ''v'')\<lparr>vo_desync := Some (enqueue (normalizePath ''/a/'') (Some []) 0 [] new_desync)\<rparr>)) = Inr None"
proof -
  let ?s = "(new_client True True (),
     (new_vol ''s'' ''v'')\<lparr>vo_desync := Some (enqueue (normalizePath ''/a/'') (Some []) 0 [] new_desync)\<rparr>)"
  have 1: "vo_desync (snd ?s) = Some (enqueue (normalizePath ''/a/'') (Some []) 0 [] new_desync)" by simp
  have 2: "\<not> cl_swControlled (fst ?s)" by (simp add: new_client_def)
  from desync_read_your_writes [OF dq_reach.start 1 2, of offline "\<lambda>_. ret ()" Fast_first] show ?thesis by simp
qed

text \<open>
  A desync lookup below a pending write whose nodes are not all cached cannot succeed: after
  the server has answered with a path, the lookup ends in a ReferenceError.
\<close>

theorem desync_server_walk_fails:
  assumes "p_fetch P (desync_request rel start v c) (cl_world c) = (Inr resp, w')" and "resp_ok resp"
    and "resp_json resp = Inr result" and "response_paths result = Inr (e # es)"
  shows "\<exists>s'. desync_server P target start rel (c, v) = (Inl (Err_Reference ''path is not defined''), s')"
proof -
  have "fst (updateServiceWorkerHash resp s) = Inr ()" for s
    by (cases s) (simp add: updateServiceWorkerHash_def prog_simps)
  then show ?thesis using assms
    by (simp add: desync_server_def prog_simps fetch_v_def on_cl_def fetch_def startPrefetch_def resp_ok_def
        updateServiceWorkerHash_def split: prod.split)
qed

theorem desync_server_walk_fails_witness:
  "\<exists>s'. desync_server tiny ''a'' ''Qm'' ''a'' (new_client True True (), new_vol ''s'' ''v'')
     = (Inl (Err_Reference ''path is not defined''), s')"
proof -
  let ?c = "new_client True True ()" and ?v = "new_vol ''s'' ''v''"
  have 1: "p_fetch tiny (desync_request ''a'' ''Qm'' ?v ?c) (cl_world ?c) = (Inr (ok_body tiny_answer), ())"
    by (simp add: tiny_def desync_request_def post_json_def)
  show ?thesis by (rule desync_server_walk_fails [OF 1 tiny_parse(3) tiny_parse(1) tiny_paths(1)])
qed

end
