(* ===== verification/Shell.thy ===== *)
theory Shell
  imports Volume Paths
begin

text \<open>
  The shell layer of gimbal/ (dispatch.js, result.js, client.js, glob.js): the values that flow through
  a pipeline, the asynchronous programs of the commands, the operations of a volume that commands use,
  the lookup and import of a command by its name, and the memoised promise of a \<open>GimbalResult\<close>.
\<close>

section \<open>Asynchronous programs that may never settle\<close>

text \<open>
  A command body: None when an await never settles (the retry loop of \<open>multiLink\<close> against a
  server that never ends it), otherwise the outcome and the state.
\<close>

type_synonym ('s, 'a) aprog = "'s \<Rightarrow> ((err + 'a) \<times> 's) option"

named_theorems aprog_simps \<open>running asynchronous programs\<close>
named_theorems keeps_intros \<open>rules for asynchronous programs that keep an invariant\<close>

definition arun :: "('s, 'a) prog \<Rightarrow> ('s, 'a) aprog" where
  "arun m = (\<lambda>s. Some (m s))"

definition aret :: "'a \<Rightarrow> ('s, 'a) aprog" where
  "aret x = (\<lambda>s. Some (Inr x, s))"

definition athrow :: "err \<Rightarrow> ('s, 'a) aprog" where
  "athrow e = (\<lambda>s. Some (Inl e, s))"

definition alift :: "err + 'a \<Rightarrow> ('s, 'a) aprog" where
  "alift r = (\<lambda>s. Some (r, s))"

definition abind :: "('s, 'a) aprog \<Rightarrow> ('a \<Rightarrow> ('s, 'b) aprog) \<Rightarrow> ('s, 'b) aprog" where
  "abind m f = (\<lambda>s. case m s of
     None \<Rightarrow> None
   | Some (Inl e, t) \<Rightarrow> Some (Inl e, t)
   | Some (Inr x, t) \<Rightarrow> f x t)"

text \<open>\<open>try { m } catch (e) { h(e) }\<close>\<close>

definition acatch :: "('s, 'a) aprog \<Rightarrow> (err \<Rightarrow> ('s, 'a) aprog) \<Rightarrow> ('s, 'a) aprog" where
  "acatch m h = (\<lambda>s. case m s of
     None \<Rightarrow> None
   | Some (Inl e, t) \<Rightarrow> h e t
   | Some (Inr x, t) \<Rightarrow> Some (Inr x, t))"

text \<open>The outcome of a try block as a value: \<open>continue\<close>, \<open>return\<close> and the like follow in both cases.\<close>

definition atry :: "('s, 'a) aprog \<Rightarrow> ('s, err + 'a) aprog" where
  "atry m = (\<lambda>s. case m s of None \<Rightarrow> None | Some (r, t) \<Rightarrow> Some (Inr r, t))"

fun afor :: "'x list \<Rightarrow> ('x \<Rightarrow> ('s, unit) aprog) \<Rightarrow> ('s, unit) aprog" where
  "afor [] f = aret ()"
| "afor (x # xs) f = abind (f x) (\<lambda>_. afor xs f)"

text \<open>A loop that adds to an accumulator, \<open>results.push\<close> in the code.\<close>

fun aloop :: "'x list \<Rightarrow> ('x \<Rightarrow> 'o \<Rightarrow> ('s, 'o) aprog) \<Rightarrow> 'o \<Rightarrow> ('s, 'o) aprog" where
  "aloop [] f out = aret out"
| "aloop (x # xs) f out = abind (f x out) (aloop xs f)"

lemma aprog_run [aprog_simps]:
  "arun m s = Some (m s)" "aret x s = Some (Inr x, s)" "athrow e s = Some (Inl e, s)" "alift r s = Some (r, s)"
  by (simp_all add: arun_def aret_def athrow_def alift_def)

lemma abind_run [aprog_simps]:
  "m s = None \<Longrightarrow> abind m f s = None"
  "m s = Some (Inl e, t) \<Longrightarrow> abind m f s = Some (Inl e, t)"
  "m s = Some (Inr x, t) \<Longrightarrow> abind m f s = f x t"
  by (simp_all add: abind_def)

lemma acatch_run [aprog_simps]:
  "m s = None \<Longrightarrow> acatch m h s = None"
  "m s = Some (Inl e, t) \<Longrightarrow> acatch m h s = h e t"
  "m s = Some (Inr x, t) \<Longrightarrow> acatch m h s = Some (Inr x, t)"
  by (simp_all add: acatch_def)

lemma atry_run [aprog_simps]:
  "m s = None \<Longrightarrow> atry m s = None" "m s = Some (r, t) \<Longrightarrow> atry m s = Some (Inr r, t)"
  by (simp_all add: atry_def)

lemma abind_aret [simp]: "abind (aret x) f = f x"
  by (rule ext) (simp add: aprog_simps)

lemma abind_athrow [simp]: "abind (athrow e) f = athrow e"
  by (rule ext) (simp add: aprog_simps)

lemma abind_alift_Inr [simp]: "abind (alift (Inr x)) f = f x"
  by (rule ext) (simp add: aprog_simps)

lemma abind_alift_Inl [simp]: "abind (alift (Inl e)) f = athrow e"
  by (rule ext) (simp add: aprog_simps)

subsection \<open>Programs that keep an invariant, and what they return\<close>

text \<open>
  From a state with \<open>I\<close> the program, if it settles, leaves a state with \<open>I\<close>, and a value it
  returns satisfies \<open>Q\<close>.
\<close>

definition keeps :: "('s \<Rightarrow> bool) \<Rightarrow> ('s, 'a) aprog \<Rightarrow> ('a \<Rightarrow> bool) \<Rightarrow> bool" where
  "keeps I m Q \<longleftrightarrow> (\<forall>s r t. I s \<and> m s = Some (r, t) \<longrightarrow> I t \<and> (\<forall>x. r = Inr x \<longrightarrow> Q x))"

abbreviation any :: "'a \<Rightarrow> bool" where "any \<equiv> \<lambda>_. True"

lemma keepsD: "keeps I m Q \<Longrightarrow> I s \<Longrightarrow> m s = Some (r, t) \<Longrightarrow> I t \<and> (\<forall>x. r = Inr x \<longrightarrow> Q x)"
  unfolding keeps_def by blast

lemma keeps_weaken: "keeps I m Q \<Longrightarrow> (\<And>x. Q x \<Longrightarrow> R x) \<Longrightarrow> keeps I m R"
  unfolding keeps_def by blast

lemma keeps_any: "keeps I m Q \<Longrightarrow> keeps I m any"
  unfolding keeps_def by blast

lemma keeps_aret [keeps_intros]: "Q x \<Longrightarrow> keeps I (aret x) Q"
  by (simp add: keeps_def aret_def)

lemma keeps_athrow [keeps_intros]: "keeps I (athrow e) Q"
  by (simp add: keeps_def athrow_def)

lemma keeps_alift [keeps_intros]: "(\<And>x. r = Inr x \<Longrightarrow> Q x) \<Longrightarrow> keeps I (alift r) Q"
  by (simp add: keeps_def alift_def)

lemma keeps_bind: "keeps I m Q \<Longrightarrow> (\<And>x. Q x \<Longrightarrow> keeps I (f x) R) \<Longrightarrow> keeps I (abind m f) R"
proof -
  assume m: "keeps I m Q" and f: "\<And>x. Q x \<Longrightarrow> keeps I (f x) R"
  have "I t \<and> (\<forall>x. r = Inr x \<longrightarrow> R x)" if s: "I s" and run: "abind m f s = Some (r, t)" for s r t
  proof (cases "m s")
    case None
    then show ?thesis using run by (simp add: aprog_simps)
  next
    case (Some p)
    obtain q u where p: "p = (q, u)" by (cases p)
    have u: "I u \<and> (\<forall>x. q = Inr x \<longrightarrow> Q x)" using keepsD [OF m s] Some p by simp
    show ?thesis
    proof (cases q)
      case (Inl e)
      then show ?thesis using run Some p u by (simp add: aprog_simps) blast
    next
      case (Inr x)
      then have "f x u = Some (r, t)" using run Some p by (simp add: aprog_simps)
      then show ?thesis using keepsD [OF f] u Inr by blast
    qed
  qed
  then show ?thesis unfolding keeps_def by blast
qed

lemma keeps_bind_any [keeps_intros]:
  "keeps I m any \<Longrightarrow> (\<And>x. keeps I (f x) R) \<Longrightarrow> keeps I (abind m f) R"
  by (rule keeps_bind) auto

lemma keeps_catch [keeps_intros]:
  "keeps I m Q \<Longrightarrow> (\<And>e. keeps I (h e) Q) \<Longrightarrow> keeps I (acatch m h) Q"
proof -
  assume m: "keeps I m Q" and h: "\<And>e. keeps I (h e) Q"
  have "I t \<and> (\<forall>x. r = Inr x \<longrightarrow> Q x)" if s: "I s" and run: "acatch m h s = Some (r, t)" for s r t
  proof (cases "m s")
    case None
    then show ?thesis using run by (simp add: aprog_simps)
  next
    case (Some p)
    obtain q u where p: "p = (q, u)" by (cases p)
    have u: "I u \<and> (\<forall>x. q = Inr x \<longrightarrow> Q x)" using keepsD [OF m s] Some p by simp
    show ?thesis
    proof (cases q)
      case (Inl e)
      then have "h e u = Some (r, t)" using run Some p by (simp add: aprog_simps)
      then show ?thesis using keepsD [OF h] u by blast
    next
      case (Inr x)
      then show ?thesis using run Some p u by (simp add: aprog_simps)
    qed
  qed
  then show ?thesis unfolding keeps_def by blast
qed

lemma keeps_atry [keeps_intros]:
  "keeps I m Q \<Longrightarrow> keeps I (atry m) (\<lambda>r. \<forall>x. r = Inr x \<longrightarrow> Q x)"
  unfolding keeps_def atry_def by (auto split: option.splits)

lemma keeps_atry_any [keeps_intros]: "keeps I m any \<Longrightarrow> keeps I (atry m) any"
  by (rule keeps_any [OF keeps_atry])

lemma keeps_for [keeps_intros]:
  "(\<And>x. x \<in> set xs \<Longrightarrow> keeps I (f x) any) \<Longrightarrow> keeps I (afor xs f) any"
  by (induction xs) (auto intro!: keeps_aret keeps_bind_any)

lemma keeps_run: "gives I m Q \<Longrightarrow> keeps I (arun m) Q"
  unfolding keeps_def arun_def gives_def by fastforce

lemma keeps_run_any: "preserved I m \<Longrightarrow> keeps I (arun m) any"
  by (rule keeps_run [OF gives_True])

lemma keeps_loop:
  assumes "Q out" and "\<And>x out. x \<in> set xs \<Longrightarrow> Q out \<Longrightarrow> keeps I (f x out) Q"
  shows "keeps I (aloop xs f out) Q"
  using assms
proof (induction xs arbitrary: out)
  case (Cons x xs)
  have "keeps I (f x out) Q" using Cons.prems by simp
  then show ?case using Cons by (auto intro!: keeps_bind)
qed (simp add: keeps_aret)

section \<open>Values of a pipeline\<close>

text \<open>
  What a command can be called on and be given: plain values, a \<open>GimbalPath\<close>, the
  \<open>GimbalClient\<close>, a \<open>Response\<close>, a \<open>Uint8Array\<close>, an \<open>ArrayBuffer\<close>, and an array of such
  values. A \<open>GimbalResult\<close> never reaches a command: dispatch awaits it first.
\<close>

datatype gval =
    V_js jsv
  | V_path string
  | V_client
  | V_response response
  | V_uint8 "u8 list"
  | V_buffer "u8 list"
  | V_list "gval list"

fun is_str :: "gval \<Rightarrow> bool" where
  "is_str (V_js (JStr s)) = True"
| "is_str v = False"

fun is_obj :: "gval \<Rightarrow> bool" where
  "is_obj (V_js JNull) = True"
| "is_obj (V_js (JArr vs)) = True"
| "is_obj (V_js (JObj kvs)) = True"
| "is_obj (V_js v) = False"
| "is_obj v = True"

fun is_path :: "gval \<Rightarrow> bool" where
  "is_path (V_path p) = True"
| "is_path v = False"

text \<open>\<open>typeof a === 'object'\<close> and not a path: null, an array and a response pass.\<close>

definition is_opts :: "gval \<Rightarrow> bool" where
  "is_opts v \<longleftrightarrow> is_obj v \<and> \<not> is_path v"

fun isPlainObject :: "gval \<Rightarrow> bool" where
  "isPlainObject (V_js (JObj kvs)) = True"
| "isPlainObject v = False"

text \<open>
  \<open>!!opts.k\<close>: reading a property of null throws; the client is a proxy whose every
  property is a method, hence truthy.
\<close>

fun opt_flag :: "gval \<Rightarrow> string \<Rightarrow> err + bool" where
  "opt_flag (V_js v) k = (case js_prop_strict v k of Inl e \<Rightarrow> Inl e | Inr d \<Rightarrow> Inr (truthy d))"
| "opt_flag V_client k = Inr True"
| "opt_flag v k = Inr False"

abbreviation no_opts :: gval where "no_opts \<equiv> V_js (JObj [])"

lemma opt_flag_none [simp]: "opt_flag no_opts k = Inr False"
  by simp

text \<open>\<open>v?.constructor?.name ?? typeof v\<close>\<close>

fun type_name :: "gval \<Rightarrow> string" where
  "type_name (V_js JUndef) = ''undefined''"
| "type_name (V_js JNull) = ''object''"
| "type_name (V_js (JBool b)) = ''Boolean''"
| "type_name (V_js (JNum n)) = ''Number''"
| "type_name (V_js (JStr s)) = ''String''"
| "type_name (V_js (JArr vs)) = ''Array''"
| "type_name (V_js (JObj kvs)) = ''Object''"
| "type_name (V_path p) = ''GimbalPath''"
| "type_name V_client = ''GimbalClient''"
| "type_name (V_response r) = ''Response''"
| "type_name (V_uint8 b) = ''Uint8Array''"
| "type_name (V_buffer b) = ''ArrayBuffer''"
| "type_name (V_list vs) = ''Array''"

text \<open>
  What \<open>JSON.stringify\<close> sees of a value: a path by its \<open>toJSON\<close>, a typed array by its
  indices, a response and a buffer as empty objects. The client has no \<open>toJSON\<close>, so its proxy
  answers with a command whose pending result is serialised.
\<close>

definition pending_result :: jsv where
  "pending_result = JObj [(''_promise'', JNull), (''_settled'', JBool False), (''_error'', JNull)]"

fun gval_json :: "gval \<Rightarrow> jsv" where
  "gval_json (V_js v) = v"
| "gval_json (V_path p) = JStr p"
| "gval_json V_client = pending_result"
| "gval_json (V_response r) = JObj []"
| "gval_json (V_uint8 b) = JObj (map (\<lambda>(i, x). (nat_str i, JNum (uint x))) (List.enumerate 0 b))"
| "gval_json (V_buffer b) = JObj []"
| "gval_json (V_list vs) = JArr (map gval_json vs)"

text \<open>A value in a template literal.\<close>

fun gval_string :: "gval \<Rightarrow> string" where
  "gval_string (V_js v) = js_string v"
| "gval_string (V_path p) = gp_toString p"
| "gval_string V_client = ''[object Object]''"
| "gval_string (V_response r) = ''[object Response]''"
| "gval_string (V_uint8 b) = js_join '','' (map (\<lambda>x. nat_str (unat x)) b)"
| "gval_string (V_buffer b) = ''[object ArrayBuffer]''"
| "gval_string (V_list vs) = js_join '','' (map gval_string vs)"

fun gval_truthy :: "gval \<Rightarrow> bool" where
  "gval_truthy (V_js v) = truthy v"
| "gval_truthy v = True"

text \<open>
  The argument loop that most commands share: the first argument may name the target (its meaning
  is \<open>first\<close>), the last one may be the options, anything else is refused.
\<close>

fun arg_loop :: "string \<Rightarrow> (gval \<Rightarrow> string option) \<Rightarrow> (gval \<Rightarrow> bool) \<Rightarrow> nat \<Rightarrow> gval list
    \<Rightarrow> string option \<times> gval \<Rightarrow> err + (string option \<times> gval)" where
  "arg_loop msg first isopts i [] (target, opts) = Inr (target, opts)"
| "arg_loop msg first isopts i (a # as) (target, opts) =
     (case (if i = 0 then first a else None) of
        Some p \<Rightarrow> arg_loop msg first isopts (Suc i) as (Some p, opts)
      | None \<Rightarrow>
          if as = [] \<and> isopts a then arg_loop msg first isopts (Suc i) as (target, a)
          else Inl (Err_Error msg))"

text \<open>A string at the first place, read against the path the command is called on.\<close>

fun relative_to :: "(string \<Rightarrow> string) \<Rightarrow> gval \<Rightarrow> string option" where
  "relative_to f (V_js (JStr s)) = Some (f s)"
| "relative_to f v = None"

fun path_or :: "(string \<Rightarrow> string) \<Rightarrow> gval \<Rightarrow> string option" where
  "path_or f (V_path p) = Some p"
| "path_or f v = relative_to f v"

section \<open>The operations of a volume\<close>

text \<open>
  What the commands call on \<open>gimbal.grits\<close> and on the volumes it hands out; a volume is named by
  the key under which the client keeps it. A file is a \<open>gfile\<close> of that volume.
\<close>

record 's vapi =
  va_volume :: "string \<Rightarrow> ('s, string) aprog"
  va_lookup :: "string \<Rightarrow> string \<Rightarrow> ('s, gfile) aprog"
  va_fileForCID :: "string \<Rightarrow> string \<Rightarrow> ('s, gfile) aprog"
  va_get :: "string \<Rightarrow> string \<Rightarrow> ('s, response) aprog"
  va_json :: "string \<Rightarrow> string \<Rightarrow> ('s, jsv) aprog"
  va_children :: "string \<Rightarrow> gfile \<Rightarrow> ('s, (string \<times> gfile) list) aprog"
  va_put :: "string \<Rightarrow> u8 list \<Rightarrow> ('s, string) aprog"
  va_mkfile :: "string \<Rightarrow> string \<Rightarrow> int \<Rightarrow> ('s, string) aprog"
  va_mkdir :: "string \<Rightarrow> (string \<times> dir_entry) list \<Rightarrow> ('s, string) aprog"
  va_multiLink :: "string \<Rightarrow> link_arg list \<Rightarrow> ('s, jsv) aprog"
  va_whoami :: "('s, jsv) aprog"
  va_login :: "string \<Rightarrow> string \<Rightarrow> bool \<Rightarrow> bool \<Rightarrow> ('s, unit) aprog"
  va_logout :: "string \<Rightarrow> ('s, unit) aprog"
  va_now :: "('s, int) aprog"
  va_random :: "('s, string) aprog"

definition va_link :: "'s vapi \<Rightarrow> string \<Rightarrow> string \<Rightarrow> string \<Rightarrow> ('s, jsv) aprog" where
  "va_link va key metaCID path = va_multiLink va key [link_of metaCID path]"

text \<open>A request of \<open>multiLink\<close>; a field left out or undefined is None.\<close>

definition lreq :: "string \<Rightarrow> string \<Rightarrow> string option \<Rightarrow> int \<Rightarrow> link_arg" where
  "lreq path addr prev assert =
     \<lparr>la_path = path, la_addr = Some addr, la_prev = prev, la_assert = Some assert\<rparr>"

text \<open>\<open>file.bytes()\<close> and \<open>file.text()\<close>, and the start of every command on a path.\<close>

definition va_bytes :: "'s vapi \<Rightarrow> string \<Rightarrow> gfile \<Rightarrow> ('s, u8 list) aprog" where
  "va_bytes va key f = abind (va_get va key (contentCID f)) (\<lambda>r. alift (resp_bytes r))"

definition va_text :: "'s vapi \<Rightarrow> string \<Rightarrow> gfile \<Rightarrow> ('s, string) aprog" where
  "va_text va key f = abind (va_get va key (contentCID f)) (\<lambda>r. alift (resp_text r))"

definition on_path :: "'s vapi \<Rightarrow> string \<Rightarrow> (string \<Rightarrow> string \<Rightarrow> ('s, 'a) aprog) \<Rightarrow> ('s, 'a) aprog" where
  "on_path va p body =
     (let r = resolvePath p in abind (va_volume va (fst r)) (\<lambda>key. body key (snd r)))"

section \<open>Commands by name: gimbal/dispatch.js and gimbal/client.js\<close>

record 's tool =
  tl_invoke :: "(gval \<Rightarrow> gval list \<Rightarrow> ('s, gval) aprog) option"
  tl_help :: "gval option"

definition SHORTCUTS :: "(string \<times> string) list" where
  "SHORTCUTS = [(''r'', ''read''), (''w'', ''write'')]"

definition NON_DISPATCH :: "string list" where
  "NON_DISPATCH = [''then'', ''catch'', ''finally'']"

text \<open>
  What the proxy answers for a property: the target's own member, nothing for a thenable, or the
  command of a module. (\<open>key in target\<close> covers inherited members, given by \<open>members\<close>.)
\<close>

datatype proxy_get = Own string | Absent | Command string

definition proxy_lookup :: "string set \<Rightarrow> string \<Rightarrow> proxy_get" where
  "proxy_lookup members key =
     (if key \<in> members then Own key
      else if key \<in> set NON_DISPATCH then Absent
      else Command (case map_get SHORTCUTS key of None \<Rightarrow> key | Some n \<Rightarrow> n))"

text \<open>\<open>/^[a-zA-Z0-9_-]+$/.test(name)\<close>\<close>

definition name_char :: "char \<Rightarrow> bool" where
  "name_char c \<longleftrightarrow> (let n = (of_char c :: nat) in
     97 \<le> n \<and> n \<le> 122 \<or> 65 \<le> n \<and> n \<le> 90 \<or> 48 \<le> n \<and> n \<le> 57 \<or> n = 95 \<or> n = 45)"

definition command_name :: "string \<Rightarrow> bool" where
  "command_name name \<longleftrightarrow> name \<noteq> [] \<and> list_all name_char name"

definition tool_url :: "string \<Rightarrow> string" where
  "tool_url name = ''../'' @ name @ ''/main.js''"

text \<open>
  \<open>_importTool\<close>, over its cache; the dynamic \<open>import\<close> of a URL is the argument \<open>imp\<close>.
\<close>

definition importTool :: "(string \<Rightarrow> err + 's tool) \<Rightarrow> string \<Rightarrow> ((string \<times> 's tool) list, 's tool) prog" where
  "importTool imp name = (\<lambda>cache.
     case map_get cache name of
       Some t \<Rightarrow> (Inr t, cache)
     | None \<Rightarrow>
         if \<not> command_name name then (Inl (Err_Error (''command not found: '' @ name)), cache)
         else case imp (tool_url name) of
           Inl _ \<Rightarrow> (Inl (Err_Error (''command not found: '' @ name)), cache)
         | Inr t \<Rightarrow>
             (case tl_invoke t of
                None \<Rightarrow> (Inl (Err_Error (tool_url name @ '' has no exported invoke()'')), cache)
              | Some _ \<Rightarrow> (Inr t, map_set name t cache)))"

text \<open>
  \<open>_execute\<close> once its target and its arguments have been awaited: the module, then its
  \<open>invoke\<close>, whose chain of results is awaited.
\<close>

type_synonym 's shell = "(string \<times> 's tool) list \<times> 's"

definition execute :: "(string \<Rightarrow> err + 's tool) \<Rightarrow> gval \<Rightarrow> string \<Rightarrow> gval list \<Rightarrow> ('s shell, gval) aprog" where
  "execute imp prev moduleName args = (\<lambda>(cache, s).
     case importTool imp moduleName cache of
       (Inl e, cache') \<Rightarrow> Some (Inl e, (cache', s))
     | (Inr t, cache') \<Rightarrow>
         (case tl_invoke t of
            None \<Rightarrow> Some (Inl (Err_Type ''mod.invoke is not a function''), (cache', s))
          | Some call \<Rightarrow> map_option (\<lambda>(r, s'). (r, (cache', s'))) (call prev args s)))"

text \<open>A call of a command through the proxy: \<open>target.key(...args)\<close>.\<close>

definition dispatch :: "(string \<Rightarrow> err + 's tool) \<Rightarrow> string set \<Rightarrow> gval \<Rightarrow> string \<Rightarrow> gval list
    \<Rightarrow> ('s shell, gval) aprog option" where
  "dispatch imp members prev key args =
     (case proxy_lookup members key of Command n \<Rightarrow> Some (execute imp prev n args) | _ \<Rightarrow> None)"

section \<open>gimbal/result.js\<close>

text \<open>
  A \<open>GimbalResult\<close>: its executor is started by the first await and its outcome is kept;
  \<open>gr_settled\<close> holds \<open>_value\<close> or \<open>_error\<close> once \<open>_settled\<close>. None as promise: not started.
\<close>

record ('s, 'a) gresult =
  gr_executor :: "('s, 'a) aprog"
  gr_settled :: "(err + 'a) option"

definition new_result :: "('s, 'a) aprog \<Rightarrow> ('s, 'a) gresult" where
  "new_result executor = \<lparr>gr_executor = executor, gr_settled = None\<rparr>"

text \<open>\<open>_resolve\<close> awaited: the outcome, the result object and the state afterwards.\<close>

definition gr_resolve :: "('s, 'a) gresult \<Rightarrow> 's \<Rightarrow> ((err + 'a) \<times> ('s, 'a) gresult \<times> 's) option" where
  "gr_resolve g s =
     (case gr_settled g of
        Some r \<Rightarrow> Some (r, g, s)
      | None \<Rightarrow>
          (case gr_executor g s of
             None \<Rightarrow> None
           | Some (r, t) \<Rightarrow> Some (r, g\<lparr>gr_settled := Some r\<rparr>, t)))"

text \<open>\<open>path(relative)\<close> of a result: only a result that is a path, a client or a volume has one.\<close>

definition gr_path :: "gval \<Rightarrow> string \<Rightarrow> err + gval" where
  "gr_path resolved relative =
     (case resolved of
        V_path p \<Rightarrow> Inr (V_path (gp_path p relative))
      | V_client \<Rightarrow> Inr (V_path (volume_path relative))
      | _ \<Rightarrow> Inl (Err_Error ''cannot resolve path: result is not a path''))"

definition tn :: "gval \<Rightarrow> string" where
  "tn v = (if v = V_js JNull then ''null'' else type_name v)"

definition gr_toString :: "('s, gval) gresult \<Rightarrow> string" where
  "gr_toString g =
     (case gr_settled g of
        None \<Rightarrow> ''GR(pending)''
      | Some (Inl e) \<Rightarrow> ''GR(error: '' @ err_message e @ '')''
      | Some (Inr v) \<Rightarrow> ''GR('' @ tn v @ '')'')"

section \<open>gimbal/glob.js\<close>

text \<open>
  \<open>expand\<close>: the matches below a directory, in the order of its listing, added to \<open>results\<close>. A
  listing that cannot be read and a child that fails are skipped; a null listing throws before
  anything is added.
\<close>

definition child_partial :: "string \<Rightarrow> string \<Rightarrow> string" where
  "child_partial part name = (if part = [] then name else part @ ''/'' @ name)"

definition expand_child :: "(gfile \<Rightarrow> string \<Rightarrow> string list \<Rightarrow> ('s, string list) aprog) \<Rightarrow> 's vapi \<Rightarrow> string
    \<Rightarrow> jsv \<Rightarrow> string \<Rightarrow> bool \<Rightarrow> string \<Rightarrow> string \<Rightarrow> string list \<Rightarrow> ('s, string list) aprog" where
  "expand_child expand_rest va key listing pattern at_end part name results =
     (if \<not> matchGlob pattern name then aret results
      else if at_end then aret (results @ [child_partial part name])
      else
        abind (atry (abind (va_fileForCID va key (js_string (js_prop listing name))) (\<lambda>childFile.
                 expand_rest childFile (child_partial part name) results))) (\<lambda>r.
          aret (case r of Inl _ \<Rightarrow> results | Inr found \<Rightarrow> found)))"

fun expand :: "'s vapi \<Rightarrow> string \<Rightarrow> string list \<Rightarrow> gfile \<Rightarrow> string \<Rightarrow> string list \<Rightarrow> ('s, string list) aprog" where
  "expand va key [] f part results = aret results"
| "expand va key (pattern # rest) f part results =
     (if \<not> isDir f then aret results
      else abind (atry (va_json va key (contentCID f))) (\<lambda>r.
        case r of
          Inl _ \<Rightarrow> aret results
        | Inr listing \<Rightarrow>
            if listing = JNull \<or> listing = JUndef
            then athrow (Err_Type ''Cannot convert undefined or null to object'')
            else
              aloop (map fst (entries listing))
                (expand_child (expand va key rest) va key listing pattern (rest = []) part) results))"

definition is_wild :: "string \<Rightarrow> bool" where
  "is_wild p \<longleftrightarrow> CHR ''*'' \<in> set p \<or> CHR ''?'' \<in> set p"

definition glob :: "'s vapi \<Rightarrow> string \<Rightarrow> ('s, string list) aprog" where
  "glob va pattern =
     (let (volumeName, pathStr) = resolvePath pattern;
          resultPrefix = (if starts_with ''//'' pattern then ''//'' @ volumeName @ ''/'' else ''/'');
          allParts = path_parts pathStr;
          fixedParts = takeWhile (\<lambda>p. \<not> is_wild p) allParts;
          wildParts = dropWhile (\<lambda>p. \<not> is_wild p) allParts;
          fixedPath = js_join ''/'' fixedParts
      in abind (va_volume va volumeName) (\<lambda>key.
         abind (atry (va_lookup va key fixedPath)) (\<lambda>r.
           case r of
             Inl _ \<Rightarrow> aret []
           | Inr startFile \<Rightarrow>
               if wildParts = [] then aret [resultPrefix @ fixedPath]
               else abind (expand va key wildParts startFile fixedPath []) (\<lambda>rs.
                    aret (map (\<lambda>r. resultPrefix @ r) rs)))))"

section \<open>Properties\<close>

text \<open>A path whose components below a start match the patterns, as \<open>expand\<close> puts it together.\<close>

definition matches :: "string \<Rightarrow> string list \<Rightarrow> string \<Rightarrow> bool" where
  "matches start patterns p \<longleftrightarrow>
     (\<exists>names. list_all2 matchGlob patterns names \<and> p = foldl child_partial start names)"

lemma matches_Nil [simp]: "matches start [] start"
  by (simp add: matches_def)

lemma matches_Cons:
  "matchGlob pattern name \<Longrightarrow> matches (child_partial part name) rest p \<Longrightarrow> matches part (pattern # rest) p"
  unfolding matches_def by (metis foldl_Cons list_all2_Cons)

lemma expand_child_matches:
  assumes rec: "\<And>f q rs. list_all ok rs \<Longrightarrow> (\<And>p. matches q rest p \<Longrightarrow> ok p) \<Longrightarrow> keeps any (go f q rs) (list_all ok)"
    and out: "list_all ok out" and sub: "\<And>p. matches part (pattern # rest) p \<Longrightarrow> ok p"
  shows "keeps any (expand_child go va key listing pattern (rest = []) part name out) (list_all ok)"
proof (cases "matchGlob pattern name")
  case False
  then show ?thesis using out by (simp add: expand_child_def keeps_aret)
next
  case True
  show ?thesis
  proof (cases "rest = []")
    case end_: True
    have "matches part [pattern] (child_partial part name)"
      unfolding matches_def by (rule exI [of _ "[name]"]) (simp add: True)
    then show ?thesis using out sub end_ True by (simp add: expand_child_def keeps_aret)
  next
    case more: False
    have deeper: "ok p" if "matches (child_partial part name) rest p" for p
      by (rule sub, rule matches_Cons [OF True that])
    have inner: "keeps any (abind (va_fileForCID va key (js_string (js_prop listing name)))
        (\<lambda>f. go f (child_partial part name) out)) (list_all ok)"
      by (rule keeps_bind [where Q = any], simp add: keeps_def, rule rec [OF out deeper])
    show ?thesis using more True out
      by (auto simp: expand_child_def intro!: keeps_bind [OF keeps_atry [OF inner]] keeps_aret split: sum.split)
  qed
qed

lemma expand_matches:
  "list_all ok out \<Longrightarrow> (\<And>p. matches part parts p \<Longrightarrow> ok p) \<Longrightarrow>
    keeps any (expand va key parts f part out) (list_all ok)"
proof (induction parts arbitrary: f part out)
  case (Cons pattern rest)
  have one: "keeps any (expand_child (expand va key rest) va key l pattern (rest = []) part name rs) (list_all ok)"
    if "list_all ok rs" for l name rs
    by (rule expand_child_matches [OF Cons.IH that Cons.prems(2)])
  have "keeps any (aloop ns (expand_child (expand va key rest) va key l pattern (rest = []) part) out) (list_all ok)" for ns l
    by (rule keeps_loop [where Q = "list_all ok"], rule Cons.prems(1), rule one)
  then show ?case using Cons.prems(1)
    by (auto intro!: keeps_aret keeps_athrow keeps_bind [of _ _ any] simp: keeps_def [of _ _ any] split: sum.split)
qed (simp add: keeps_aret)

text \<open>
  C16. Every path that a glob returns is its prefix followed by the components before the first wildcard
  and then by names that match the remaining patterns one by one, in whatever way the lookups and reads
  of the volume turn out.
\<close>

theorem glob_sound:
  "keeps any (glob va pattern) (list_all (\<lambda>r.
     let (volumeName, pathStr) = resolvePath pattern; parts = path_parts pathStr;
         resultPrefix = (if starts_with ''//'' pattern then ''//'' @ volumeName @ ''/'' else ''/'');
         fixed = js_join ''/'' (takeWhile (\<lambda>p. \<not> is_wild p) parts)
     in \<exists>p. r = resultPrefix @ p \<and> matches fixed (dropWhile (\<lambda>p. \<not> is_wild p) parts) p))"
proof -
  define vol where "vol = fst (resolvePath pattern)"
  define parts where "parts = path_parts (snd (resolvePath pattern))"
  define pre where "pre = (if starts_with ''//'' pattern then ''//'' @ vol @ ''/'' else ''/'')"
  define fixed where "fixed = js_join ''/'' (takeWhile (\<lambda>p. \<not> is_wild p) parts)"
  define wild where "wild = dropWhile (\<lambda>p. \<not> is_wild p) parts"
  have ex: "keeps any (expand va key wild f fixed []) (list_all (matches fixed wild))" for key f
    by (rule expand_matches) simp_all
  have none: "wild = [] \<Longrightarrow> matches fixed wild fixed" by (simp add: matches_def)
  have m: "keeps any m any" for m :: "('a, 'c) aprog" by (simp add: keeps_def)
  have "keeps any (abind (va_volume va vol) (\<lambda>key. abind (atry (va_lookup va key fixed)) (\<lambda>r. case r of
      Inl _ \<Rightarrow> aret []
    | Inr f \<Rightarrow> if wild = [] then aret [pre @ fixed]
               else abind (expand va key wild f fixed []) (\<lambda>rs. aret (map (\<lambda>r. pre @ r) rs)))))
      (list_all (\<lambda>r. \<exists>p. r = pre @ p \<and> matches fixed wild p))"
    by (rule keeps_bind [of _ _ any], simp add: keeps_def, rule keeps_bind [of _ _ any], simp add: keeps_def)
      (auto split: sum.split intro!: keeps_aret keeps_bind [OF ex] simp: none list_all_iff)
  then show ?thesis
    unfolding glob_def Let_def case_prod_beta vol_def parts_def pre_def fixed_def wild_def .
qed

lemma name_char_no_slash: "list_all name_char name \<Longrightarrow> slash \<notin> set name"
  by (auto simp: list_all_iff name_char_def Let_def)

text \<open>
  Dispatching a command imports only a module of one directory of the library: the name is letters, digits,
  underscores and dashes, so the URL has just the three components \<open>..\<close>, the name and
  \<open>main.js\<close>; two importers that agree on such URLs give the same execution; any other name fails as not
  found without an import and without a change.
\<close>

theorem dispatch_imports_tools_only:
  "(command_name name \<longrightarrow> path_parts (tool_url name) = [''..'', name, ''main.js''])
   \<and> ((\<forall>n. command_name n \<longrightarrow> imp (tool_url n) = imp' (tool_url n)) \<longrightarrow>
        execute imp prev name args s = execute imp' prev name args s)
   \<and> (\<not> command_name name \<and> map_get cache name = None \<longrightarrow>
        execute imp prev name args (cache, c) = Some (Inl (Err_Error (''command not found: '' @ name)), (cache, c)))"
proof (intro conjI impI)
  assume n: "command_name name"
  then have "slash \<notin> set name" "name \<noteq> []" by (simp_all add: command_name_def name_char_no_slash)
  then have "path_parts (name @ slash # ''main.js'') = [name, ''main.js'']"
    by (simp add: path_parts_append_slash path_parts_single)
  moreover have "path_parts (''..'' @ slash # t) = ''..'' # path_parts t" for t
  proof -
    have "path_parts (''..'' @ slash # t) = path_parts ''..'' @ path_parts t" by (rule path_parts_append_slash)
    moreover have "path_parts ''..'' = [''..'']" by (rule path_parts_single) simp_all
    ultimately show ?thesis by simp
  qed
  ultimately show "path_parts (tool_url name) = [''..'', name, ''main.js'']"
    unfolding tool_url_def by (metis append_Cons append_assoc append_Nil)
next
  assume "\<forall>n. command_name n \<longrightarrow> imp (tool_url n) = imp' (tool_url n)"
  then have "importTool imp name = importTool imp' name"
    by (auto simp: importTool_def fun_eq_iff split: option.split)
  then show "execute imp prev name args s = execute imp' prev name args s" by (simp add: execute_def)
qed (simp add: execute_def importTool_def)

theorem dispatch_imports_tools_only_witness:
  "path_parts (tool_url ''rm'') = [''..'', ''rm'', ''main.js'']
   \<and> execute (\<lambda>_. Inl Err_Abort) V_client ''../x'' [] ([], ()) =
       Some (Inl (Err_Error ''command not found: ../x''), ([], ()))"
proof -
  have "command_name ''rm''" "\<not> command_name ''../x''" by code_simp+
  then show ?thesis
    using dispatch_imports_tools_only [of "''rm''" "\<lambda>_. Inl Err_Abort" "\<lambda>_. Inl Err_Abort" V_client "[]" "([], ())" "[]" "()"]
      dispatch_imports_tools_only [of "''../x''" "\<lambda>_. Inl Err_Abort" "\<lambda>_. Inl Err_Abort" V_client "[]" "([], ())" "[]" "()"]
    by simp
qed

text \<open>
  A \<open>GimbalResult\<close> runs its executor at most once: after the first await, every later await gives the
  same outcome and leaves the state alone, and the result shows as that outcome.
\<close>

theorem result_runs_once:
  "gr_resolve g s = Some (r, g', t) \<longrightarrow>
     gr_resolve g' u = Some (r, g', u) \<and> (gr_settled g = Some r \<and> t = s \<or> gr_settled g = None \<and> gr_executor g s = Some (r, t))
   \<and> gr_toString g' = (case r of Inl e \<Rightarrow> ''GR(error: '' @ err_message e @ '')'' | Inr v \<Rightarrow> ''GR('' @ tn v @ '')'')"
  by (auto simp: gr_resolve_def gr_toString_def split: option.splits)

theorem result_runs_once_witness:
  "let g = new_result (\<lambda>n. Some (Inr (V_js JNull), Suc n)) in
     gr_resolve g 0 = Some (Inr (V_js JNull), g\<lparr>gr_settled := Some (Inr (V_js JNull))\<rparr>, 1)
     \<and> gr_resolve (g\<lparr>gr_settled := Some (Inr (V_js JNull))\<rparr>) 7
         = Some (Inr (V_js JNull), g\<lparr>gr_settled := Some (Inr (V_js JNull))\<rparr>, 7)"
  using result_runs_once [of "new_result (\<lambda>n. Some (Inr (V_js JNull), Suc n))" 0 "Inr (V_js JNull)" _ 1 7]
  by (simp add: gr_resolve_def new_result_def Let_def)

end
