(* ===== verification/Tools_Files.thy ===== *)
theory Tools_Files
  imports Shell
begin

text \<open>
  The commands on files and directories: the \<open>invoke\<close> of append, cp, diff, ls, mkdir, mv, read, rm,
  rmdir, to and write, and \<open>sendMessage\<close> of mail/send.js. Each is a program over the
  volume operations \<open>va\<close>; what a command throws before it has made its \<open>GimbalResult\<close> reaches
  the caller the same way as what its executor throws, since dispatch awaits both.
\<close>

abbreviation err :: "string \<Rightarrow> err" where "err \<equiv> Err_Error"

text \<open>
  \<open>try { m } catch (e) { if (!(e instanceof AssertionError)) throw e; ... }\<close>: an assertion
  error is handled, any other error goes on.
\<close>

definition on_assertion :: "('s, 'a) aprog \<Rightarrow> ('s, 'a) aprog \<Rightarrow> ('s, 'a) aprog" where
  "on_assertion m h = acatch m (\<lambda>e. if is_assertion e then h else athrow e)"

definition done_with :: "('s, 'a) aprog \<Rightarrow> ('s, gval) aprog" where
  "done_with m = abind m (\<lambda>_. aret (V_js JUndef))"

definition quoted :: "string \<Rightarrow> string" where
  "quoted s = [CHR 0x27] @ s @ [CHR 0x27]"

definition unexpected :: "string \<Rightarrow> string" where
  "unexpected cmd = cmd @ '': unexpected argument''"

text \<open>Two options read in the executor; null as options throws at the first.\<close>

definition with_flags :: "gval \<Rightarrow> string \<Rightarrow> string \<Rightarrow> (bool \<Rightarrow> bool \<Rightarrow> ('s, 'a) aprog) \<Rightarrow> ('s, 'a) aprog" where
  "with_flags opts k l body =
     abind (alift (opt_flag opts k)) (\<lambda>a. abind (alift (opt_flag opts l)) (body a))"

text \<open>The argument loop of rm, rmdir, mkdir, read and unzip (a theory of its own): a string names a path below the target.\<close>

definition target_args :: "string \<Rightarrow> string \<Rightarrow> gval list \<Rightarrow> err + (string \<times> gval)" where
  "target_args cmd prev args =
     (case arg_loop (unexpected cmd) (relative_to (gp_path prev)) is_opts 0 args (Some prev, no_opts) of
        Inl e \<Rightarrow> Inl e
      | Inr (target, opts) \<Rightarrow> Inr (or_else target prev, opts))"

section \<open>rm and rmdir\<close>

definition unlink :: "'s vapi \<Rightarrow> string \<Rightarrow> string \<Rightarrow> string option \<Rightarrow> int \<Rightarrow> ('s, jsv) aprog" where
  "unlink va key p prev assert = va_multiLink va key [lreq p [] prev assert]"

definition rm_file :: "'s vapi \<Rightarrow> string \<Rightarrow> string \<Rightarrow> ('s, jsv) aprog \<Rightarrow> ('s, jsv) aprog" where
  "rm_file va key p absent =
     on_assertion (unlink va key p None ASSERT_IS_BLOB)
       (abind (on_assertion (unlink va key p (Some []) ASSERT_PREV_MATCHES)
                 (athrow (err ''rm: is a directory''))) (\<lambda>_. absent))"

definition rm_at :: "'s vapi \<Rightarrow> string \<Rightarrow> string \<Rightarrow> bool \<Rightarrow> bool \<Rightarrow> ('s, jsv) aprog" where
  "rm_at va key p r f =
     (if r \<and> f then unlink va key p None 0
      else if r then
        on_assertion (unlink va key p None ASSERT_IS_TREE) (unlink va key p None ASSERT_IS_BLOB)
      else if f then rm_file va key p (aret JUndef)
      else rm_file va key p (athrow (err ''rm: not found'')))"

definition rm_invoke :: "'s vapi \<Rightarrow> gval \<Rightarrow> gval list \<Rightarrow> ('s, gval) aprog" where
  "rm_invoke va prev args =
     (case prev of
        V_path p \<Rightarrow>
          abind (alift (target_args ''rm'' p args)) (\<lambda>(target, opts).
            done_with (on_path va target (\<lambda>key path. with_flags opts ''r'' ''f'' (rm_at va key path))))
      | _ \<Rightarrow> athrow (err ''rm: need a path''))"

definition rmdir_run :: "'s vapi \<Rightarrow> string \<Rightarrow> ('s, jsv) aprog" where
  "rmdir_run va target = on_path va target (\<lambda>key p.
     on_assertion (unlink va key p None ASSERT_IS_TREE)
       (athrow (err ''rmdir: not found or not a directory'')))"

definition rmdir_invoke :: "'s vapi \<Rightarrow> gval \<Rightarrow> gval list \<Rightarrow> ('s, gval) aprog" where
  "rmdir_invoke va prev args =
     (case prev of
        V_path p \<Rightarrow>
          abind (alift (target_args ''rmdir'' p args)) (\<lambda>(target, opts). done_with (rmdir_run va target))
      | _ \<Rightarrow> athrow (err ''rmdir: need a path''))"

section \<open>mkdir\<close>

text \<open>
  The loop over the parts of the path for \<open>{p:1}\<close>, which unzip has as well: make the directory if nothing is
  there, with \<open>force\<close> try to replace under the assertion \<open>force_assert\<close>, else go on if what is there
  is a directory or cannot be looked up. \<open>deeper\<close> makes the next path.
\<close>

fun mkdir_parents :: "'s vapi \<Rightarrow> string \<Rightarrow> (string \<Rightarrow> string \<Rightarrow> string) \<Rightarrow> bool \<Rightarrow> (string \<Rightarrow> string)
    \<Rightarrow> string \<Rightarrow> string list \<Rightarrow> ('s, string) aprog" where
  "mkdir_parents va key deeper force complain cur [] = aret cur"
| "mkdir_parents va key deeper force complain cur (part # parts) =
     (let path = deeper cur part;
          next = mkdir_parents va key deeper force complain path parts;
          check = abind (acatch (abind (va_lookup va key path) (\<lambda>f. aret (Some f))) (\<lambda>_. aret None))
                    (\<lambda>existing. case existing of
                       None \<Rightarrow> aret ()
                     | Some f \<Rightarrow> if isDir f then aret () else athrow (err (complain path)))
      in abind (va_mkdir va key []) (\<lambda>metaCID.
         abind (on_assertion (abind (va_multiLink va key [lreq path metaCID (Some []) ASSERT_PREV_MATCHES]) (\<lambda>_. aret ()))
           (if force
            then on_assertion (abind (va_multiLink va key [lreq path metaCID None ASSERT_IS_BLOB]) (\<lambda>_. aret ())) check
            else check)) (\<lambda>_. next)))"

definition mkdir_all :: "'s vapi \<Rightarrow> string \<Rightarrow> bool \<Rightarrow> string \<Rightarrow> ('s, string) aprog" where
  "mkdir_all va key force path =
     mkdir_parents va key (\<lambda>cur part. cur @ ''/'' @ part) force
       (\<lambda>cur. ''mkdir: not a directory: '' @ quoted cur) [] (path_parts path)"

definition mkdir_at :: "'s vapi \<Rightarrow> string \<Rightarrow> string \<Rightarrow> bool \<Rightarrow> bool \<Rightarrow> ('s, unit) aprog" where
  "mkdir_at va key path p f =
     (if p then abind (mkdir_all va key f path) (\<lambda>_. aret ())
      else
        abind (va_mkdir va key []) (\<lambda>metaCID.
        abind (on_assertion
          (va_multiLink va key [lreq path metaCID (if f then None else Some []) (if f then 0 else ASSERT_PREV_MATCHES)])
          (athrow (err ''mkdir: already exists''))) (\<lambda>_. aret ())))"

definition mkdir_invoke :: "'s vapi \<Rightarrow> gval \<Rightarrow> gval list \<Rightarrow> ('s, gval) aprog" where
  "mkdir_invoke va prev args =
     (case prev of
        V_path p \<Rightarrow>
          abind (alift (target_args ''mkdir'' p args)) (\<lambda>(target, opts).
            done_with (on_path va target (\<lambda>key path. with_flags opts ''p'' ''f'' (mkdir_at va key path))))
      | _ \<Rightarrow> athrow (err ''mkdir: need a path''))"

section \<open>read, ls\<close>

definition read_run :: "'s vapi \<Rightarrow> string \<Rightarrow> ('s, string) aprog" where
  "read_run va target = on_path va target (\<lambda>key path.
     abind (va_lookup va key path) (va_text va key))"

definition read_invoke :: "'s vapi \<Rightarrow> gval \<Rightarrow> gval list \<Rightarrow> ('s, gval) aprog" where
  "read_invoke va prev args =
     (case prev of
        V_response r \<Rightarrow> abind (alift (resp_text r)) (\<lambda>t. aret (V_js (JStr t)))
      | V_path p \<Rightarrow>
          abind (alift (target_args ''read'' p args)) (\<lambda>(target, opts).
          abind (read_run va target) (\<lambda>t. aret (V_js (JStr t))))
      | _ \<Rightarrow> athrow (err (''read: expected a file path (GimbalPath) or Response, got '' @ type_name prev)))"

text \<open>The listed paths lose their volume: \<open>gimbal.p\<close> of the path without it.\<close>

definition ls_run :: "'s vapi \<Rightarrow> string \<Rightarrow> ('s, string list) aprog" where
  "ls_run va target = on_path va target (\<lambda>key path.
     abind (va_lookup va key path) (\<lambda>file.
       if \<not> isDir file then athrow (err ''ls: not a directory'')
       else abind (va_children va key file) (\<lambda>cs.
         aret (map (\<lambda>name. volume_path (with_last_slash path @ name)) (sort (map fst cs))))))"

definition ls_invoke :: "'s vapi \<Rightarrow> gval \<Rightarrow> gval list \<Rightarrow> ('s, gval) aprog" where
  "ls_invoke va prev args =
     (case prev of
        V_path p \<Rightarrow>
          if args \<noteq> [] then athrow (err ''ls: does not accept arguments'')
          else abind (ls_run va p) (\<lambda>ps. aret (V_list (map V_path ps)))
      | _ \<Rightarrow> athrow (err ''ls: need a directory path''))"

section \<open>write, to, append\<close>

text \<open>Store the bytes and the metadata of a file with them; the metadata identifier.\<close>

definition store_file :: "'s vapi \<Rightarrow> string \<Rightarrow> u8 list \<Rightarrow> ('s, string) aprog" where
  "store_file va key bytes =
     abind (va_put va key bytes) (\<lambda>contentCID. va_mkfile va key contentCID (int (length bytes)))"

text \<open>Replace a file, or create it where nothing is; any second failure is reported by \<open>complaint\<close>.\<close>

definition replace_or_create :: "'s vapi \<Rightarrow> string \<Rightarrow> string \<Rightarrow> string \<Rightarrow> string \<Rightarrow> ('s, jsv) aprog" where
  "replace_or_create va key path metaCID complaint =
     acatch (va_multiLink va key [lreq path metaCID None 2])
       (\<lambda>_. acatch (va_multiLink va key [lreq path metaCID (Some []) 1])
              (\<lambda>_. athrow (err complaint)))"

definition write_run :: "'s vapi \<Rightarrow> string \<Rightarrow> string \<Rightarrow> err + u8 list \<Rightarrow> ('s, jsv) aprog" where
  "write_run va cmd target content = on_path va target (\<lambda>key path.
     abind (alift content) (\<lambda>bytes.
     abind (store_file va key bytes) (\<lambda>metaCID.
       replace_or_create va key path metaCID (cmd @ '': cannot write to '' @ quoted path))))"

text \<open>
  The bytes of what is written: None for a value the command refuses. A response is read before
  anything is stored. (\<open>write\<close> and \<open>append\<close> accept binary data, \<open>to\<close> does not.)
\<close>

fun content_bytes :: "gval \<Rightarrow> (err + u8 list) option" where
  "content_bytes (V_js (JStr s)) = Some (Inr (text_encode s))"
| "content_bytes (V_response r) = Some (resp_bytes r)"
| "content_bytes (V_uint8 b) = Some (Inr b)"
| "content_bytes (V_buffer b) = Some (Inr b)"
| "content_bytes v = None"

definition write_invoke :: "'s vapi \<Rightarrow> gval \<Rightarrow> gval list \<Rightarrow> ('s, gval) aprog" where
  "write_invoke va prev args =
     (case prev of
        V_path p \<Rightarrow>
          if length args > 1 then athrow (err ''write: too many arguments'')
          else if args = [] \<or> hd args = V_js JUndef then athrow (err ''write: no content provided'')
          else (case content_bytes (hd args) of
            None \<Rightarrow> athrow (err ''write: content must be string, Response, or binary data'')
          | Some content \<Rightarrow> done_with (write_run va ''write'' p content))
      | _ \<Rightarrow> athrow (err ''write: need a destination path''))"

definition to_invoke :: "'s vapi \<Rightarrow> gval \<Rightarrow> gval list \<Rightarrow> ('s, gval) aprog" where
  "to_invoke va prev args =
     (if is_str prev \<or> (case prev of V_response r \<Rightarrow> True | _ \<Rightarrow> False) then
        abind (alift (arg_loop ''to: unexpected argument - expected a GimbalPath destination''
                (path_or volume_path) isPlainObject 0 args (None, no_opts))) (\<lambda>(dest, opts).
          case dest of
            None \<Rightarrow> athrow (err ''to: need a destination path (GimbalPath)'')
          | Some d \<Rightarrow>
              abind (alift (or_else (content_bytes prev) (Inr []))) (\<lambda>bytes.
                done_with (write_run va ''to'' d (Inr bytes))))
      else athrow (err (''to: expected a string or Response, got '' @ type_name prev)))"

text \<open>
  The bytes that \<open>append\<close> adds: its \<open>String(content)\<close> makes a response the text
  \<open>[object Response]\<close>.
\<close>

fun appended_bytes :: "gval \<Rightarrow> u8 list option" where
  "appended_bytes (V_js (JStr s)) = Some (text_encode s)"
| "appended_bytes (V_uint8 b) = Some b"
| "appended_bytes (V_buffer b) = Some b"
| "appended_bytes (V_response r) = Some (text_encode ''[object Response]'')"
| "appended_bytes v = None"

text \<open>The bytes already at the path; a failed lookup that says "not found" counts as an empty file.\<close>

definition existing_bytes :: "'s vapi \<Rightarrow> string \<Rightarrow> string \<Rightarrow> ('s, u8 list) aprog" where
  "existing_bytes va key path =
     acatch
       (abind (va_lookup va key path) (\<lambda>file.
          if isDir file then athrow (err ''append: destination is a directory'')
          else va_bytes va key file))
       (\<lambda>e. if starts_with ''append:'' (err_message e) then athrow e
            else if \<not> str_includes (err_message e) ''not found'' then athrow e
            else aret [])"

definition append_run :: "'s vapi \<Rightarrow> string \<Rightarrow> u8 list \<Rightarrow> ('s, jsv) aprog" where
  "append_run va target inputBytes = on_path va target (\<lambda>key path.
     abind (existing_bytes va key path) (\<lambda>existing.
     abind (store_file va key (existing @ inputBytes)) (\<lambda>metaCID.
       on_assertion (va_multiLink va key [lreq path metaCID None ASSERT_IS_BLOB])
         (on_assertion (va_multiLink va key [lreq path metaCID (Some []) ASSERT_PREV_MATCHES])
            (athrow (err ''append: destination is a directory''))))))"

definition append_invoke :: "'s vapi \<Rightarrow> gval \<Rightarrow> gval list \<Rightarrow> ('s, gval) aprog" where
  "append_invoke va prev args =
     (case prev of
        V_path p \<Rightarrow>
          if length args > 1 then athrow (err ''append: too many arguments'')
          else if args = [] \<or> hd args = V_js JUndef then athrow (err ''append: no content provided'')
          else (case appended_bytes (hd args) of
            None \<Rightarrow> athrow (err ''append: content must be string, Response, or binary data'')
          | Some inputBytes \<Rightarrow> done_with (append_run va p inputBytes))
      | _ \<Rightarrow> athrow (err ''append: need a destination path''))"

section \<open>cp and mv\<close>

text \<open>The places to try: inside the destination under the source's name, then the destination.\<close>

definition candidates :: "bool \<Rightarrow> string \<Rightarrow> string \<Rightarrow> string list" where
  "candidates ff destPath srcPath =
     (if ff then [destPath] else [destPath @ ''/'' @ last (js_split slash srcPath), destPath])"

text \<open>With \<open>{i:1}\<close>, the check that nothing is at the place; a failed lookup of any kind passes it.\<close>

definition cp_absent :: "'s vapi \<Rightarrow> string \<Rightarrow> string \<Rightarrow> ('s, unit) aprog" where
  "cp_absent va key path =
     acatch (abind (va_lookup va key path) (\<lambda>_. athrow (err ''cp: destination exists'')))
       (\<lambda>e. if err_message e = ''cp: destination exists'' then athrow e else aret ())"

fun cp_loop :: "'s vapi \<Rightarrow> string \<Rightarrow> string \<Rightarrow> bool \<Rightarrow> string list \<Rightarrow> ('s, unit) aprog" where
  "cp_loop va key addr i [] = athrow (err ''cp: cannot resolve destination'')"
| "cp_loop va key addr i (path # rest) =
     abind (if i then cp_absent va key path else aret ()) (\<lambda>_.
     abind (atry (va_multiLink va key [lreq path addr None 0])) (\<lambda>r.
       case r of
         Inr _ \<Rightarrow> aret ()
       | Inl e \<Rightarrow>
           if rest \<noteq> [] then cp_loop va key addr i rest
           else if is_assertion e then athrow (err ''cp: destination exists'')
           else athrow e))"

text \<open>The executor of cp; its options are first read after the lookup of the source.\<close>

definition cp_run :: "'s vapi \<Rightarrow> string \<Rightarrow> string \<Rightarrow> gval \<Rightarrow> ('s, unit) aprog" where
  "cp_run va src dest opts =
     on_path va src (\<lambda>srcKey srcPath. on_path va dest (\<lambda>destKey destPath.
       abind (va_lookup va srcKey srcPath) (\<lambda>srcFile.
       with_flags opts ''ff'' ''i'' (\<lambda>ff i.
         cp_loop va destKey (gf_cid srcFile) i (candidates ff destPath srcPath)))))"

definition cp_invoke :: "'s vapi \<Rightarrow> gval \<Rightarrow> gval list \<Rightarrow> ('s, gval) aprog" where
  "cp_invoke va prev args =
     (case prev of
        V_path p \<Rightarrow>
          abind (alift (arg_loop (unexpected ''cp'') (path_or (gp_relPath p)) is_opts 0 args (None, no_opts)))
            (\<lambda>(dest, opts).
              case dest of
                None \<Rightarrow> athrow (err ''cp: need a destination path'')
              | Some d \<Rightarrow> done_with (cp_run va p d opts))
      | _ \<Rightarrow> athrow (err ''cp: need a source path''))"

text \<open>
  mv finds its destination and its options anywhere among its arguments, the options being the first
  object (null is an object, which \<open>|| {}\<close> then replaces).
\<close>

definition mv_dest :: "string \<Rightarrow> gval list \<Rightarrow> string option" where
  "mv_dest prev args =
     (case find is_path args of
        Some (V_path p) \<Rightarrow> Some p
      | _ \<Rightarrow> (case find is_str args of
          Some (V_js (JStr s)) \<Rightarrow> if s = [] then None else Some (gp_relPath prev s)
        | _ \<Rightarrow> None))"

definition mv_opts :: "gval list \<Rightarrow> gval" where
  "mv_opts args =
     (case find is_opts args of None \<Rightarrow> no_opts | Some v \<Rightarrow> if v = V_js JNull then no_opts else v)"

text \<open>
  Across volumes: the content is stored as a file on the destination's volume, linked, and the
  source unlinked. An assertion error ends the loop, any other tries the next place.
\<close>

fun mv_cross :: "'s vapi \<Rightarrow> string \<Rightarrow> string \<Rightarrow> string \<Rightarrow> string \<Rightarrow> bool \<Rightarrow> string list \<Rightarrow> ('s, unit) aprog" where
  "mv_cross va srcKey srcPath destKey metaCID i [] = athrow (err ''mv: cannot resolve destination'')"
| "mv_cross va srcKey srcPath destKey metaCID i (path # rest) =
     abind (atry (va_multiLink va destKey
         [lreq path metaCID (if i then Some [] else None) (if i then ASSERT_PREV_MATCHES else 0)])) (\<lambda>r.
       case r of
         Inl e \<Rightarrow>
           if is_assertion e then athrow (err ''mv: destination exists'')
           else mv_cross va srcKey srcPath destKey metaCID i rest
       | Inr _ \<Rightarrow>
           abind (va_multiLink va srcKey
             [\<lparr>la_path = srcPath, la_addr = Some [], la_prev = None, la_assert = None\<rparr>]) (\<lambda>_. aret ()))"

text \<open>Within a volume: one transaction that links the new place and unlinks the old one.\<close>

definition mv_requests :: "string \<Rightarrow> string \<Rightarrow> string \<Rightarrow> bool \<Rightarrow> bool \<Rightarrow> link_arg list" where
  "mv_requests path srcPath addr i force =
     [lreq path addr (if i then Some [] else None)
        (if i then ASSERT_PREV_MATCHES else if force then 0 else ASSERT_PREV_MATCHES),
      lreq srcPath [] (Some addr) ASSERT_PREV_MATCHES]"

fun mv_loop :: "'s vapi \<Rightarrow> string \<Rightarrow> string \<Rightarrow> string \<Rightarrow> bool \<Rightarrow> bool \<Rightarrow> string list \<Rightarrow> ('s, unit) aprog" where
  "mv_loop va key srcPath addr i force [] = athrow (err ''mv: cannot resolve destination'')"
| "mv_loop va key srcPath addr i force (path # rest) =
     abind (atry (va_multiLink va key (mv_requests path srcPath addr i force))) (\<lambda>r.
       case r of
         Inl e \<Rightarrow>
           if is_assertion e then athrow (err ''mv: destination exists'')
           else mv_loop va key srcPath addr i force rest
       | Inr _ \<Rightarrow> aret ())"

definition mv_run :: "'s vapi \<Rightarrow> string \<Rightarrow> string \<Rightarrow> bool \<Rightarrow> bool \<Rightarrow> bool \<Rightarrow> ('s, unit) aprog" where
  "mv_run va src dest i f ff =
     on_path va src (\<lambda>srcKey srcPath. on_path va dest (\<lambda>destKey destPath.
       abind (va_lookup va srcKey srcPath) (\<lambda>srcFile.
         if fst (resolvePath src) \<noteq> fst (resolvePath dest) then
           abind (va_bytes va srcKey srcFile) (\<lambda>bytes.
           abind (store_file va destKey bytes) (\<lambda>metaCID.
             mv_cross va srcKey srcPath destKey metaCID i (candidates ff destPath srcPath)))
         else mv_loop va srcKey srcPath (gf_cid srcFile) i (f \<or> ff) (candidates ff destPath srcPath))))"

text \<open>The options are never null here, so reading them cannot fail.\<close>

definition opt_set :: "gval \<Rightarrow> string \<Rightarrow> bool" where
  "opt_set opts k \<longleftrightarrow> opt_flag opts k = Inr True"

definition mv_invoke :: "'s vapi \<Rightarrow> gval \<Rightarrow> gval list \<Rightarrow> ('s, gval) aprog" where
  "mv_invoke va prev args =
     (case prev of
        V_path p \<Rightarrow>
          (case mv_dest p args of
             None \<Rightarrow> athrow (err ''mv: need a destination path'')
           | Some d \<Rightarrow>
               (let opts = mv_opts args in
                done_with (mv_run va p d (opt_set opts ''i'') (opt_set opts ''f'') (opt_set opts ''ff''))))
      | _ \<Rightarrow> athrow (err ''mv: need a source path''))"

section \<open>diff\<close>

text \<open>A line of the output: the path and the two identifiers, None for \<open>null\<close>.\<close>

type_synonym diff_line = "string \<times> string option \<times> string option"

definition below :: "string \<Rightarrow> string \<Rightarrow> string" where
  "below relPath name = (if relPath = ''.'' then name else relPath @ ''/'' @ name)"

text \<open>
  \<open>_miss\<close>: everything below a directory that only one side has. It always writes the identifier
  in the left column. The depth of the directory is the fuel.
\<close>

fun diff_miss :: "nat \<Rightarrow> 's vapi \<Rightarrow> string \<Rightarrow> gfile \<Rightarrow> string \<Rightarrow> diff_line list \<Rightarrow> ('s, diff_line list) aprog" where
  "diff_miss 0 va key file relPath out = (\<lambda>_. None)"
| "diff_miss (Suc n) va key file relPath out =
     abind (va_children va key file) (\<lambda>cs.
       aloop cs (\<lambda>(name, child) out.
         let cp = relPath @ ''/'' @ name; out1 = out @ [(cp, Some (gf_cid child), None)] in
         if isDir child then diff_miss n va key child cp out1 else aret out1) out)"

text \<open>\<open>_diff\<close>: the children of both sides by name, in sorted order; the two sides may be on two volumes.\<close>

definition union_names :: "(string \<times> gfile) list \<Rightarrow> (string \<times> gfile) list \<Rightarrow> string list" where
  "union_names ca cb = sort (remdups (map fst ca @ map fst cb))"

text \<open>The body of the loop over the names: on one side only, or on both (then \<open>both\<close>).\<close>

definition diff_child :: "nat \<Rightarrow> 's vapi \<Rightarrow> string \<Rightarrow> string \<Rightarrow> (gfile \<Rightarrow> gfile \<Rightarrow> string \<Rightarrow> diff_line list
      \<Rightarrow> ('s, diff_line list) aprog)
    \<Rightarrow> gfile option \<Rightarrow> gfile option \<Rightarrow> string \<Rightarrow> diff_line list \<Rightarrow> ('s, diff_line list) aprog" where
  "diff_child n va ka kb both a b cp out =
     (case a of
        None \<Rightarrow>
          (case b of
             None \<Rightarrow> aret out
           | Some childB \<Rightarrow>
               (let out1 = out @ [(cp, None, Some (gf_cid childB))] in
                if isDir childB then diff_miss n va kb childB cp out1 else aret out1))
      | Some childA \<Rightarrow>
          (case b of
             None \<Rightarrow>
               (let out1 = out @ [(cp, Some (gf_cid childA), None)] in
                if isDir childA then diff_miss n va ka childA cp out1 else aret out1)
           | Some childB \<Rightarrow> both childA childB cp out))"

fun diff_files :: "nat \<Rightarrow> 's vapi \<Rightarrow> string \<Rightarrow> string \<Rightarrow> bool \<Rightarrow> gfile \<Rightarrow> gfile \<Rightarrow> string \<Rightarrow> diff_line list
    \<Rightarrow> ('s, diff_line list) aprog" where
  "diff_files 0 va ka kb r left right relPath out = (\<lambda>_. None)"
| "diff_files (Suc n) va ka kb r left right relPath out =
     (if gf_cid left = gf_cid right then aret out
      else if r \<and> isDir left \<and> isDir right then
        abind (va_children va ka left) (\<lambda>ca.
        abind (va_children va kb right) (\<lambda>cb.
          aloop (union_names ca cb) (\<lambda>name.
            diff_child n va ka kb (diff_files n va ka kb r)
              (map_get ca name) (map_get cb name) (below relPath name)) out))
      else aret (out @ [(relPath, Some (gf_cid left), Some (gf_cid right))]))"

definition line_json :: "diff_line \<Rightarrow> jsv" where
  "line_json l =
     (let cid = (\<lambda>c. case c of None \<Rightarrow> JNull | Some s \<Rightarrow> JStr s) in
      JArr [JStr (fst l), cid (fst (snd l)), cid (snd (snd l))])"

definition diff_run :: "nat \<Rightarrow> 's vapi \<Rightarrow> string \<Rightarrow> string \<Rightarrow> gval \<Rightarrow> ('s, string) aprog" where
  "diff_run depth va pathA pathB opts =
     on_path va pathA (\<lambda>ka pa. on_path va pathB (\<lambda>kb pb.
       abind (va_lookup va ka pa) (\<lambda>fileA.
       abind (va_lookup va kb pb) (\<lambda>fileB.
       abind (if gf_cid fileA = gf_cid fileB then aret []
              else abind (alift (opt_flag opts ''r'')) (\<lambda>r.
                diff_files depth va ka kb r fileA fileB ''.'' [])) (\<lambda>ls.
         aret (js_join [CHR 0x0A] (map (\<lambda>l. json_stringify (line_json l)) ls)))))))"

text \<open>The argument loop when diff is called on the client: two paths, then options.\<close>

fun diff_client_args :: "gval list \<Rightarrow> string list \<Rightarrow> gval \<Rightarrow> err + (string list \<times> gval)" where
  "diff_client_args [] paths opts = Inr (paths, opts)"
| "diff_client_args (a # as) paths opts =
     (case (if length paths < 2 then path_or volume_path a else None) of
        Some p \<Rightarrow> diff_client_args as (paths @ [p]) opts
      | None \<Rightarrow>
          if as = [] \<and> is_opts a then diff_client_args as paths a
          else Inl (err (unexpected ''diff'')))"

definition diff_invoke :: "nat \<Rightarrow> 's vapi \<Rightarrow> gval \<Rightarrow> gval list \<Rightarrow> ('s, gval) aprog" where
  "diff_invoke depth va prev args =
     abind (alift (case prev of
         V_client \<Rightarrow> diff_client_args args [] no_opts
       | V_path p \<Rightarrow>
           (case arg_loop (unexpected ''diff'') (path_or (gp_path p)) is_opts 0 args (None, no_opts) of
              Inl e \<Rightarrow> Inl e
            | Inr (None, opts) \<Rightarrow> Inr ([p], opts)
            | Inr (Some q, opts) \<Rightarrow> Inr ([p, q], opts))
       | _ \<Rightarrow> Inl (err ''diff: need a path''))) (\<lambda>(paths, opts).
       case paths of
         [a, b] \<Rightarrow> abind (diff_run depth va a b opts) (\<lambda>t. aret (V_js (JStr t)))
       | _ \<Rightarrow> athrow (err ''diff: need two paths''))"

section \<open>mail/send.js\<close>

text \<open>
  The message: fixed fields first, the bodies in HTML and Markdown when given, then the other extras.
  \<open>Date.now()\<close> and \<open>toISOString\<close> read the clock; the milliseconds are three digits.
\<close>

definition iso_millis :: "int \<Rightarrow> string" where
  "iso_millis ms = butlast (iso_seconds ms) @ ''.'' @ pad_left 3 (int_str (ms mod 1000)) @ ''Z''"

definition message_json :: "string \<Rightarrow> jsv \<Rightarrow> jsv \<Rightarrow> string \<Rightarrow> (string \<times> jsv) list \<Rightarrow> int \<Rightarrow> jsv" where
  "message_json recipient sender subject body extra now =
     (let special = [''bodyHtml'', ''bodyMarkdown''];
          base = [(''from'', sender), (''to'', JStr recipient),
                  (''subject'', if truthy subject then subject else JStr []),
                  (''body'', JStr body), (''timestamp'', JStr (iso_millis now))];
          bodies = filter (\<lambda>(k, v). truthy v)
                     (List.map_filter (\<lambda>k. map_option (Pair k) (map_get extra k)) special);
          rest = filter (\<lambda>(k, v). k \<notin> set special) extra
      in JObj (foldl (\<lambda>m (k, v). map_set k v m) base (bodies @ rest)))"

fun send_attempts :: "nat \<Rightarrow> 's vapi \<Rightarrow> string \<Rightarrow> string \<Rightarrow> string \<Rightarrow> ('s, unit) aprog" where
  "send_attempts 0 va key destPath metaCID =
     athrow (err ''could not find a unique filename after 20 attempts'')"
| "send_attempts (Suc n) va key destPath metaCID =
     abind (va_now va) (\<lambda>now.
     abind (va_random va) (\<lambda>rnd.
       on_assertion
         (abind (va_multiLink va key
            [lreq (destPath @ ''/'' @ int_str now @ ''-'' @ rnd @ ''.json'') metaCID (Some []) ASSERT_PREV_MATCHES])
            (\<lambda>_. aret ()))
         (send_attempts n va key destPath metaCID)))"

definition maxAttempts :: nat where "maxAttempts = 20"

definition sendMessage :: "'s vapi \<Rightarrow> string \<Rightarrow> string \<Rightarrow> jsv \<Rightarrow> jsv \<Rightarrow> string \<Rightarrow> (string \<times> jsv) list
    \<Rightarrow> ('s, unit) aprog" where
  "sendMessage va key recipient sender subject body extra =
     abind (va_now va) (\<lambda>now.
     abind (store_file va key (json_bytes (message_json recipient sender subject body extra now))) (\<lambda>metaCID.
       send_attempts maxAttempts va key (''home/'' @ recipient @ ''/local/inbox'') metaCID))"

end
