(* ===== verification/Tools_Access.thy ===== *)
theory Tools_Access
  imports Tools_Files
begin

text \<open>
  The commands on the access grants of a directory: access, allow and deny. The grants are the
  array \<open>allow\<close> of the JSON file \<open>.grits/access.json\<close> of the directory.
\<close>

section \<open>Where the grants are\<close>

definition access_json :: "string \<Rightarrow> string" where
  "access_json path = (if path \<noteq> [] then path @ ''/.grits/access.json'' else ''.grits/access.json'')"

definition grits_dir :: "string \<Rightarrow> string" where
  "grits_dir path = (if path \<noteq> [] then path @ ''/.grits'' else ''.grits'')"

definition within_grits :: "string \<Rightarrow> bool" where
  "within_grits path \<longleftrightarrow> str_includes path ''/.grits'' \<or> starts_with ''.grits'' path"

definition says_not_found :: "err \<Rightarrow> bool" where
  "says_not_found e \<longleftrightarrow> str_includes (err_message e) ''not found''"

section \<open>access\<close>

definition access_invoke :: "'s vapi \<Rightarrow> gval \<Rightarrow> gval list \<Rightarrow> ('s, gval) aprog" where
  "access_invoke va prev args =
     (case prev of
        V_path p \<Rightarrow>
          if args \<noteq> [] then athrow (err ''access: does not accept arguments'')
          else on_path va p (\<lambda>key path.
            acatch
              (abind (va_lookup va key (access_json path)) (\<lambda>file.
               abind (va_json va key (contentCID file)) (\<lambda>d. aret (V_js d))))
              (\<lambda>e. if says_not_found e then aret (V_js JUndef) else athrow e))
      | _ \<Rightarrow> athrow (err ''access: must be called on a path (use gimbal.p(\"/path\").access())''))"

section \<open>allow\<close>

definition given_field :: "(string \<times> jsv) list \<Rightarrow> string \<Rightarrow> bool" where
  "given_field arg k \<longleftrightarrow> js_prop (JObj arg) k \<noteq> JUndef"

fun is_bool :: "jsv \<Rightarrow> bool" where
  "is_bool (JBool b) = True"
| "is_bool v = False"

fun is_jstr :: "jsv \<Rightarrow> bool" where
  "is_jstr (JStr s) = True"
| "is_jstr v = False"

text \<open>The type checks in order: a field given must pass its test; the complaint of the first that does not.\<close>

fun check_types :: "string \<Rightarrow> (string \<times> (jsv \<Rightarrow> bool) \<times> string) list \<Rightarrow> (string \<times> jsv) list \<Rightarrow> err + unit" where
  "check_types cmd [] arg = Inr ()"
| "check_types cmd ((k, test, what) # ks) arg =
     (if given_field arg k \<and> \<not> test (js_prop (JObj arg) k)
      then Inl (err (cmd @ '': '' @ k @ '' must be a '' @ what))
      else check_types cmd ks arg)"

definition SPEC_KEYS :: "string list" where
  "SPEC_KEYS = [''u'', ''user'', ''all'', ''auth'', ''o'', ''origin'', ''p'', ''permission'']"

definition allow_types :: "(string \<times> (jsv \<Rightarrow> bool) \<times> string) list" where
  "allow_types = [(''all'', is_bool, ''boolean''), (''auth'', is_bool, ''boolean''),
     (''u'', is_jstr, ''string''), (''user'', is_jstr, ''string''), (''o'', is_jstr, ''string''),
     (''origin'', is_jstr, ''string''), (''p'', is_jstr, ''string''), (''permission'', is_jstr, ''string'')]"

definition unknown_key :: "string \<Rightarrow> string \<Rightarrow> err" where
  "unknown_key cmd k = err (cmd @ '': unknown key '' @ [CHR 0x22] @ k @ [CHR 0x22])"

definition check_spec :: "(string \<times> jsv) list \<Rightarrow> err + unit" where
  "check_spec arg =
     (if arg = [] then Inl (err ''allow: empty spec object'')
      else case find (\<lambda>k. k \<notin> set SPEC_KEYS) (map fst arg) of
        Some k \<Rightarrow> Inl (unknown_key ''allow'' k)
      | None \<Rightarrow>
          (case check_types ''allow'' allow_types arg of
             Inl e \<Rightarrow> Inl e
           | Inr _ \<Rightarrow>
               if \<not> list_ex (given_field arg) [''u'', ''user'', ''all'', ''auth'']
               then Inl (err ''allow: specify a principal: u, user, all, or auth'')
               else if \<not> (given_field arg ''o'' \<or> given_field arg ''origin'')
               then Inl (err ''allow: origin (o) is required. Use {o:\"*\"} for any origin.'')
               else if \<not> (given_field arg ''p'' \<or> given_field arg ''permission'')
               then Inl (err ''allow: permission (p) is required'')
               else Inr ()))"

text \<open>The long names; when both names are given the long one wins.\<close>

definition rename_fields :: "(string \<times> string) list \<Rightarrow> (string \<times> jsv) list \<Rightarrow> (string \<times> jsv) list" where
  "rename_fields names arg =
     foldl (\<lambda>out (k, n). if given_field arg k then map_set n (js_prop (JObj arg) k) out else out) [] names"

definition normalizeSpec :: "(string \<times> jsv) list \<Rightarrow> (string \<times> jsv) list" where
  "normalizeSpec arg =
     rename_fields [(''u'', ''user''), (''user'', ''user''), (''all'', ''all''), (''auth'', ''auth''),
       (''o'', ''origin''), (''origin'', ''origin''), (''p'', ''permission''), (''permission'', ''permission'')] arg"

text \<open>
  Whether a grant agrees with a spec on the fields given, read in order; a grant that is null
  throws when it is read.
\<close>

fun agrees :: "string list \<Rightarrow> (string \<times> jsv) list \<Rightarrow> jsv \<Rightarrow> err + bool" where
  "agrees [] spec g = Inr True"
| "agrees (k # ks) spec g =
     (if given_field spec k then
        (case js_prop_strict g k of
           Inl e \<Rightarrow> Inl e
         | Inr v \<Rightarrow> if v \<noteq> js_prop (JObj spec) k then Inr False else agrees ks spec g)
      else agrees ks spec g)"

definition same_principal :: "(string \<times> jsv) list \<Rightarrow> jsv \<Rightarrow> err + bool" where
  "same_principal spec g = agrees [''user'', ''all'', ''auth'', ''origin''] spec g"

fun find_grant :: "(string \<times> jsv) list \<Rightarrow> jsv list \<Rightarrow> err + nat option" where
  "find_grant spec [] = Inr None"
| "find_grant spec (g # gs) =
     (case same_principal spec g of
        Inl e \<Rightarrow> Inl e
      | Inr True \<Rightarrow> Inr (Some 0)
      | Inr False \<Rightarrow> (case find_grant spec gs of Inl e \<Rightarrow> Inl e | Inr i \<Rightarrow> Inr (map_option Suc i)))"

text \<open>\<open>cfg.allow\<close> as an array; anything else has no \<open>findIndex\<close>.\<close>

definition grants_of :: "jsv \<Rightarrow> err + jsv list" where
  "grants_of cfg =
     (case js_prop_strict cfg ''allow'' of
        Inl e \<Rightarrow> Inl e
      | Inr (JArr gs) \<Rightarrow> Inr gs
      | Inr _ \<Rightarrow> Inl (Err_Type ''cfg.allow.findIndex is not a function''))"

definition with_grants :: "jsv \<Rightarrow> jsv list \<Rightarrow> jsv" where
  "with_grants cfg gs = JObj (map_set ''allow'' (JArr gs) (entries cfg))"

definition set_grant :: "(string \<times> jsv) list \<Rightarrow> jsv list \<Rightarrow> err + jsv list" where
  "set_grant spec gs =
     (case find_grant spec gs of
        Inl e \<Rightarrow> Inl e
      | Inr (Some idx) \<Rightarrow> Inr (gs[idx := JObj spec])
      | Inr None \<Rightarrow> Inr (gs @ [JObj spec]))"

section \<open>Reading and storing the grants\<close>

definition read_config :: "'s vapi \<Rightarrow> string \<Rightarrow> string \<Rightarrow> ('s, jsv) aprog" where
  "read_config va key jsonPath =
     acatch
       (abind (va_lookup va key jsonPath) (\<lambda>file. va_json va key (contentCID file)))
       (\<lambda>e. if says_not_found e then aret (JObj [(''allow'', JArr [])]) else athrow e)"

text \<open>The end of allow and deny: the \<open>.grits\<close> directory, made if a lookup fails, then the file.\<close>

definition store_config :: "'s vapi \<Rightarrow> string \<Rightarrow> string \<Rightarrow> jsv \<Rightarrow> ('s, jsv) aprog" where
  "store_config va key path cfg =
     abind (acatch (abind (va_lookup va key (grits_dir path)) (\<lambda>_. aret ()))
       (\<lambda>_. abind (va_mkdir va key []) (\<lambda>dirCID.
            abind (va_link va key dirCID (grits_dir path)) (\<lambda>_. aret ())))) (\<lambda>_.
     abind (store_file va key (text_encode (json_stringify2 cfg))) (\<lambda>meta.
       va_link va key meta (access_json path)))"

definition change_grants :: "'s vapi \<Rightarrow> string \<Rightarrow> string \<Rightarrow> string \<Rightarrow> (jsv \<Rightarrow> err + jsv) \<Rightarrow> ('s, gval) aprog" where
  "change_grants va cmd key path change =
     (if within_grits path then athrow (err (cmd @ '': cannot modify grants within a .grits directory''))
      else abind (read_config va key (access_json path)) (\<lambda>cfg.
           abind (alift (change cfg)) (\<lambda>cfg'.
             done_with (store_config va key path cfg'))))"

definition allow_change :: "(string \<times> jsv) list \<Rightarrow> jsv \<Rightarrow> err + jsv" where
  "allow_change spec cfg =
     (case grants_of cfg of
        Inl e \<Rightarrow> Inl e
      | Inr gs \<Rightarrow> (case set_grant spec gs of Inl e \<Rightarrow> Inl e | Inr gs' \<Rightarrow> Inr (with_grants cfg gs')))"

definition allow_invoke :: "'s vapi \<Rightarrow> gval \<Rightarrow> gval list \<Rightarrow> ('s, gval) aprog" where
  "allow_invoke va prev args =
     (case prev of
        V_path p \<Rightarrow>
          (case args of
             [V_js (JObj arg)] \<Rightarrow>
               abind (alift (check_spec arg)) (\<lambda>_.
                 on_path va p (\<lambda>key path. change_grants va ''allow'' key path (allow_change (normalizeSpec arg))))
           | [_] \<Rightarrow> athrow (err ''allow: argument must be a plain object'')
           | _ \<Rightarrow> athrow (err ''allow: expected exactly one argument (the spec object)''))
      | _ \<Rightarrow> athrow (err ''allow: must be called on a path (use gimbal.p(\"/path\").allow({...}))''))"

section \<open>deny\<close>

definition FILTER_KEYS :: "string list" where
  "FILTER_KEYS = [''u'', ''user'', ''o'', ''origin'']"

definition check_filter :: "(string \<times> jsv) list \<Rightarrow> err + unit" where
  "check_filter arg =
     (case find (\<lambda>k. k \<notin> set FILTER_KEYS) (map fst arg) of
        Some k \<Rightarrow> Inl (unknown_key ''deny'' k)
      | None \<Rightarrow>
          check_types ''deny'' [(''u'', is_jstr, ''string''), (''user'', is_jstr, ''string''),
            (''o'', is_jstr, ''string''), (''origin'', is_jstr, ''string'')] arg)"

definition getFilter :: "(string \<times> jsv) list \<Rightarrow> (string \<times> jsv) list" where
  "getFilter spec =
     rename_fields [(''u'', ''user''), (''user'', ''user''), (''o'', ''origin''), (''origin'', ''origin'')] spec"

definition grantMatchesFilter :: "(string \<times> jsv) list \<Rightarrow> jsv \<Rightarrow> err + bool" where
  "grantMatchesFilter fil g = agrees [''user'', ''origin''] fil g"

text \<open>The grants that stay; the first grant that throws ends it.\<close>

fun keep_grants :: "(string \<times> jsv) list \<Rightarrow> jsv list \<Rightarrow> err + jsv list" where
  "keep_grants fil [] = Inr []"
| "keep_grants fil (g # gs) =
     (case grantMatchesFilter fil g of
        Inl e \<Rightarrow> Inl e
      | Inr b \<Rightarrow>
          (case keep_grants fil gs of Inl e \<Rightarrow> Inl e | Inr hs \<Rightarrow> Inr (if b then hs else g # hs)))"

text \<open>
  The loop of deny over \<open>cfg.allow\<close>: a value that is no array has no grants to remove, but a
  missing or null one throws, and so does the \<open>filter\<close> of a string whose characters all match.
\<close>

definition deny_grants :: "(string \<times> jsv) list \<Rightarrow> jsv \<Rightarrow> err + jsv list" where
  "deny_grants fil cfg =
     (case js_prop_strict cfg ''allow'' of
        Inl e \<Rightarrow> Inl e
      | Inr v \<Rightarrow>
          (case v of
             JArr gs \<Rightarrow>
               (case keep_grants fil gs of
                  Inl e \<Rightarrow> Inl e
                | Inr hs \<Rightarrow> if length hs = length gs then Inl (err ''deny: grant not found'') else Inr hs)
           | JUndef \<Rightarrow> Inl (Err_Type ''Cannot read properties of undefined (reading length)'')
           | JNull \<Rightarrow> Inl (Err_Type ''Cannot read properties of null (reading length)'')
           | JStr s \<Rightarrow> if s \<noteq> [] \<and> fil = [] then Inl (Err_Type ''cfg.allow.filter is not a function'')
                       else Inl (err ''deny: grant not found'')
           | _ \<Rightarrow> Inl (err ''deny: grant not found'')))"

text \<open>
  Without a filter every grant goes: the assignment to \<open>cfg.allow\<close> throws on a primitive, and on
  an array it makes a property that is not serialised.
\<close>

definition deny_change :: "(string \<times> jsv) list \<Rightarrow> bool \<Rightarrow> jsv \<Rightarrow> err + jsv" where
  "deny_change fil hasFilter cfg =
     (if \<not> hasFilter then
        (case cfg of
           JObj kvs \<Rightarrow> Inr (with_grants cfg [])
         | JArr vs \<Rightarrow> Inr cfg
         | _ \<Rightarrow> Inl (Err_Type ''Cannot set property allow''))
      else (case deny_grants fil cfg of Inl e \<Rightarrow> Inl e | Inr hs \<Rightarrow> Inr (with_grants cfg hs)))"

definition deny_invoke :: "'s vapi \<Rightarrow> gval \<Rightarrow> gval list \<Rightarrow> ('s, gval) aprog" where
  "deny_invoke va prev args =
     (case prev of
        V_path p \<Rightarrow>
          (case args of
             [] \<Rightarrow> on_path va p (\<lambda>key path. change_grants va ''deny'' key path (deny_change [] False))
           | [V_js (JObj arg)] \<Rightarrow>
               abind (alift (check_filter arg)) (\<lambda>_.
                 on_path va p (\<lambda>key path.
                   change_grants va ''deny'' key path (deny_change (getFilter arg) (arg \<noteq> []))))
           | [_] \<Rightarrow> athrow (err ''deny: argument must be a plain object'')
           | _ \<Rightarrow> athrow (err ''deny: too many arguments''))
      | _ \<Rightarrow> athrow (err ''deny: must be called on a path (use gimbal.p(\"/path\").deny({...}))''))"

section \<open>Properties\<close>

text \<open>A grant the code can read: not null and not undefined.\<close>

definition readable :: "jsv \<Rightarrow> bool" where
  "readable g \<longleftrightarrow> g \<noteq> JNull \<and> g \<noteq> JUndef"

lemma prop_readable: "readable g \<Longrightarrow> js_prop_strict g k = Inr (js_prop g k)"
  by (cases g) (simp_all add: readable_def)

lemma agrees_iff:
  "readable g \<Longrightarrow> agrees ks spec g =
     Inr (\<forall>k \<in> set ks. given_field spec k \<longrightarrow> js_prop g k = js_prop (JObj spec) k)"
  by (induction ks) (auto simp: prop_readable)

declare agrees.simps [simp del]

lemma agrees_total: "readable g \<Longrightarrow> \<exists>b. agrees ks spec g = Inr b"
  using agrees_iff by (rule exI)

lemma same_principal_self: "same_principal spec (JObj spec) = Inr True"
  unfolding same_principal_def by (simp add: agrees_iff readable_def)

definition agreeing :: "(string \<times> jsv) list \<Rightarrow> jsv \<Rightarrow> bool" where
  "agreeing spec g \<longleftrightarrow> same_principal spec g = Inr True"

lemma same_principal_readable: "readable g \<Longrightarrow> same_principal spec g = Inr (agreeing spec g)"
proof -
  assume "readable g"
  then obtain b where "same_principal spec g = Inr b" unfolding same_principal_def using agrees_total by blast
  then show ?thesis by (cases b) (simp_all add: agreeing_def)
qed

text \<open>The first agreeing grant.\<close>

lemma find_grant_first:
  "list_all readable gs \<Longrightarrow> find_grant spec gs =
     Inr (if \<exists>g \<in> set gs. agreeing spec g then Some (length (takeWhile (\<lambda>g. \<not> agreeing spec g) gs)) else None)"
  by (induction gs) (auto simp: same_principal_readable split: bool.splits)

lemma takeWhile_update_first:
  assumes "\<exists>g \<in> set gs. Q g" and "Q h"
  shows "takeWhile (\<lambda>g. \<not> Q g) (gs[length (takeWhile (\<lambda>g. \<not> Q g) gs) := h]) = takeWhile (\<lambda>g. \<not> Q g) gs"
  using assms by (induction gs) auto

lemma first_index: "\<exists>g \<in> set gs. Q g \<Longrightarrow> length (takeWhile (\<lambda>g. \<not> Q g) gs) < length gs"
  by (induction gs) auto

lemma takeWhile_none: "\<not> (\<exists>g \<in> set gs. Q g) \<Longrightarrow> takeWhile (\<lambda>g. \<not> Q g) gs = gs"
  by (induction gs) auto

lemma set_grant_Inr:
  assumes "list_all readable gs"
  shows "set_grant spec gs = Inr (if \<exists>g \<in> set gs. agreeing spec g
      then gs[length (takeWhile (\<lambda>g. \<not> agreeing spec g) gs) := JObj spec] else gs @ [JObj spec])"
  using find_grant_first [OF assms] by (simp add: set_grant_def)

lemma readable_update: "list_all readable gs \<Longrightarrow> list_all readable (gs[i := JObj spec])"
  by (auto simp: list_all_iff readable_def dest!: set_update_subset_insert [THEN subsetD])

lemma set_grant_idem:
  assumes gs: "list_all readable gs" and set1: "set_grant spec gs = Inr gs'"
  shows "set_grant spec gs' = Inr gs'"
proof (cases "\<exists>g \<in> set gs. agreeing spec g")
  case True
  let ?i = "length (takeWhile (\<lambda>g. \<not> agreeing spec g) gs)"
  have self: "agreeing spec (JObj spec)" by (simp add: agreeing_def same_principal_self)
  have gs': "gs' = gs[?i := JObj spec]" using set1 True by (simp add: set_grant_Inr [OF gs])
  have "JObj spec \<in> set gs'" using gs' first_index [OF True] by (simp add: set_update_memI)
  then have ex: "\<exists>g \<in> set gs'. agreeing spec g" using self by blast
  have "takeWhile (\<lambda>g. \<not> agreeing spec g) gs' = takeWhile (\<lambda>g. \<not> agreeing spec g) gs"
    unfolding gs' by (rule takeWhile_update_first [OF True self])
  then show ?thesis
    using ex set_grant_Inr [OF readable_update [OF gs, of ?i spec], of spec] by (simp add: gs')
next
  case False
  have self: "agreeing spec (JObj spec)" by (simp add: agreeing_def same_principal_self)
  have gs': "gs' = gs @ [JObj spec]" using set1 False by (simp add: set_grant_Inr [OF gs])
  have r: "list_all readable gs'" using gs by (simp add: gs' readable_def)
  have "takeWhile (\<lambda>g. \<not> agreeing spec g) gs' = gs"
    using False self by (simp add: gs' takeWhile_append2 [of gs])
  then show ?thesis using self set_grant_Inr [OF r, of spec] by (simp add: gs')
qed

lemma grants_with_grants [simp]: "grants_of (with_grants cfg gs) = Inr gs"
  by (simp add: grants_of_def with_grants_def)

lemma with_grants_twice [simp]: "with_grants (with_grants cfg gs) hs = with_grants cfg hs"
  by (simp add: with_grants_def update_Some_unfold [symmetric])



lemma length_filter_all: "length (filter Q xs) = length xs \<longleftrightarrow> (\<forall>x \<in> set xs. Q x)"
proof (induction xs)
  case (Cons x xs)
  have "length (filter Q xs) \<noteq> Suc (length xs)" using length_filter_le [of Q xs] by linarith
  then show ?case using Cons by simp
qed simp

lemma keep_grants_filter:
  "list_all readable gs \<Longrightarrow> keep_grants fil gs = Inr (filter (\<lambda>g. grantMatchesFilter fil g = Inr False) gs)"
  by (induction gs) (auto simp: grantMatchesFilter_def agrees_iff)

text \<open>
  deny with a filter removes exactly the grants that match it, in order, and reports when there is none;
  without a filter it removes them all; afterwards no grant of the configuration matches the filter.
\<close>

theorem deny_removes_matches:
  assumes "grants_of cfg = Inr gs" and "list_all readable gs"
  shows "let hs = filter (\<lambda>g. grantMatchesFilter fil g = Inr False) gs in
     deny_change fil True cfg = (if \<exists>g \<in> set gs. grantMatchesFilter fil g = Inr True
        then Inr (with_grants cfg hs) else Inl (Err_Error ''deny: grant not found''))
   \<and> (\<forall>g \<in> set hs. grantMatchesFilter fil g \<noteq> Inr True)
   \<and> deny_change fil False (JObj kvs) = Inr (with_grants (JObj kvs) [])"
proof -
  have m: "\<exists>b. grantMatchesFilter fil g = Inr b" if "g \<in> set gs" for g
    using assms(2) that by (simp add: list_all_iff grantMatchesFilter_def agrees_total)
  have two: "grantMatchesFilter fil g = Inr False \<longleftrightarrow> grantMatchesFilter fil g \<noteq> Inr True" if "g \<in> set gs" for g
  proof -
    obtain b where "grantMatchesFilter fil g = Inr b" using m [OF \<open>g \<in> set gs\<close>] by blast
    then show ?thesis by (cases b) simp_all
  qed
  have len: "length (filter (\<lambda>g. grantMatchesFilter fil g = Inr False) gs) = length gs
      \<longleftrightarrow> \<not> (\<exists>g \<in> set gs. grantMatchesFilter fil g = Inr True)"
  proof -
    have "length (filter (\<lambda>g. grantMatchesFilter fil g = Inr False) gs) = length gs
        \<longleftrightarrow> (\<forall>g \<in> set gs. grantMatchesFilter fil g = Inr False)"
      by (rule length_filter_all)
    also have "\<dots> \<longleftrightarrow> \<not> (\<exists>g \<in> set gs. grantMatchesFilter fil g = Inr True)"
      using two by blast
    finally show ?thesis .
  qed
  have "js_prop_strict cfg ''allow'' = Inr (JArr gs)"
    using assms(1) by (auto simp: grants_of_def split: sum.splits jsv.splits)
  then show ?thesis
    by (simp add: deny_change_def deny_grants_def keep_grants_filter [OF assms(2)] len Let_def)
qed

theorem deny_removes_matches_witness:
  "let cfg = JObj [(''allow'', JArr [JObj [(''user'', JStr ''a'')], JObj [(''user'', JStr ''b'')]])] in
   deny_change [(''user'', JStr ''b'')] True cfg = Inr (with_grants cfg [JObj [(''user'', JStr ''a'')]])"
  using deny_removes_matches [of "JObj [(''allow'', JArr [JObj [(''user'', JStr ''a'')], JObj [(''user'', JStr ''b'')]])]"
      "[JObj [(''user'', JStr ''a'')], JObj [(''user'', JStr ''b'')]]" "[(''user'', JStr ''b'')]"]
  by (simp add: grants_of_def readable_def grantMatchesFilter_def given_field_def agrees.simps)

definition grant_type :: "string \<times> jsv \<Rightarrow> bool" where
  "grant_type = (\<lambda>(k, v). k \<in> {''user'', ''origin'', ''permission''} \<and> is_jstr v \<or> k \<in> {''all'', ''auth''} \<and> is_bool v)"

lemma check_types_ok:
  "check_types cmd ks arg = Inr () \<Longrightarrow> (k, test, what) \<in> set ks \<Longrightarrow> given_field arg k \<Longrightarrow> test (js_prop (JObj arg) k)"
  by (induction ks) (auto split: if_splits)

lemma rename_step_type:
  assumes "\<forall>x \<in> set out. grant_type x" and "given_field arg k \<Longrightarrow> grant_type (n, js_prop (JObj arg) k)"
  shows "\<forall>x \<in> set (if given_field arg k then map_set n (js_prop (JObj arg) k) out else out). grant_type x"
  using assms set_map_set_subset [of n "js_prop (JObj arg) k" out] by auto

lemma rename_types:
  "\<forall>x \<in> set out. grant_type x \<Longrightarrow>
   \<forall>(k, n) \<in> set names. given_field arg k \<longrightarrow> grant_type (n, js_prop (JObj arg) k) \<Longrightarrow>
   \<forall>x \<in> set (foldl (\<lambda>out (k, n). if given_field arg k then map_set n (js_prop (JObj arg) k) out else out) out names).
     grant_type x"
proof (induction names arbitrary: out)
  case (Cons kn names)
  obtain k n where kn: "kn = (k, n)" by (cases kn)
  have "\<forall>x \<in> set (if given_field arg k then map_set n (js_prop (JObj arg) k) out else out). grant_type x"
  proof (rule rename_step_type [OF Cons.prems(1)])
    assume "given_field arg k"
    then show "grant_type (n, js_prop (JObj arg) k)" using Cons.prems(2) kn by simp
  qed
  moreover have "\<forall>(k, n) \<in> set names. given_field arg k \<longrightarrow> grant_type (n, js_prop (JObj arg) k)"
    using Cons.prems(2) by simp
  ultimately show ?case unfolding kn foldl_Cons prod.case by (rule Cons.IH)
qed simp

lemma rename_keeps_key:
  "map_get out n \<noteq> None \<Longrightarrow>
    map_get (foldl (\<lambda>out (k, n). if given_field arg k then map_set n (js_prop (JObj arg) k) out else out) out names) n \<noteq> None"
  by (induction names arbitrary: out) (auto split: if_splits)

lemma rename_has_key:
  "(k, n) \<in> set names \<Longrightarrow> given_field arg k \<Longrightarrow>
    map_get (foldl (\<lambda>out (k, n). if given_field arg k then map_set n (js_prop (JObj arg) k) out else out) out names) n \<noteq> None"
proof (induction names arbitrary: out)
  case (Cons kn names)
  show ?case
  proof (cases "kn = (k, n)")
    case True
    then show ?thesis using Cons.prems(2) rename_keeps_key [of "map_set n (js_prop (JObj arg) k) out" n] by simp
  next
    case False
    then show ?thesis using Cons by (cases kn) auto
  qed
qed simp

text \<open>
  C15. A spec that passes the checks of allow becomes a grant whose fields are only the five long names, with a
  string for the user, the origin and the permission and a truth value for \<open>all\<close> and \<open>auth\<close>, and which
  names a principal, an origin and a permission.
\<close>

theorem checked_spec_type:
  assumes "check_spec arg = Inr ()"
  shows "(\<forall>x \<in> set (normalizeSpec arg). grant_type x)
     \<and> map_get (normalizeSpec arg) ''origin'' \<noteq> None \<and> map_get (normalizeSpec arg) ''permission'' \<noteq> None
     \<and> (\<exists>k \<in> {''user'', ''all'', ''auth''}. map_get (normalizeSpec arg) k \<noteq> None)"
proof -
  have types: "check_types ''allow'' allow_types arg = Inr ()"
    and principal: "\<exists>k \<in> {''u'', ''user'', ''all'', ''auth''}. given_field arg k"
    and orig: "\<exists>k \<in> {''o'', ''origin''}. given_field arg k"
    and perm: "\<exists>k \<in> {''p'', ''permission''}. given_field arg k"
    using assms by (auto simp: check_spec_def split: if_splits option.splits sum.splits)
  have str: "is_jstr (js_prop (JObj arg) k)"
    if "k \<in> {''u'', ''user'', ''o'', ''origin'', ''p'', ''permission''}" "given_field arg k" for k
    using check_types_ok [OF types, of k is_jstr "''string''"] that by (auto simp: allow_types_def)
  have bool: "is_bool (js_prop (JObj arg) k)" if "k \<in> {''all'', ''auth''}" "given_field arg k" for k
    using check_types_ok [OF types, of k is_bool "''boolean''"] that by (auto simp: allow_types_def)
  have "\<forall>x \<in> set (normalizeSpec arg). grant_type x"
    unfolding normalizeSpec_def rename_fields_def
    by (rule rename_types) (auto simp: grant_type_def simp del: js_prop.simps intro: str bool)
  moreover have key: "map_get (normalizeSpec arg) n \<noteq> None"
    if "(k, n) \<in> {(''u'', ''user''), (''user'', ''user''), (''all'', ''all''), (''auth'', ''auth''),
       (''o'', ''origin''), (''origin'', ''origin''), (''p'', ''permission''), (''permission'', ''permission'')}"
      "given_field arg k" for k n
    unfolding normalizeSpec_def rename_fields_def by (rule rename_has_key [OF _ that(2)]) (use that(1) in auto)
  moreover have "map_get (normalizeSpec arg) ''origin'' \<noteq> None"
    using orig key [of "''o''" "''origin''"] key [of "''origin''" "''origin''"] by auto
  moreover have "map_get (normalizeSpec arg) ''permission'' \<noteq> None"
    using perm key [of "''p''" "''permission''"] key [of "''permission''" "''permission''"] by auto
  moreover have "\<exists>k \<in> {''user'', ''all'', ''auth''}. map_get (normalizeSpec arg) k \<noteq> None"
    using principal key [of "''u''" "''user''"] key [of "''user''" "''user''"] key [of "''all''" "''all''"]
      key [of "''auth''" "''auth''"] by auto
  ultimately show ?thesis by simp
qed

theorem checked_spec_type_witness:
  "list_all grant_type (normalizeSpec [(''u'', JStr ''alice''), (''o'', JStr ''*''), (''p'', JStr ''owner'')])"
proof -
  have "check_spec [(''u'', JStr ''alice''), (''o'', JStr ''*''), (''p'', JStr ''owner'')] = Inr ()"
    by (simp add: check_spec_def SPEC_KEYS_def allow_types_def given_field_def)
  then show ?thesis using checked_spec_type by (auto simp: list_all_iff)
qed

end
