(* ===== verification/Tools_Session.thy ===== *)
theory Tools_Session
  imports Tools_Files
begin

text \<open>
  The commands on the session and on values: login, logout, whoami, home, mail, help, echo, js, json,
  download, upload, click and launch. What they take from the page (prompts, a picked file, the
  import of a module, the opening of a widget, a fetch of a foreign URL) is an argument.
\<close>

section \<open>login, logout, whoami, home\<close>

text \<open>
  The prompts of gimbal/dialog.js: the answer to a message, None when the dialog is cancelled.
  A user name or password that is not a string counts as its string form.
\<close>

record prompts =
  pr_credentials :: "string \<Rightarrow> (string \<times> string) option"
  pr_password :: "string \<Rightarrow> string option"

text \<open>The options popped off the end of the arguments.\<close>

definition pop_opts :: "gval list \<Rightarrow> gval list \<times> gval" where
  "pop_opts args =
     (if args \<noteq> [] \<and> isPlainObject (last args) then (butlast args, last args) else (args, no_opts))"

definition nth_arg :: "gval list \<Rightarrow> nat \<Rightarrow> gval" where
  "nth_arg args i = (if i < length args then args ! i else V_js JUndef)"

definition login_credentials :: "prompts \<Rightarrow> string \<Rightarrow> gval \<Rightarrow> gval \<Rightarrow> (gval \<times> gval) option" where
  "login_credentials pr serverUrl username password =
     (if username = V_js JUndef then
        map_option (\<lambda>(u, p). (V_js (JStr u), V_js (JStr p))) (pr_credentials pr (''Login to '' @ serverUrl))
      else if password = V_js JUndef then
        (case pr_password pr (''Password for '' @ gval_string username @ '':'') of
           None \<Rightarrow> None
         | Some p \<Rightarrow> if p = [] then None else Some (username, V_js (JStr p)))
      else Some (username, password))"

definition login_invoke :: "prompts \<Rightarrow> string \<Rightarrow> 's vapi \<Rightarrow> gval \<Rightarrow> gval list \<Rightarrow> ('s, gval) aprog" where
  "login_invoke pr serverUrl va prev args =
     (if prev \<noteq> V_client then athrow (err ''login: must be called on gimbal'')
      else
        (let (positional, opts) = pop_opts args;
             glob = opt_set opts ''g''
         in if opt_set opts ''guest'' then done_with (va_login va [] [] glob True)
            else case login_credentials pr serverUrl (nth_arg positional 0) (nth_arg positional 1) of
              None \<Rightarrow> aret (V_js JUndef)
            | Some (u, p) \<Rightarrow>
                if \<not> gval_truthy u \<or> \<not> gval_truthy p
                then athrow (err ''login: username and password are required'')
                else done_with (va_login va (gval_string u) (gval_string p) glob False)))"

definition logout_invoke :: "'s vapi \<Rightarrow> gval \<Rightarrow> gval list \<Rightarrow> ('s, gval) aprog" where
  "logout_invoke va prev args =
     (if prev \<noteq> V_client then athrow (err ''logout: must be called on gimbal'')
      else
        (let username = nth_arg args 0 in
         done_with (va_logout va (if gval_truthy username then gval_string username else []))))"

text \<open>Options given as one argument: undefined, null or an object that is neither a path nor an array.\<close>

fun is_array :: "gval \<Rightarrow> bool" where
  "is_array (V_js (JArr vs)) = True"
| "is_array (V_list vs) = True"
| "is_array v = False"

definition bad_options :: "gval \<Rightarrow> bool" where
  "bad_options opts \<longleftrightarrow> opts \<noteq> V_js JUndef \<and> (\<not> is_obj opts \<or> is_path opts \<or> is_array opts)"

definition or_no_opts :: "gval \<Rightarrow> gval" where
  "or_no_opts opts = (if gval_truthy opts then opts else no_opts)"

text \<open>\<open>formatExpiry\<close>; the date in the locale of the page is the argument \<open>fmt\<close>.\<close>

definition formatExpiry :: "(jsv \<Rightarrow> string) \<Rightarrow> jsv \<Rightarrow> string" where
  "formatExpiry fmt ts = (if \<not> truthy ts then ''never'' else fmt ts)"

definition identity_line :: "(jsv \<Rightarrow> string) \<Rightarrow> bool \<Rightarrow> jsv \<Rightarrow> err + string" where
  "identity_line fmt verbose ident =
     (case js_prop_strict ident ''username'' of
        Inl e \<Rightarrow> Inl e
      | Inr username \<Rightarrow>
          if verbose
          then Inr (js_string username @ ''  '' @ js_string (js_prop ident ''status'') @ ''  ''
                    @ formatExpiry fmt (js_prop ident ''expiry''))
          else Inr (if username = JUndef \<or> username = JNull then [] else js_string username))"

fun collect :: "('x \<Rightarrow> err + 'y) \<Rightarrow> 'x list \<Rightarrow> err + 'y list" where
  "collect f [] = Inr []"
| "collect f (x # xs) =
     (case f x of Inl e \<Rightarrow> Inl e | Inr y \<Rightarrow> (case collect f xs of Inl e \<Rightarrow> Inl e | Inr ys \<Rightarrow> Inr (y # ys)))"

definition whoami_invoke :: "(jsv \<Rightarrow> string) \<Rightarrow> 's vapi \<Rightarrow> gval \<Rightarrow> gval list \<Rightarrow> ('s, gval) aprog" where
  "whoami_invoke fmt va prev args =
     (let opts = nth_arg args 0 in
      if prev \<noteq> V_client then athrow (err ''whoami: must be called on gimbal'')
      else if bad_options opts then athrow (err ''whoami: options must be a plain object'')
      else abind (va_whoami va) (\<lambda>identities.
        if \<not> truthy identities \<or> identities = JArr [] then aret (V_js JNull)
        else case identities of
          JArr ids \<Rightarrow>
            abind (alift (collect (identity_line fmt (opt_set (or_no_opts opts) ''v'')) ids)) (\<lambda>ls.
              aret (V_js (JStr (js_join [CHR 0x0A] ls))))
        | _ \<Rightarrow> athrow (Err_Type ''identities.map is not a function'')))"

text \<open>\<open>identities?.[0]?.username\<close>\<close>

definition first_username :: "jsv \<Rightarrow> jsv" where
  "first_username identities = (case identities of JArr (i # _) \<Rightarrow> js_prop i ''username'' | _ \<Rightarrow> JUndef)"

definition home_invoke :: "'s vapi \<Rightarrow> gval \<Rightarrow> ('s, gval) aprog" where
  "home_invoke va prev =
     (if prev \<noteq> V_client then athrow (err ''home: must be called on gimbal'')
      else abind (va_whoami va) (\<lambda>identities.
        let username = first_username identities in
        if \<not> truthy username then athrow (err ''home: not logged in'')
        else aret (V_path (volume_path (''/home/'' @ js_string username)))))"

section \<open>mail\<close>

text \<open>
  mail sends directly when the recipient and the body are strings, otherwise it opens the compose
  widget with what it has (the argument \<open>compose\<close>).
\<close>

definition mail_invoke :: "(jsv \<Rightarrow> jsv \<Rightarrow> ('s, unit) aprog) \<Rightarrow> 's vapi \<Rightarrow> gval \<Rightarrow> gval list \<Rightarrow> ('s, gval) aprog" where
  "mail_invoke compose va prev args =
     (if prev \<noteq> V_client then athrow (err ''mail: must be called on gimbal'')
      else
        (let (positional, opts) = pop_opts args;
             mailOpts = filter (\<lambda>(k, v). k \<noteq> ''icon'' \<and> k \<noteq> ''iconColor'') (entries (gval_json opts));
             recipient = nth_arg positional 0;
             body = (if length positional \<ge> 2 then last positional else V_js JUndef);
             or_empty = (\<lambda>v. if gval_truthy v then gval_json v else JStr [])
         in if \<not> is_str recipient \<or> \<not> is_str body
            then done_with (compose (or_empty recipient) (or_empty (nth_arg positional 1)))
            else
              abind (va_whoami va) (\<lambda>identities.
              abind (va_volume va ''primary'') (\<lambda>key.
                let name = first_username identities;
                    sender = (if truthy name then name else JStr ''(anonymous)'');
                    subject = (if length positional > 2 then or_empty (positional ! 1) else JStr [])
                in done_with (sendMessage va key (gval_string recipient) sender subject (gval_string body) mailOpts)))))"

section \<open>help, echo, js, json\<close>

definition welcome_text :: string where
  "welcome_text =
     js_join [CHR 0x0A]
       [''Welcome to Gimbal shell!'', [],
        ''You can use gimbal.p('' @ quoted ''/path'' @ '') to create path references, then chain methods:'',
        ''  gimbal.p('' @ quoted ''/home'' @ '').ls()                        list directory'',
        ''  gimbal.p('' @ quoted ''/file.txt'' @ '').read()                  read a file'',
        ''  gimbal.p('' @ quoted ''/file.txt'' @ '').w('' @ quoted ''hello'' @ '')              write to a file'', [],
        ''Use gimbal.help('' @ quoted ''command'' @ '') for help on a specific command.'']"

definition help_invoke :: "(string \<Rightarrow> err + 's tool) \<Rightarrow> gval \<Rightarrow> gval list \<Rightarrow> ('s shell, gval) aprog" where
  "help_invoke imp prev args =
     (let cmdName = nth_arg args 0 in
      if prev \<noteq> V_client then athrow (err ''help: must be called on gimbal'')
      else if cmdName = V_js JUndef then aret (V_js (JStr welcome_text))
      else if \<not> is_str cmdName then athrow (err ''help: expected a command name'')
      else (\<lambda>(cache, s).
        case importTool imp (gval_string cmdName) cache of
          (Inl e, cache') \<Rightarrow> Some (Inl e, (cache', s))
        | (Inr t, cache') \<Rightarrow>
            Some (Inr (case tl_help t of
                Some h \<Rightarrow> h
              | None \<Rightarrow> V_js (JStr (gval_string cmdName @ '': no help text available''))), (cache', s))))"

definition echo_invoke :: "gval \<Rightarrow> gval list \<Rightarrow> ('s, gval) aprog" where
  "echo_invoke prev args =
     (if prev \<noteq> V_client then athrow (err ''echo: must be called on gimbal'') else aret (nth_arg args 0))"

definition js_invoke :: "gval \<Rightarrow> ('s, gval) aprog" where
  "js_invoke prev =
     (case prev of
        V_js (JStr s) \<Rightarrow>
          (case json_parse s of
             None \<Rightarrow> athrow (Err_Syntax ''Unexpected token in JSON'')
           | Some v \<Rightarrow> aret (V_js v))
      | _ \<Rightarrow> athrow (err (''js: expected a JSON string, got '' @ type_name prev)))"

text \<open>\<open>JSON.stringify\<close> of undefined is undefined.\<close>

definition json_invoke :: "gval \<Rightarrow> ('s, gval) aprog" where
  "json_invoke prev =
     (let v = gval_json prev in
      aret (V_js (if v = JUndef then JUndef else JStr (json_stringify v))))"

section \<open>download and upload\<close>

definition download_invoke :: "(string \<Rightarrow> gval \<Rightarrow> ('s, response) aprog) \<Rightarrow> gval \<Rightarrow> gval list \<Rightarrow> ('s, gval) aprog" where
  "download_invoke fetch_url prev args =
     (let url = nth_arg args 0 in
      if prev \<noteq> V_client then athrow (err ''download: must be called on gimbal'')
      else if \<not> is_str url \<or> \<not> gval_truthy url then athrow (err ''download: URL string required'')
      else abind (acatch (fetch_url (gval_string url) (nth_arg args 1))
          (\<lambda>e. athrow (err (''download: network error fetching '' @ gval_string url @ '': '' @ err_message e))))
        (\<lambda>r. aret (V_response r)))"

text \<open>The file that the page's picker gives, by its media type and its bytes; None when none is chosen.\<close>

definition upload_invoke :: "(gval \<Rightarrow> (string \<times> u8 list) option) \<Rightarrow> gval \<Rightarrow> gval list \<Rightarrow> ('s, gval) aprog" where
  "upload_invoke pick prev args =
     (let opts = nth_arg args 0 in
      if prev \<noteq> V_client then athrow (err ''upload: must be called on gimbal'')
      else if bad_options opts then athrow (err ''upload: options must be a plain object'')
      else case pick (or_no_opts opts) of
        None \<Rightarrow> athrow (err ''upload: no file selected'')
      | Some (type, bytes) \<Rightarrow>
          aret (V_response \<lparr>rs_status = 200,
            rs_headers = [(''Content-Type'', if type = [] then ''application/octet-stream'' else type)],
            rs_body = Inr bytes\<rparr>))"

section \<open>click and launch\<close>

text \<open>The argument loop of click: a string first, then options that are not used.\<close>

definition click_invoke :: "(string \<Rightarrow> string \<Rightarrow> ('s, gval) aprog) \<Rightarrow> gval \<Rightarrow> gval list \<Rightarrow> ('s, gval) aprog" where
  "click_invoke launch prev args =
     (case prev of
        V_path p \<Rightarrow>
          abind (alift (arg_loop ''click: unexpected argument'' (relative_to id) is_opts 0 args (None, no_opts)))
            (\<lambda>(relPath, opts).
              case relPath of
                None \<Rightarrow> athrow (err ''click: a relative path argument is required'')
              | Some rel \<Rightarrow>
                  if rel = [] then athrow (err ''click: a relative path argument is required'')
                  else abind (launch (gp_path p rel) (if ends_with ''.md'' rel then ''markdown'' else ''edit''))
                         (\<lambda>_. aret (V_js JNull)))
      | _ \<Rightarrow> athrow (err ''click: must be called on a path''))"

text \<open>
  What launch asks for: the module to import, and the name and path for the widget. A widget given as a
  path is imported from the server's content URL, any other value by its string form, unchecked.
\<close>

record launch_plan =
  lp_url :: string
  lp_name :: string
  lp_path :: "string option"
  lp_iconColor :: jsv

definition plan_launch :: "string \<Rightarrow> gval \<Rightarrow> gval \<Rightarrow> gval list \<Rightarrow> err + launch_plan" where
  "plan_launch serverUrl prev widgetName args =
     (let (args', opts) = pop_opts args;
          raw = entries (gval_json opts);
          rest = filter (\<lambda>(k, v). k \<noteq> ''iconColor'') raw;
          path = (case prev of V_path p \<Rightarrow> Some p | _ \<Rightarrow> None);
          first = nth_arg args' 0;
          color = js_prop (JObj raw) ''iconColor''
      in if rest \<noteq> [] then
           Inl (err (''launch: unknown option '' @ [CHR 0x22] @ fst (hd rest) @ [CHR 0x22]))
         else case widgetName of
           V_path w \<Rightarrow>
             (let (vol, p) = resolvePath w in
              Inr \<lparr>lp_url = serverUrl @ ''/grits/v1/content/'' @ vol @ ''/'' @ p, lp_name = gp_toString w,
                   lp_path = (case (path, first) of (None, V_path q) \<Rightarrow> Some q | _ \<Rightarrow> path),
                   lp_iconColor = color\<rparr>)
         | _ \<Rightarrow>
             Inr \<lparr>lp_url = ''../'' @ gval_string widgetName @ ''/gwm-widget.js'',
                  lp_name = gval_string widgetName,
                  lp_path = (case (path, first) of
                      (None, V_js (JStr q)) \<Rightarrow> if starts_with ''/'' q then Some (volume_path q) else None
                    | _ \<Rightarrow> path),
                  lp_iconColor = color\<rparr>)"

definition launch_invoke :: "(launch_plan \<Rightarrow> gval \<Rightarrow> ('s, unit) aprog) \<Rightarrow> string \<Rightarrow> gval \<Rightarrow> gval list
    \<Rightarrow> ('s, gval) aprog" where
  "launch_invoke open_widget serverUrl prev args =
     abind (alift (plan_launch serverUrl prev (nth_arg args 0) (drop 1 args))) (\<lambda>plan.
       done_with (open_widget plan prev))"

end
