(* ===== verification/Tools_Unzip.thy ===== *)
theory Tools_Unzip
  imports Tools_Files
begin

text \<open>
  The command unzip (unzip/main.js). The archive library (fflate) is an argument: it turns the bytes of an archive
  into its entries in order, each with its name and what decompressing it gives, and tells if reading
  the archive failed after those. The entries are written one after the other; a failed reading is reported
  whatever happened to the entries before it.
\<close>

record zip_result =
  zr_entries :: "(string \<times> (err + u8 list)) list"
  zr_failed :: "err option"

text \<open>\<open>curPath.replace(/\/?$/, '/') + part\<close>\<close>

definition zip_path :: "string \<Rightarrow> string \<Rightarrow> string" where
  "zip_path cur part = (if cur \<noteq> [] \<and> last cur = slash then cur @ part else cur @ ''/'' @ part)"

definition not_a_dir :: "string \<Rightarrow> string" where
  "not_a_dir path = ''unzip: not a dir '' @ quoted path"

text \<open>The loop over the directories of an entry; \<open>force\<close> is read when it is needed, and reading it from null throws.\<close>

fun make_dirs :: "'s vapi \<Rightarrow> string \<Rightarrow> err + bool \<Rightarrow> string \<Rightarrow> string list \<Rightarrow> ('s, string) aprog" where
  "make_dirs va key force cur [] = aret cur"
| "make_dirs va key force cur (part # parts) =
     (let path = zip_path cur part;
          check = abind (acatch (abind (va_lookup va key path) (\<lambda>f. aret (Some f))) (\<lambda>_. aret None))
                    (\<lambda>existing. case existing of
                       None \<Rightarrow> aret ()
                     | Some f \<Rightarrow> if isDir f then aret () else athrow (err (not_a_dir path)))
      in abind (va_mkdir va key []) (\<lambda>m.
         abind (on_assertion (abind (va_multiLink va key [lreq path m (Some []) ASSERT_PREV_MATCHES]) (\<lambda>_. aret ()))
           (abind (alift force) (\<lambda>f.
             if f
             then on_assertion (abind (va_multiLink va key [lreq path m None ASSERT_IS_BLOB]) (\<lambda>_. aret ())) check
             else check))) (\<lambda>_. make_dirs va key force path parts)))"

definition em_dash :: string where
  "em_dash = [CHR 0xE2, CHR 0x80, CHR 0x94]"

definition exists_already :: "string \<Rightarrow> string" where
  "exists_already fp = ''unzip: exists '' @ quoted fp @ '' '' @ em_dash @ '' use {f:1}''"

definition write_entry :: "'s vapi \<Rightarrow> string \<Rightarrow> err + bool \<Rightarrow> string \<Rightarrow> u8 list \<Rightarrow> ('s, unit) aprog" where
  "write_entry va key force fp buf =
     abind (store_file va key buf) (\<lambda>mc.
     abind (alift force) (\<lambda>f.
     abind (if f then va_multiLink va key [lreq fp mc None 0]
            else on_assertion (va_multiLink va key [lreq fp mc (Some []) ASSERT_PREV_MATCHES])
                   (athrow (err (exists_already fp)))) (\<lambda>_. aret ())))"

text \<open>An entry: its directories, then, unless its name ends with a slash, the file.\<close>

definition entry_parts :: "string \<Rightarrow> string list" where
  "entry_parts name = filter (\<lambda>w. w \<noteq> []) (js_split slash (strip_lead name))"

definition entry_isDir :: "string \<Rightarrow> bool" where
  "entry_isDir name \<longleftrightarrow> name \<noteq> [] \<and> last name = slash"

definition extract_entry :: "'s vapi \<Rightarrow> string \<Rightarrow> err + bool \<Rightarrow> string \<Rightarrow> string \<times> (err + u8 list) \<Rightarrow> ('s, unit) aprog" where
  "extract_entry va key force cwdPath = (\<lambda>(name, content).
     let parts = entry_parts name in
     if parts = [] then aret ()
     else
       abind (make_dirs va key force cwdPath (if entry_isDir name then parts else butlast parts)) (\<lambda>curPath.
         if entry_isDir name then aret ()
         else abind (alift content) (write_entry va key force (zip_path curPath (last parts)))))"

primrec extract_all :: "'s vapi \<Rightarrow> string \<Rightarrow> err + bool \<Rightarrow> string \<Rightarrow> (string \<times> (err + u8 list)) list \<Rightarrow> ('s, unit) aprog" where
  "extract_all va key force cwdPath [] = aret ()"
| "extract_all va key force cwdPath (e # es) =
     abind (extract_entry va key force cwdPath e) (\<lambda>_. extract_all va key force cwdPath es)"

text \<open>Where everything goes: the path of \<open>gimbal.resolvePath('.')\<close>.\<close>

definition cwdPath :: string where
  "cwdPath = snd (resolvePath ''.'')"

definition unzip_run :: "(u8 list \<Rightarrow> zip_result) \<Rightarrow> 's vapi \<Rightarrow> string \<Rightarrow> gval \<Rightarrow> ('s, unit) aprog" where
  "unzip_run unz va target opts = on_path va target (\<lambda>key path.
     abind (va_lookup va key path) (\<lambda>f.
     if \<not> isFile f then athrow (err ''unzip: not a file'')
     else
       abind (va_bytes va key f) (\<lambda>bytes.
       let z = unz bytes in
       abind (atry (extract_all va key (opt_flag opts ''f'') cwdPath (zr_entries z))) (\<lambda>r.
         case zr_failed z of Some e \<Rightarrow> athrow e | None \<Rightarrow> alift r))))"

definition unzip_invoke :: "(u8 list \<Rightarrow> zip_result) \<Rightarrow> 's vapi \<Rightarrow> gval \<Rightarrow> gval list \<Rightarrow> ('s, gval) aprog" where
  "unzip_invoke unz va prev args =
     (case prev of
        V_path p \<Rightarrow>
          abind (alift (target_args ''unzip'' p args)) (\<lambda>(target, opts). done_with (unzip_run unz va target opts))
      | _ \<Rightarrow> athrow (err ''unzip: need a file path''))"

section \<open>Where the entries go\<close>

text \<open>With options that can be read, the directories are made the way \<open>mkdir\<close> makes them.\<close>

theorem make_dirs_as_mkdir:
  "make_dirs va key (Inr force) cur parts = mkdir_parents va key zip_path force not_a_dir cur parts"
proof (induction parts arbitrary: cur)
  case (Cons part parts)
  have "abind (alift (Inr force)) k = k force" for k :: "bool \<Rightarrow> ('a, 'b) aprog"
    by (rule ext) (simp add: abind_def alift_def aret_def)
  then show ?case unfolding make_dirs.simps mkdir_parents.simps Let_def Cons.IH by simp
qed simp

text \<open>The path of an entry below a directory.\<close>

lemma deeper_parts:
  assumes "cur \<noteq> []" "last cur \<noteq> slash" "\<And>w. w \<in> set parts \<Longrightarrow> w \<noteq> [] \<and> slash \<notin> set w"
  shows "foldl zip_path cur parts = cur @ concat (map (\<lambda>w. slash # w) parts)"
  using assms
proof (induction parts arbitrary: cur)
  case (Cons w parts)
  have "w \<noteq> []" "last w \<noteq> slash" using Cons.prems(3) [of w] last_in_set [of w] by force+
  then have "foldl zip_path (cur @ slash # w) parts = (cur @ slash # w) @ concat (map (\<lambda>w. slash # w) parts)"
    using Cons.prems(3) by (intro Cons.IH) auto
  moreover have "zip_path cur w = cur @ slash # w" using Cons.prems(1,2) by (simp add: zip_path_def)
  ultimately show ?case by simp
qed simp

text \<open>
  An archive is extracted below the path \<open>/.\<close>, and an entry's name is taken as it is: a part that goes up is
  not taken out.
\<close>

definition entry_path :: "string \<Rightarrow> string" where
  "entry_path name = foldl zip_path cwdPath (entry_parts name)"

lemma parts_clean:
  assumes "w \<in> set (entry_parts name)"
  shows "w \<noteq> [] \<and> slash \<notin> set w"
proof -
  have "w \<in> set (js_split slash s) \<Longrightarrow> slash \<notin> set w" for s
    by (induction s arbitrary: w) (auto split: if_splits list.splits)
  then show ?thesis using assms by (auto simp: entry_parts_def)
qed

theorem entry_path_below_dot:
  "entry_path name = ''/.'' @ concat (map (\<lambda>w. slash # w) (entry_parts name))"
  unfolding entry_path_def
proof (subst deeper_parts)
  show "cwdPath \<noteq> []" "last cwdPath \<noteq> slash" by code_simp+
  show "w \<in> set (entry_parts name) \<Longrightarrow> w \<noteq> [] \<and> slash \<notin> set w" for w by (rule parts_clean)
  have "cwdPath = ''/.''" by code_simp
  then show "cwdPath @ concat (map (\<lambda>w. slash # w) (entry_parts name)) = ''/.'' @ concat (map (\<lambda>w. slash # w) (entry_parts name))"
    by simp
qed

lemma entry_climbs: "entry_path ''../../sites/x'' = ''/./../../sites/x''"
  by code_simp

text \<open>The path at which the directories of an entry end, when they could be made.\<close>

lemma make_dirs_path:
  "make_dirs va key force cur parts s = Some (Inr p, t) \<Longrightarrow> p = foldl zip_path cur parts"
proof (induction parts arbitrary: cur s)
  case Nil
  then show ?case by (simp add: aret_def)
next
  case (Cons part parts)
  then show ?case
    by (auto simp: Let_def abind_def split: option.splits sum.splits prod.splits)
qed

end
