(* ===== verification/Tools_Volume.thy ===== *)
theory Tools_Volume
  imports Tools_Access Tools_Session Tools_Unzip Volume_Lookup
begin

text \<open>
  The commands on the volumes of GritsClient.js. The locale \<open>content_api\<close> is the contract that the commands
  rely on: an invariant that every volume operation keeps, and what the identifiers that go in and
  come out name. Every command then keeps the invariant, and what it stores, links and
  returns is the content it says. The contract is discharged for the volumes of the model, with
  the soundness of the caches as the invariant.
\<close>

lemma keeps_if: "keeps I m Q \<Longrightarrow> keeps I n Q \<Longrightarrow> keeps I (if c then m else n) Q"
  by simp

section \<open>The contract\<close>

locale content_api =
  fixes va :: "'s vapi" and I :: "'s \<Rightarrow> bool" and cid_of :: "u8 list \<Rightarrow> string"
    and named :: "string \<Rightarrow> jsv \<Rightarrow> bool"
  assumes volume_keeps: "keeps I (va_volume va name) any"
    and lookup_keeps: "keeps I (va_lookup va key path) (\<lambda>f. named (gf_cid f) (gf_meta f))"
    and file_keeps: "keeps I (va_fileForCID va key c) (\<lambda>f. gf_cid f = c \<and> named c (gf_meta f))"
    and get_keeps: "keeps I (va_get va key c) (\<lambda>r. \<exists>b. resp_bytes r = Inr b \<and> cid_of b = c)"
    and json_keeps: "keeps I (va_json va key c) (named c)"
    and children_keeps: "keeps I (va_children va key f) (list_all (\<lambda>(n, g). named (gf_cid g) (gf_meta g)))"
    and put_keeps: "keeps I (va_put va key bytes) (\<lambda>c. c = cid_of bytes)"
    and mkfile_keeps: "keeps I (va_mkfile va key c n) (\<lambda>m. \<exists>ts. named m (meta_json ''blob'' n c 420 ts))"
    and mkdir_keeps: "keeps I (va_mkdir va key es) any"
    and multiLink_keeps: "keeps I (va_multiLink va key rs) any"
    and session_keeps: "keeps I (va_whoami va) any" "keeps I (va_login va u p g q) any"
      "keeps I (va_logout va u) any" "keeps I (va_now va) any" "keeps I (va_random va) any"
begin

lemmas op_keeps = volume_keeps lookup_keeps [THEN keeps_any] file_keeps [THEN keeps_any]
  get_keeps [THEN keeps_any] json_keeps [THEN keeps_any] children_keeps [THEN keeps_any]
  put_keeps [THEN keeps_any] mkfile_keeps [THEN keeps_any] mkdir_keeps multiLink_keeps session_keeps

lemma on_path_keeps: "(\<And>key path. keeps I (body key path) Q) \<Longrightarrow> keeps I (on_path va p body) Q"
  unfolding on_path_def Let_def by (rule keeps_bind_any) (auto intro: op_keeps)

lemma on_assertion_keeps: "keeps I m Q \<Longrightarrow> keeps I h Q \<Longrightarrow> keeps I (on_assertion m h) Q"
  unfolding on_assertion_def by (auto intro!: keeps_catch keeps_athrow)

lemma done_keeps: "keeps I m any \<Longrightarrow> keeps I (done_with m) any"
  unfolding done_with_def by (auto intro!: keeps_bind_any keeps_aret)

lemma with_flags_keeps: "(\<And>a b. keeps I (body a b) Q) \<Longrightarrow> keeps I (with_flags opts k l body) Q"
  unfolding with_flags_def by (auto intro!: keeps_bind_any keeps_alift)

lemma link_keeps: "keeps I (va_link va key c path) any"
  unfolding va_link_def by (rule multiLink_keeps)

text \<open>The bytes and the text of a file are the content that its metadata names.\<close>

lemma bytes_keeps: "keeps I (va_bytes va key f) (\<lambda>b. cid_of b = contentCID f)"
  unfolding va_bytes_def
proof (rule keeps_bind [OF get_keeps], rule keeps_alift)
  fix r b
  assume "\<exists>b. resp_bytes r = Inr b \<and> cid_of b = contentCID f" and "resp_bytes r = Inr b"
  then show "cid_of b = contentCID f" by auto
qed

lemma text_keeps: "keeps I (va_text va key f) (\<lambda>t. \<exists>b. t = text_decode b \<and> cid_of b = contentCID f)"
  unfolding va_text_def
proof (rule keeps_bind [OF get_keeps], rule keeps_alift)
  fix r t
  assume "\<exists>b. resp_bytes r = Inr b \<and> cid_of b = contentCID f" and "resp_text r = Inr t"
  then show "\<exists>b. t = text_decode b \<and> cid_of b = contentCID f"
    by (auto simp: resp_text_def resp_bytes_def)
qed

lemma read_keeps: "keeps I (read_run va target)
    (\<lambda>t. \<exists>m d b. named m d \<and> t = text_decode b \<and> cid_of b = js_string (js_prop d ''contentHash''))"
  unfolding read_run_def
proof (rule on_path_keeps, rule keeps_bind [OF lookup_keeps])
  fix key path and f :: gfile
  assume f: "named (gf_cid f) (gf_meta f)"
  show "keeps I (va_text va key f)
      (\<lambda>t. \<exists>m d b. named m d \<and> t = text_decode b \<and> cid_of b = js_string (js_prop d ''contentHash''))"
    by (rule keeps_weaken [OF text_keeps]) (use f in \<open>auto simp: contentCID_def\<close>)
qed

text \<open>The identifier that write, to, append, mv and mail link names metadata of exactly those bytes.\<close>

lemma store_keeps: "keeps I (store_file va key bytes)
    (\<lambda>m. \<exists>ts. named m (meta_json ''blob'' (int (length bytes)) (cid_of bytes) 420 ts))"
  unfolding store_file_def by (rule keeps_bind [OF put_keeps]) (simp add: mkfile_keeps)

lemma store_keeps_any: "keeps I (store_file va key bytes) any"
  by (rule keeps_any [OF store_keeps])

lemmas run_keeps = op_keeps link_keeps store_keeps_any on_path_keeps on_assertion_keeps done_keeps
  with_flags_keeps keeps_any [OF bytes_keeps] keeps_any [OF text_keeps]
  keeps_bind_any keeps_catch keeps_athrow keeps_atry_any keeps_for

end

section \<open>Every command keeps the invariant\<close>

context content_api
begin

lemma unlink_keeps: "keeps I (unlink va key p prev a) any"
  unfolding unlink_def by (rule multiLink_keeps)

lemma rm_keeps: "keeps I (rm_at va key p r f) any"
  unfolding rm_at_def rm_file_def by (auto intro!: run_keeps unlink_keeps keeps_aret)

lemma mkdir_parents_keeps: "keeps I (mkdir_parents va key deeper force complain cur parts) any"
proof (induction parts arbitrary: cur)
  case (Cons part parts)
  show ?case unfolding mkdir_parents.simps Let_def
    by (auto intro!: run_keeps keeps_aret Cons.IH split: option.split)
qed (simp add: keeps_aret)

lemma mkdir_at_keeps: "keeps I (mkdir_at va key path p f) any"
  unfolding mkdir_at_def mkdir_all_def by (auto intro!: run_keeps keeps_aret mkdir_parents_keeps)

lemma replace_keeps: "keeps I (replace_or_create va key path m c) any"
  unfolding replace_or_create_def by (auto intro!: run_keeps)

lemma write_keeps: "keeps I (write_run va cmd target content) any"
  unfolding write_run_def by (auto intro!: run_keeps keeps_alift replace_keeps)

lemma append_keeps: "keeps I (append_run va target bytes) any"
  unfolding append_run_def existing_bytes_def by (auto intro!: run_keeps keeps_aret)

lemma cp_loop_keeps: "keeps I (cp_loop va key addr i paths) any"
  by (induction paths) (auto intro!: run_keeps keeps_aret simp: cp_absent_def split: sum.split)

lemma cp_keeps: "keeps I (cp_run va src dest opts) any"
  unfolding cp_run_def by (intro run_keeps cp_loop_keeps)

lemma mv_cross_keeps: "keeps I (mv_cross va sk sp dk m i paths) any"
  by (induction paths) (auto intro!: run_keeps keeps_aret split: sum.split)

lemma mv_loop_keeps: "keeps I (mv_loop va key sp a i f paths) any"
  by (induction paths) (auto intro!: run_keeps keeps_aret split: sum.split)

lemma mv_keeps: "keeps I (mv_run va src dest i f ff) any"
  unfolding mv_run_def by (auto intro!: run_keeps mv_cross_keeps mv_loop_keeps)

lemma ls_keeps: "keeps I (ls_run va target) any"
  unfolding ls_run_def by (auto intro!: run_keeps keeps_aret)

lemma diff_miss_keeps: "keeps I (diff_miss n va key f p out) any"
proof (induction n arbitrary: f p out)
  case (Suc n)
  show ?case unfolding diff_miss.simps
    by (rule run_keeps, rule run_keeps, rule keeps_loop) (auto intro!: keeps_aret Suc.IH simp: Let_def)
qed (simp add: keeps_def)

lemma diff_files_keeps: "keeps I (diff_files n va ka kb r a b p out) any"
proof (induction n arbitrary: a b p out)
  case (Suc n)
  have child: "keeps I (diff_child n va ka kb (diff_files n va ka kb r) x y q out) any" for x y q out
    unfolding diff_child_def Let_def
    by (auto intro!: keeps_aret diff_miss_keeps Suc.IH split: option.split)
  have names: "keeps I (aloop ns (\<lambda>name. diff_child n va ka kb (diff_files n va ka kb r)
      (map_get ca name) (map_get cb name) (below p name)) out) any" for ns ca cb
    by (rule keeps_loop) (simp_all add: child)
  show ?case unfolding diff_files.simps
    by (intro keeps_if keeps_bind_any op_keeps names keeps_aret) simp_all
qed (simp add: keeps_def)

lemma diff_keeps: "keeps I (diff_run n va a b opts) any"
  unfolding diff_run_def by (auto intro!: run_keeps keeps_aret keeps_alift diff_files_keeps)

lemma send_attempts_keeps: "keeps I (send_attempts n va key d m) any"
  by (induction n) (auto intro!: run_keeps keeps_aret)

lemma send_keeps: "keeps I (sendMessage va key a b c d e) any"
  unfolding sendMessage_def by (auto intro!: run_keeps send_attempts_keeps)

lemma change_grants_keeps: "keeps I (change_grants va cmd key path change) any"
  unfolding change_grants_def read_config_def store_config_def
  by (auto intro!: run_keeps keeps_aret keeps_alift)

lemma expand_keeps: "keeps I (expand va key parts f part results) any"
proof (induction parts arbitrary: f part results)
  case (Cons pattern rest)
  show ?case unfolding expand.simps expand_child_def
    by (auto intro!: run_keeps keeps_aret keeps_loop Cons.IH split: sum.split)
qed (simp add: keeps_aret)

lemma glob_keeps: "keeps I (glob va pattern) any"
  unfolding glob_def Let_def case_prod_beta
  by (auto intro!: run_keeps keeps_aret expand_keeps split: sum.split)

lemma read_keeps_any: "keeps I (read_run va target) any"
  by (rule keeps_any [OF read_keeps])

end

section \<open>The commands of the repository\<close>

text \<open>What the commands take from the page.\<close>

record 's page =
  pg_prompts :: prompts
  pg_locale_date :: "jsv \<Rightarrow> string"
  pg_fetch :: "string \<Rightarrow> gval \<Rightarrow> ('s, response) aprog"
  pg_pick :: "gval \<Rightarrow> (string \<times> u8 list) option"
  pg_compose :: "jsv \<Rightarrow> jsv \<Rightarrow> ('s, unit) aprog"
  pg_open_widget :: "launch_plan \<Rightarrow> gval \<Rightarrow> ('s, unit) aprog"
  pg_unzip :: "u8 list \<Rightarrow> zip_result"

text \<open>Each module directory with its \<open>invoke\<close>; \<open>help\<close>, which imports modules itself, is apart.\<close>

definition commands :: "nat \<Rightarrow> 's page \<Rightarrow> string \<Rightarrow> 's vapi \<Rightarrow> (string \<times> (gval \<Rightarrow> gval list \<Rightarrow> ('s, gval) aprog)) list" where
  "commands depth pg url va =
     [(''access'', access_invoke va), (''allow'', allow_invoke va), (''append'', append_invoke va),
      (''click'', click_invoke (\<lambda>p w. launch_invoke (pg_open_widget pg) url (V_path p) [V_js (JStr w)])),
      (''cp'', cp_invoke va), (''deny'', deny_invoke va), (''diff'', diff_invoke depth va),
      (''download'', download_invoke (pg_fetch pg)), (''echo'', echo_invoke),
      (''home'', \<lambda>prev _. home_invoke va prev), (''js'', \<lambda>prev _. js_invoke prev),
      (''json'', \<lambda>prev _. json_invoke prev), (''launch'', launch_invoke (pg_open_widget pg) url),
      (''login'', login_invoke (pg_prompts pg) url va), (''logout'', logout_invoke va), (''ls'', ls_invoke va),
      (''mail'', mail_invoke (pg_compose pg) va), (''mkdir'', mkdir_invoke va), (''mv'', mv_invoke va),
      (''read'', read_invoke va), (''rm'', rm_invoke va), (''rmdir'', rmdir_invoke va), (''to'', to_invoke va),
      (''unzip'', unzip_invoke (pg_unzip pg) va), (''upload'', upload_invoke (pg_pick pg)), (''whoami'', whoami_invoke (pg_locale_date pg) va),
      (''write'', write_invoke va)]"

text \<open>The dynamic import of a URL of the repository.\<close>

definition repo_import :: "(string \<times> (gval \<Rightarrow> gval list \<Rightarrow> ('s, gval) aprog)) list \<Rightarrow> string \<Rightarrow> err + 's tool" where
  "repo_import cmds url =
     (case find (\<lambda>(n, _). tool_url n = url) cmds of
        None \<Rightarrow> Inl (Err_Type ''Failed to fetch dynamically imported module'')
      | Some (n, call) \<Rightarrow> Inr \<lparr>tl_invoke = Some call, tl_help = None\<rparr>)"

definition page_keeps :: "('s \<Rightarrow> bool) \<Rightarrow> 's page \<Rightarrow> bool" where
  "page_keeps I pg \<longleftrightarrow> (\<forall>u i. keeps I (pg_fetch pg u i) any) \<and> (\<forall>t b. keeps I (pg_compose pg t b) any)
     \<and> (\<forall>l v. keeps I (pg_open_widget pg l v) any)"

context content_api
begin

lemma done_any: "keeps I m any \<Longrightarrow> keeps I (done_with m) any"
  by (rule done_keeps)

lemmas invoke_keeps = keeps_if keeps_bind_any keeps_catch keeps_athrow keeps_aret keeps_alift done_any
  on_path_keeps with_flags_keeps op_keeps rm_keeps mkdir_at_keeps write_keeps append_keeps cp_keeps mv_keeps
  ls_keeps diff_keeps send_keeps change_grants_keeps read_keeps_any on_assertion_keeps unlink_keeps

lemma file_commands_keep:
  "keeps I (rm_invoke va prev args) any" "keeps I (mkdir_invoke va prev args) any"
  "keeps I (read_invoke va prev args) any" "keeps I (ls_invoke va prev args) any"
  "keeps I (write_invoke va prev args) any" "keeps I (to_invoke va prev args) any"
  "keeps I (append_invoke va prev args) any" "keeps I (cp_invoke va prev args) any"
  "keeps I (mv_invoke va prev args) any" "keeps I (diff_invoke depth va prev args) any"
  unfolding rm_invoke_def mkdir_invoke_def read_invoke_def ls_invoke_def write_invoke_def to_invoke_def
    append_invoke_def cp_invoke_def mv_invoke_def diff_invoke_def Let_def
  by (auto intro!: invoke_keeps split: gval.split option.split list.split)

lemma rmdir_invoke_keeps: "keeps I (rmdir_invoke va prev args) any"
  unfolding rmdir_invoke_def rmdir_run_def by (auto intro!: invoke_keeps split: gval.split)

lemma make_dirs_keeps: "keeps I (make_dirs va key force cur parts) any"
proof (induction parts arbitrary: cur)
  case (Cons part parts)
  show ?case unfolding make_dirs.simps Let_def
    by (auto intro!: invoke_keeps Cons.IH split: option.split)
qed (simp add: keeps_aret)

lemma extract_entry_keeps: "keeps I (extract_entry va key force cwd e) any"
  unfolding extract_entry_def write_entry_def Let_def
  by (cases e) (auto intro!: invoke_keeps make_dirs_keeps store_keeps_any)

lemma extract_all_keeps: "keeps I (extract_all va key force cwd es) any"
  by (induction es) (auto intro!: invoke_keeps extract_entry_keeps)

lemma unzip_invoke_keeps: "keeps I (unzip_invoke unz va prev args) any"
  unfolding unzip_invoke_def unzip_run_def Let_def
  by (auto intro!: invoke_keeps keeps_atry_any keeps_any [OF bytes_keeps] extract_all_keeps split: gval.split option.split)

lemma access_commands_keep:
  "keeps I (access_invoke va prev args) any" "keeps I (allow_invoke va prev args) any"
  "keeps I (deny_invoke va prev args) any"
  unfolding access_invoke_def allow_invoke_def deny_invoke_def
  by (auto intro!: invoke_keeps split: gval.split list.split jsv.split)

lemma session_commands_keep:
  "keeps I (login_invoke pr url va prev args) any" "keeps I (logout_invoke va prev args) any"
  "keeps I (whoami_invoke fmt va prev args) any" "keeps I (home_invoke va prev) any"
  unfolding login_invoke_def logout_invoke_def whoami_invoke_def home_invoke_def Let_def case_prod_beta
  by (auto intro!: invoke_keeps split: option.split jsv.split)

lemma value_commands_keep:
  "keeps I (echo_invoke prev args) any" "keeps I (js_invoke prev) any" "keeps I (json_invoke prev) any"
  "keeps I (upload_invoke pick prev args) any"
  unfolding echo_invoke_def js_invoke_def json_invoke_def upload_invoke_def Let_def
  by (auto intro!: invoke_keeps split: gval.split jsv.split option.split)

lemma page_commands_keep:
  assumes "page_keeps I pg"
  shows "keeps I (download_invoke (pg_fetch pg) prev args) any"
    and "keeps I (launch_invoke (pg_open_widget pg) url prev args) any"
    and "keeps I (mail_invoke (pg_compose pg) va prev args) any"
    and "keeps I (click_invoke (\<lambda>p w. launch_invoke (pg_open_widget pg) url (V_path p) [V_js (JStr w)]) prev args) any"
  using assms
  unfolding page_keeps_def download_invoke_def launch_invoke_def mail_invoke_def click_invoke_def Let_def
    case_prod_beta
  by (auto intro!: invoke_keeps split: gval.split option.split)

lemma commands_keep:
  assumes "page_keeps I pg" and "(n, call) \<in> set (commands depth pg url va)"
  shows "keeps I (call prev args) any"
  using assms(2) page_commands_keep [OF assms(1)]
  by (auto simp: commands_def file_commands_keep rmdir_invoke_keeps access_commands_keep
      session_commands_keep value_commands_keep unzip_invoke_keeps)

end

section \<open>The volumes of GritsClient.js\<close>

text \<open>
  The operations on the model of the client: \<open>url\<close> is the server of the shell, \<open>rc\<close> decides the
  race of a lookup, \<open>rnd\<close> is \<open>Math.random\<close> in base 36. \<open>multiLink\<close> is the direct one, as
  \<open>DESYNC_MODE\<close> is off.
\<close>

definition volume_multiLink :: "'w platform \<Rightarrow> string \<Rightarrow> link_arg list \<Rightarrow> ('w cl, jsv) aprog" where
  "volume_multiLink P key rs = (\<lambda>c.
     case map_get (cl_volumes c) key of
       None \<Rightarrow> Some (Inl (Err_Type ''no such volume''), c)
     | Some v \<Rightarrow> map_option (\<lambda>(r, (c', v')). (r, c'\<lparr>cl_volumes := map_set key v' (cl_volumes c')\<rparr>))
                  (serverMultiLink P rs (c, v)))"

definition volume_api :: "'w platform \<Rightarrow> string \<Rightarrow> ('w cl \<Rightarrow> race) \<Rightarrow> ('w \<Rightarrow> string) \<Rightarrow> 'w cl vapi" where
  "volume_api P url rc rnd =
     \<lparr>va_volume = (\<lambda>name. arun (volume url name)),
      va_lookup = (\<lambda>key path c. arun (with_volume key (lookup P (rc c) path)) c),
      va_fileForCID = (\<lambda>key cid. arun (with_volume key (fileForCID P cid))),
      va_get = (\<lambda>key cid. arun (with_volume key (get P cid))),
      va_json = (\<lambda>key cid. arun (with_volume key (json P cid))),
      va_children = (\<lambda>key f. arun (with_volume key (children P f))),
      va_put = (\<lambda>key bytes. arun (with_volume key (put P bytes))),
      va_mkfile = (\<lambda>key c n. arun (mkfile P c n)),
      va_mkdir = (\<lambda>key es. arun (mkdir P es)),
      va_multiLink = volume_multiLink P,
      va_whoami = arun (whoami P url),
      va_login = (\<lambda>u p g q. arun (login P url u p g q)),
      va_logout = (\<lambda>u. arun (logout P url u)),
      va_now = arun (date_now P),
      va_random = arun (reads (\<lambda>c. rnd (cl_world c)))\<rparr>"

text \<open>The invariant: no server has a service worker, and the caches hold what their keys name.\<close>

definition sound :: "'w platform \<Rightarrow> 'w cl \<Rightarrow> bool" where
  "sound P c \<longleftrightarrow> no_sw_header P \<and> safe P c"

lemma sound_gives: "(no_sw_header P \<Longrightarrow> gives (safe P) m Q) \<Longrightarrow> gives (sound P) m Q"
  unfolding gives_def sound_def by blast

lemma with_volume_gives: "gives (safe_v P) m Q \<Longrightarrow> gives (safe P) (with_volume key m) Q"
  unfolding gives_def safe_v_def with_volume_def
  by (auto split: option.split prod.split) (metis fst_conv snd_conv)+

lemma with_volume_any: "preserved (safe_v P) m \<Longrightarrow> gives (safe P) (with_volume key m) any"
  by (rule with_volume_gives [OF gives_True])

lemma looked_up: "no_sw_header P \<Longrightarrow> gives (safe_v P) (lookup P race path) (\<lambda>f. names P (gf_cid f) (gf_meta f))"
  by (rule gives_weaken [OF give_lookup]) simp_all

lemma give_fileForCID: "gives (safe_v P) (fileForCID P c) (\<lambda>f. gf_cid f = c \<and> names P c (gf_meta f))"
  unfolding fileForCID_def by (auto intro!: gives_bind [OF give_fetchMeta] gives_ret)

lemma children_named: "gives (safe_v P) (children P f) (list_all (\<lambda>(n, g). names P (gf_cid g) (gf_meta g)))"
proof (rule gives_weaken [OF give_children])
  fix kids
  assume "isDir f \<and> (\<exists>listing. names P (contentCID f) listing \<and> list_all2 (child_ok P f) (entries listing) kids)"
  then obtain es where es: "list_all2 (child_ok P f) es kids" by blast
  show "list_all (\<lambda>(n, g). names P (gf_cid g) (gf_meta g)) kids"
    using es by (induction rule: list_all2_induct) (auto simp: child_ok_def)
qed

lemma give_put: "gives (safe_v P) (put P data) (\<lambda>c. c = computeCID P data)"
proof -
  have tail: "gives (safe_v P) (pbind (on_cl (blobCachePut (computeCID P data) data))
      (\<lambda>_. ret (computeCID P data))) (\<lambda>c. c = computeCID P data)"
    by (auto intro!: gives_bind_any gives_ret safe_intros keep_blobPut)
  show ?thesis unfolding put_def Let_def
    by (auto intro!: gives_bind_any safe_intros tail preserved_intros)
qed

lemma give_mkfile:
  "gives (safe P) (mkfile P c n) (\<lambda>m. \<exists>ts. names P m (meta_json ''blob'' n c 420 ts))"
proof (cases "n < 0")
  case True
  then show ?thesis by (simp add: mkfile_def gives_throw)
next
  case False
  have ok: "names P (computeCID P (json_bytes (meta_json ''blob'' n c 420 ts))) (meta_json ''blob'' n c 420 ts)" for ts
    unfolding names_def by (rule exI [of _ "json_bytes (meta_json ''blob'' n c 420 ts)"]) (simp add: meta_json_def)
  show ?thesis unfolding mkfile_def Let_def
    by (auto simp: False intro!: gives_bind_any safe_intros keep_storeBlob gives_ret ok)
qed

lemma keeps_multiLink:
  assumes "no_sw_header P"
  shows "keeps (safe P) (volume_multiLink P key rs) any"
proof -
  have "safe P c'" if "safe P c" "serverMultiLink P rs (c, v) = Some (r, (c', v'))" for c v r c' v'
    using keep_link_loop [OF assms that(2)] that(1) by (simp add: safe_v_def)
  then show ?thesis unfolding keeps_def volume_multiLink_def by (auto split: option.splits)
qed

lemma keep_volume [safe_intros]: "preserved (safe P) (volume url name)"
  by (simp add: preserved_def volume_def Let_def)

lemma keep_whoami [safe_intros]: "preserved (safe P) (whoami P url)"
proof -
  have "preserved (safe P) (try_catch (pbind (fetch P rq) (\<lambda>res.
      if \<not> resp_ok res then ret (JArr [])
      else pbind (lift_res (resp_json res)) (\<lambda>data.
           pbind (lift_res (js_prop_strict data ''identities'')) (\<lambda>ids. ret (nullish ids (JArr []))))))
      (\<lambda>_. ret (JArr [])))" for rq
    by (auto intro!: preserved_intros safe_intros)
  then show ?thesis unfolding preserved_def whoami_def by blast
qed

lemma sound_runs: "(no_sw_header P \<Longrightarrow> gives (safe P) m Q) \<Longrightarrow> keeps (sound P) (arun m) Q"
  by (rule keeps_run, rule sound_gives)

interpretation shell: content_api "volume_api P url rc rnd" "sound P" "computeCID P" "names P" for P url rc rnd
proof
  show "keeps (sound P) (va_lookup (volume_api P url rc rnd) key path) (\<lambda>f. names P (gf_cid f) (gf_meta f))" for key path
  proof -
    have "keeps (sound P) (arun (with_volume key (lookup P race path))) (\<lambda>f. names P (gf_cid f) (gf_meta f))" for race
      by (rule sound_runs, rule with_volume_gives, rule looked_up)
    then show ?thesis by (simp add: volume_api_def keeps_def)
  qed
  show "keeps (sound P) (va_multiLink (volume_api P url rc rnd) key rs) any" for key rs
    using keeps_multiLink [of P key rs] by (auto simp: volume_api_def keeps_def sound_def)
qed (auto simp: volume_api_def intro!: sound_runs with_volume_gives give_fileForCID give_json children_named
    give_put give_mkfile gives_True safe_intros give_get [unfolded has_cid_def])

section \<open>Sessions of the shell\<close>

text \<open>A session: commands run one after the other, whatever each returns or throws.\<close>

definition session :: "(string \<Rightarrow> err + 's tool) \<Rightarrow> (gval \<times> string \<times> gval list) list \<Rightarrow> ('s shell, unit) aprog" where
  "session imp calls =
     afor calls (\<lambda>(prev, name, args). abind (atry (execute imp prev name args)) (\<lambda>_. aret ()))"

definition shell_ok :: "('s \<Rightarrow> bool) \<Rightarrow> (string \<times> (gval \<Rightarrow> gval list \<Rightarrow> ('s, gval) aprog)) list \<Rightarrow> 's shell \<Rightarrow> bool" where
  "shell_ok I cmds = (\<lambda>(cache, s). I s \<and> (\<forall>(n, t) \<in> set cache. repo_import cmds (tool_url n) = Inr t))"

lemma repo_import_known:
  "repo_import cmds url = Inr t \<Longrightarrow> \<exists>n call. (n, call) \<in> set cmds \<and> tl_invoke t = Some call"
  by (auto simp: repo_import_def find_Some_iff split: option.splits) (metis nth_mem)

lemma importTool_ok:
  assumes "importTool (repo_import cmds) name cache = (r, cache')" and "shell_ok I cmds (cache, s)"
  shows "shell_ok I cmds (cache', s) \<and> (\<forall>t. r = Inr t \<longrightarrow> repo_import cmds (tool_url name) = Inr t)"
proof -
  have upd: "shell_ok I cmds (map_set name t cache, s)" if "repo_import cmds (tool_url name) = Inr t" for t
    using assms(2) that set_map_set_subset [of name t cache] by (fastforce simp: shell_ok_def)
  show ?thesis
    using assms upd
    by (auto simp: importTool_def shell_ok_def split: option.splits if_splits sum.splits dest: map_of_SomeD)
qed

lemma execute_keeps:
  assumes "\<And>n call prev args. (n, call) \<in> set cmds \<Longrightarrow> keeps I (call prev args) any"
  shows "keeps (shell_ok I cmds) (execute (repo_import cmds) prev name args) any"
proof -
  have "shell_ok I cmds t"
    if ok: "shell_ok I cmds (cache, s)" and run: "execute (repo_import cmds) prev name args (cache, s) = Some (r, t)"
    for cache s r t
  proof -
    obtain q cache' where imp: "importTool (repo_import cmds) name cache = (q, cache')" by fastforce
    note ok' = importTool_ok [OF imp ok]
    show ?thesis
    proof (cases q)
      case (Inl e)
      then show ?thesis using run imp ok' by (simp add: execute_def)
    next
      case (Inr tool)
      then obtain n call where call: "(n, call) \<in> set cmds" "tl_invoke tool = Some call"
        using ok' repo_import_known by blast
      then obtain s' where s': "call prev args s = Some (r, s')" "t = (cache', s')"
        using run imp Inr by (auto simp: execute_def)
      have "I s" using ok by (simp add: shell_ok_def)
      then have "I s'" using keepsD [OF assms [OF call(1)]] s' by blast
      then show ?thesis using ok' s' by (simp add: shell_ok_def)
    qed
  qed
  then show ?thesis unfolding keeps_def by auto
qed

lemma session_keeps:
  assumes "\<And>n call prev args. (n, call) \<in> set cmds \<Longrightarrow> keeps I (call prev args) any"
  shows "keeps (shell_ok I cmds) (session (repo_import cmds) calls) any"
  unfolding session_def
  by (rule keeps_for) (auto intro!: keeps_bind_any keeps_atry_any execute_keeps assms keeps_aret)

section \<open>Properties\<close>

lemma new_client_sound: "no_sw_header P \<Longrightarrow> sound P (new_client window works w)"
  by (auto simp: sound_def safe_def cache_ok_def no_sw_def new_client_def split: if_splits)

text \<open>
  Any sequence of shell commands, imported and dispatched by name, run on the volumes of
  GritsClient.js from a fresh client, leaves caches that hold under every identifier only content with
  that identifier, whatever the servers answer and whichever way the lookups race.
\<close>

theorem shell_cache_integrity:
  assumes "no_sw_header P" and "page_keeps (sound P) pg"
    and "session (repo_import (commands depth pg url (volume_api P url rc rnd))) calls
           ([], new_client window works w) = Some (r, (cache, c))"
  shows "cache_ok P c"
proof -
  define cmds where "cmds = commands depth pg url (volume_api P url rc rnd)"
  have cmd: "keeps (sound P) (call prev args) any" if "(n, call) \<in> set cmds" for n call prev args
    using that unfolding cmds_def by (rule shell.commands_keep [OF assms(2)])
  have start: "shell_ok (sound P) cmds ([], new_client window works w)"
    using new_client_sound [OF assms(1)] by (simp add: shell_ok_def)
  have run: "session (repo_import cmds) calls ([], new_client window works w) = Some (r, (cache, c))"
    using assms(3) by (simp add: cmds_def)
  have "keeps (shell_ok (sound P) cmds) (session (repo_import cmds) calls) any"
    by (rule session_keeps, erule cmd)
  from keepsD [OF this start run] have "shell_ok (sound P) cmds (cache, c)" by simp
  then show ?thesis by (simp add: shell_ok_def sound_def safe_def)
qed

definition blank_page :: "'s page" where
  "blank_page = \<lparr>pg_prompts = \<lparr>pr_credentials = \<lambda>_. None, pr_password = \<lambda>_. None\<rparr>,
     pg_locale_date = js_string, pg_fetch = \<lambda>_ _. athrow (Err_Type ''offline''), pg_pick = \<lambda>_. None,
     pg_compose = \<lambda>_ _. aret (), pg_open_widget = \<lambda>_ _. aret (),
     pg_unzip = \<lambda>_. \<lparr>zr_entries = [], zr_failed = None\<rparr>\<rparr>"

lemma blank_page_keeps: "page_keeps I blank_page"
  by (simp add: page_keeps_def blank_page_def keeps_aret keeps_athrow)

lemma download_is_known:
  "repo_import (commands depth pg url va) ''../download/main.js'' =
     Inr \<lparr>tl_invoke = Some (download_invoke (pg_fetch pg)), tl_help = None\<rparr>"
  by (simp add: repo_import_def commands_def tool_url_def)

theorem shell_cache_integrity_witness:
  "\<exists>r cache c. session (repo_import (commands 0 blank_page ''s'' (volume_api offline ''s'' (\<lambda>_. Slow_first) (\<lambda>_. ''r''))))
       [(V_client, ''download'', [V_js (JStr ''u'')])] ([], new_client True True ()) = Some (r, (cache, c))
     \<and> cache_ok offline c"
proof -
  let ?cmds = "commands 0 blank_page ''s'' (volume_api offline ''s'' (\<lambda>_. Slow_first) (\<lambda>_. ''r''))"
  have "command_name ''download''" by code_simp
  then have run: "\<exists>r cache c. session (repo_import ?cmds) [(V_client, ''download'', [V_js (JStr ''u'')])]
      ([], new_client True True ()) = Some (r, (cache, c))"
    by (simp add: session_def execute_def importTool_def tool_url_def download_is_known download_invoke_def
        blank_page_def nth_arg_def aprog_simps abind_def atry_def acatch_def athrow_def aret_def)
  then show ?thesis
    using shell_cache_integrity [OF offline_no_sw blank_page_keeps] by blast
qed


text \<open>
  From a sound client, the identifier that write, to, append, mail and a move across volumes link into
  place names metadata of a file with exactly the bytes stored: their length and their content identifier.
\<close>

theorem stored_file_names_bytes:
  "keeps (sound P) (store_file (volume_api P url rc rnd) key bytes)
     (\<lambda>m. \<exists>ts. names P m (meta_json ''blob'' (int (length bytes)) (computeCID P bytes) 420 ts))"
  by (rule shell.store_keeps)

end
