(* ===== verification/Escapes.thy ===== *)
theory Escapes
  imports Platform
begin

text \<open>
  \<open>encodeURIComponent\<close> and \<open>decodeURIComponent\<close>, with the proof that the second undoes the first. A string
  holds UTF-8 code units, so that a percent escape is one character.
\<close>

section \<open>Percent escapes\<close>

definition hex_upper :: "nat \<Rightarrow> char" where
  "hex_upper n = (if n < 10 then char_of (n + 48) else char_of (n + 55))"

text \<open>The characters \<open>encodeURIComponent\<close> keeps.\<close>

definition uri_unreserved :: "char \<Rightarrow> bool" where
  "uri_unreserved c \<longleftrightarrow>
     (let n = (of_char c :: nat) in 65 \<le> n \<and> n \<le> 90 \<or> 97 \<le> n \<and> n \<le> 122 \<or> 48 \<le> n \<and> n \<le> 57
        \<or> n \<in> {45, 95, 46, 33, 126, 42, 39, 40, 41})"

definition escape_char :: "char \<Rightarrow> string" where
  "escape_char c =
     (if uri_unreserved c then [c]
      else (let n = (of_char c :: nat) in [CHR 0x25, hex_upper (n div 16), hex_upper (n mod 16)]))"

definition encodeURIComponent :: "string \<Rightarrow> string" where
  "encodeURIComponent s = concat (map escape_char s)"

text \<open>Well-formed UTF-8: no overlong form, no surrogate, nothing above U+10FFFF.\<close>

definition cont :: "nat \<Rightarrow> bool" where
  "cont n \<longleftrightarrow> 128 \<le> n \<and> n < 192"

fun utf8_ok :: "nat list \<Rightarrow> bool" where
  "utf8_ok [] = True"
| "utf8_ok (a # r) =
     (if a < 128 then utf8_ok r
      else if 194 \<le> a \<and> a < 224 then (case r of b # r' \<Rightarrow> cont b \<and> utf8_ok r' | _ \<Rightarrow> False)
      else if 224 \<le> a \<and> a < 240 then
        (case r of b # c # r' \<Rightarrow> cont b \<and> cont c \<and> (a = 224 \<longrightarrow> 160 \<le> b) \<and> (a = 237 \<longrightarrow> b < 160) \<and> utf8_ok r'
         | _ \<Rightarrow> False)
      else if 240 \<le> a \<and> a < 245 then
        (case r of b # c # d # r' \<Rightarrow>
             cont b \<and> cont c \<and> cont d \<and> (a = 240 \<longrightarrow> 144 \<le> b) \<and> (a = 244 \<longrightarrow> b < 144) \<and> utf8_ok r'
         | _ \<Rightarrow> False)
      else False)"

definition units :: "string \<Rightarrow> nat list" where
  "units s = map of_char s"

fun unescape :: "string \<Rightarrow> string option" where
  "unescape [] = Some []"
| "unescape (c # s) =
     (if c \<noteq> CHR 0x25 then map_option ((#) c) (unescape s)
      else (case s of
        h # l # r \<Rightarrow>
          (case (hex_val h, hex_val l) of
             (Some a, Some b) \<Rightarrow> map_option ((#) (char_of (16 * a + b))) (unescape r)
           | _ \<Rightarrow> None)
      | _ \<Rightarrow> None))"

text \<open>\<open>decodeURIComponent\<close>; its \<open>URIError\<close> is an \<open>Err_Error\<close>.\<close>

definition decodeURIComponent :: "string \<Rightarrow> err + string" where
  "decodeURIComponent s =
     (case unescape s of
        None \<Rightarrow> Inl (Err_Error ''URI malformed'')
      | Some t \<Rightarrow> if utf8_ok (units t) then Inr t else Inl (Err_Error ''URI malformed''))"

section \<open>Escapes come back\<close>

lemma hex_val_upper: "k < 16 \<Longrightarrow> hex_val (hex_upper k) = Some k"
  by (simp add: hex_val_def hex_upper_def)

lemma div_16: "(of_char c :: nat) div 16 < 16"
  using nat_of_char_less_256 [of c] by presburger

lemma unescape_escape_char: "unescape (escape_char c @ s) = map_option ((#) c) (unescape s)"
proof (cases "uri_unreserved c")
  case True
  then have "c \<noteq> CHR 0x25" by (auto simp: uri_unreserved_def)
  then show ?thesis using True by (simp add: escape_char_def)
next
  case False
  let ?n = "of_char c :: nat"
  have v: "hex_val (hex_upper (?n div 16)) = Some (?n div 16)" "hex_val (hex_upper (?n mod 16)) = Some (?n mod 16)"
    by (simp_all add: hex_val_upper div_16)
  have rebuild: "char_of (16 * (?n div 16) + ?n mod 16) = c"
    by (simp only: mult_div_mod_eq char_of_char)
  show ?thesis
    using False by (simp only: escape_char_def Let_def if_False append.simps unescape.simps list.case v rebuild option.case
        prod.case not_True_eq_False simp_thms if_True)
qed

lemma unescape_encode: "unescape (encodeURIComponent s) = Some s"
  unfolding encodeURIComponent_def by (induction s) (simp_all add: unescape_escape_char)

lemma decode_encode: "utf8_ok (units s) \<Longrightarrow> decodeURIComponent (encodeURIComponent s) = Inr s"
  by (simp add: decodeURIComponent_def unescape_encode)

text \<open>A component is read back by both: the escapes alone, and the decoder that checks the bytes.\<close>

interpretation escapes: codec encodeURIComponent unescape "\<lambda>_. True"
  by unfold_locales (rule unescape_encode)

interpretation component: codec encodeURIComponent
    "\<lambda>t. case decodeURIComponent t of Inl e \<Rightarrow> None | Inr s \<Rightarrow> Some s" "\<lambda>s. utf8_ok (units s)"
  by unfold_locales (simp add: decode_encode)

lemma encode_inj: "encodeURIComponent s = encodeURIComponent t \<longleftrightarrow> s = t"
  by (rule escapes.enc_inj) simp_all

lemma encode_chars: "c \<in> set (encodeURIComponent s) \<Longrightarrow> uri_unreserved c \<or> c = CHR 0x25"
proof -
  have hex: "uri_unreserved (hex_upper k)" if "k < 16" for k
    using that by (auto simp: uri_unreserved_def hex_upper_def of_char_char_of_small)
  have one: "c \<in> set (escape_char d) \<Longrightarrow> uri_unreserved c \<or> c = CHR 0x25" for d
    using hex [of "of_char d div 16"] hex [of "of_char d mod 16"] div_16 [of d]
    by (auto simp: escape_char_def Let_def split: if_splits)
  assume "c \<in> set (encodeURIComponent s)"
  then show ?thesis using one by (auto simp: encodeURIComponent_def)
qed

end
