(* ===== verification/Service_Worker.thy ===== *)
theory Service_Worker
  imports Tools_Volume Escapes
begin

text \<open>
  serviceworker/grits-serviceworker.js: which requests of a page the worker answers, and what it answers: the
  check of its own build hash on navigation, the lookup of the path in the volume of sites, the blob, and the
  error page. The volume is reached through the operations of \<open>vapi\<close>, the network through \<open>se_fetch\<close>.
\<close>

section \<open>State and requests\<close>

text \<open>
  What stays the same for a worker: its build hash, when it started, its origin, the volume operations and the
  network. Its own variables, with what it has done to the page: messages posted and calls of \<open>unregister\<close>.
\<close>

record 's swenv =
  se_dirHash :: string
  se_start :: int
  se_origin :: string
  se_api :: "'s vapi"
  se_fetch :: "request \<Rightarrow> ('s, response) aprog"

record sw =
  sw_override :: "string option"
  sw_unregistering :: bool
  sw_messages :: "string list"
  sw_unregistered :: nat
  sw_headers :: "(string \<times> string) list"

definition new_sw :: sw where
  "new_sw = \<lparr>sw_override = None, sw_unregistering = False, sw_messages = [], sw_unregistered = 0, sw_headers = []\<rparr>"

text \<open>A request of the page with the parts of its parsed URL; \<open>pq_query\<close> is the query's override parameter.\<close>

record page_request =
  pq_method :: string
  pq_navigate :: bool
  pq_origin :: string
  pq_hostname :: string
  pq_pathname :: string
  pq_href :: string
  pq_query :: "string option"
  pq_header :: "string option"

definition OVERRIDE :: string where "OVERRIDE = ''X-Grits-Sw-Hash-Override''"

section \<open>Media types\<close>

definition mimeTypes :: "(string \<times> string) list" where
  "mimeTypes =
     [(''html'', ''text/html''), (''css'', ''text/css''), (''js'', ''application/javascript''),
      (''json'', ''application/json''), (''png'', ''image/png''), (''jpg'', ''image/jpeg''),
      (''jpeg'', ''image/jpeg''), (''svg'', ''image/svg+xml''), (''ico'', ''image/x-icon''),
      (''woff'', ''font/woff''), (''woff2'', ''font/woff2''), (''ttf'', ''font/ttf''),
      (''eot'', ''application/vnd.ms-fontobject'')]"

definition mimeFromPath :: "string \<Rightarrow> string" where
  "mimeFromPath path =
     (case map_get mimeTypes (to_lower (last (js_split (CHR ''.'') path))) of
        None \<Rightarrow> ''application/octet-stream''
      | Some t \<Rightarrow> t)"

section \<open>The fetch event\<close>

datatype event_answer = Pass_through | Ping response | Handle

definition ping_response :: "'s swenv \<Rightarrow> sw \<Rightarrow> response" where
  "ping_response env w =
     \<lparr>rs_status = 200, rs_headers = [(''Content-Type'', ''application/json'')],
      rs_body = Inr (json_bytes (JObj [(''startTime'', JNum (se_start env)), (''swDirHash'', JStr (se_dirHash env)),
        (''testHashOverride'', case sw_override w of None \<Rightarrow> JNull | Some o' \<Rightarrow> JStr o')]))\<rparr>"

definition on_fetch :: "'s swenv \<Rightarrow> sw \<Rightarrow> page_request \<Rightarrow> event_answer" where
  "on_fetch env w rq =
     (if pq_pathname rq = ''/grits/v1/swtest/ping'' then Ping (ping_response env w)
      else if pq_method rq \<noteq> ''GET'' then Pass_through
      else if pq_origin rq \<noteq> se_origin env then Pass_through
      else if starts_with ''/grits/'' (pq_pathname rq) then Pass_through
      else if sw_unregistering w \<and> pq_navigate rq then Pass_through
      else Handle)"

section \<open>Answering a request\<close>

definition redirect :: "string \<Rightarrow> response" where
  "redirect url = \<lparr>rs_status = 302, rs_headers = [(''Location'', url)], rs_body = Inr []\<rparr>"

definition swFetch :: "'s swenv \<Rightarrow> string \<Rightarrow> string option \<Rightarrow> ('s, response) aprog" where
  "swFetch env path override =
     se_fetch env \<lparr>rq_method = ''GET'', rq_url = se_origin env @ path,
       rq_headers = (''X-Grits-SW-Sentinel'', ''1'') # (case override of None \<Rightarrow> [] | Some v \<Rightarrow> [(OVERRIDE, v)]),
       rq_body = None\<rparr>"

text \<open>The override of a request: the query's, else the header's, else the one-shot one, which is then cleared.\<close>

definition pick_override :: "page_request \<Rightarrow> sw \<Rightarrow> string option \<times> sw" where
  "pick_override rq w =
     (case pq_query rq of
        Some q \<Rightarrow> (Some q, w)
      | None \<Rightarrow>
          (case pq_header rq of
             Some h \<Rightarrow> (Some h, w)
           | None \<Rightarrow> (sw_override w, w\<lparr>sw_override := None\<rparr>)))"

text \<open>
  \<open>windows\<close> is the number of window clients that are told. \<open>Response.redirect\<close> resolves the relative URL
  against the worker's origin; its escaping of an apostrophe in the query is left out.
\<close>

definition interstitial :: string where
  "interstitial = ''/grits/v1/sw-interstitial?target=''"

definition unregisterAndRedirectToInterstitial :: "'s swenv \<Rightarrow> nat \<Rightarrow> string \<Rightarrow> sw \<Rightarrow> response \<times> sw" where
  "unregisterAndRedirectToInterstitial env windows originalURL w =
     (redirect (se_origin env @ interstitial @ encodeURIComponent originalURL),
      w\<lparr>sw_unregistering := True,
        sw_messages := sw_messages w @ replicate windows ''DELETE_COOLDOWN_COOKIE'',
        sw_unregistered := sw_unregistered w + 1\<rparr>)"

text \<open>The hash the server announces on a navigation; a failed check is ignored.\<close>

definition hash_check :: "'s swenv \<Rightarrow> page_request \<Rightarrow> string option \<Rightarrow> ('s, string option) aprog" where
  "hash_check env rq override =
     (if pq_navigate rq
      then acatch (abind (swFetch env ''/grits/v1/sw-hash-check'' override)
             (\<lambda>r. aret (header_get r ''X-Grits-Sw-Hash''))) (\<lambda>_. aret None)
      else aret None)"

definition mismatch :: "'s swenv \<Rightarrow> string option \<Rightarrow> bool" where
  "mismatch env hash \<longleftrightarrow> given hash \<and> hash \<noteq> Some (se_dirHash env)"

definition error_page :: "err \<Rightarrow> response" where
  "error_page e =
     \<lparr>rs_status = 500, rs_headers = [(''Content-Type'', ''text/html'')],
      rs_body = Inr (text_encode (''<h1>Error</h1><pre>'' @ err_message e @ ''</pre>''))\<rparr>"

definition blob_page :: "'s swenv \<Rightarrow> string \<Rightarrow> response \<Rightarrow> response" where
  "blob_page env lookupPath blobResp =
     (if \<not> resp_ok blobResp
      then \<lparr>rs_status = 404, rs_headers = [], rs_body = Inr (text_encode ''Blob not found'')\<rparr>
      else \<lparr>rs_status = 200,
        rs_headers = [(''Content-Type'', mimeFromPath lookupPath), (''Cache-Control'', ''no-store''),
          (''X-Grits-SW-Controlled'', ''1''), (''X-Grits-SW-Self-Hash'', se_dirHash env)],
        rs_body = rs_body blobResp\<rparr>)"

text \<open>The \<open>try\<close> block: the file, a redirect for a directory without a final slash, its index page.\<close>

definition serve_blob :: "'s swenv \<Rightarrow> string option \<Rightarrow> string \<Rightarrow> gfile \<Rightarrow> ('s, response) aprog" where
  "serve_blob env override lookupPath file =
     abind (swFetch env (''/grits/v1/blob/'' @ contentCID file) override)
       (\<lambda>blobResp. aret (blob_page env lookupPath blobResp))"

definition serve :: "'s swenv \<Rightarrow> string \<Rightarrow> page_request \<Rightarrow> string option \<Rightarrow> string \<Rightarrow> string \<Rightarrow> ('s, response) aprog" where
  "serve env key rq override urlPath lookupPath =
     abind (va_lookup (se_api env) key lookupPath) (\<lambda>file.
       if isDir file then
         (if \<not> ends_with ''/'' urlPath then aret (redirect (pq_href rq @ ''/''))
          else
            (let indexPath = lookupPath @ ''/index.html'' in
             abind (va_lookup (se_api env) key indexPath) (serve_blob env override indexPath)))
       else serve_blob env override lookupPath file)"

definition lookup_path :: "page_request \<Rightarrow> string \<Rightarrow> string" where
  "lookup_path rq urlPath = strip_trail (pq_hostname rq @ ''/live'' @ urlPath)"

text \<open>
  \<open>handleRequest\<close> from the worker's variables. The variables change before the first await (the
  override) and when the worker unregisters.
\<close>

definition handleRequest :: "'s swenv \<Rightarrow> nat \<Rightarrow> page_request \<Rightarrow> sw \<Rightarrow> ('s, response \<times> sw) aprog" where
  "handleRequest env windows rq w =
     abind (alift (decodeURIComponent (pq_pathname rq))) (\<lambda>urlPath.
       let (override, w1) = pick_override rq w in
       abind (hash_check env rq override) (\<lambda>hash.
         if mismatch env hash
         then aret (unregisterAndRedirectToInterstitial env windows (pq_href rq) w1)
         else
           abind (va_volume (se_api env) ''sites'') (\<lambda>key.
           abind (acatch (serve env key rq override urlPath (lookup_path rq urlPath))
             (\<lambda>e. aret (error_page e))) (\<lambda>resp.
             aret (resp, w1)))))"

section \<open>Messages from the page\<close>

datatype sw_message = GET_STATE | SET_HASH_OVERRIDE "string option" | Other_message

definition state_json :: "'s swenv \<Rightarrow> sw \<Rightarrow> jsv" where
  "state_json env w =
     JObj [(''startTime'', JNum (se_start env)), (''swDirHash'', JStr (se_dirHash env)),
           (''testHashOverride'', case sw_override w of None \<Rightarrow> JNull | Some o' \<Rightarrow> JStr o')]"

text \<open>\<open>port\<close> says that the message came with a port to reply to; without one \<open>GET_STATE\<close> throws.\<close>

definition on_message :: "'s swenv \<Rightarrow> bool \<Rightarrow> sw_message \<Rightarrow> sw \<Rightarrow> (err + jsv option) \<times> sw" where
  "on_message env port msg w =
     (case msg of
        GET_STATE \<Rightarrow>
          (if port then Inr (Some (state_json env w)) else Inl (Err_Type ''postMessage of undefined''), w)
      | SET_HASH_OVERRIDE v \<Rightarrow>
          (Inr (if port then Some (JObj [(''done'', JBool True)]) else None),
           w\<lparr>sw_override := v,
             sw_headers := (case v of None \<Rightarrow> map_del OVERRIDE (sw_headers w) | Some s \<Rightarrow> map_set OVERRIDE s (sw_headers w))\<rparr>)
      | Other_message \<Rightarrow> (Inr None, w))"

section \<open>Properties\<close>


definition stub_env :: "(request \<Rightarrow> response) \<Rightarrow> (string \<Rightarrow> err + gfile) \<Rightarrow> unit swenv" where
  "stub_env net look =
     \<lparr>se_dirHash = ''h1'', se_start = 0, se_origin = ''http://a'',
      se_api = \<lparr>va_volume = (\<lambda>n. aret n), va_lookup = (\<lambda>k p. alift (look p)),
        va_fileForCID = (\<lambda>k c. athrow Err_Abort), va_get = (\<lambda>k c. athrow Err_Abort),
        va_json = (\<lambda>k c. athrow Err_Abort), va_children = (\<lambda>k f. athrow Err_Abort),
        va_put = (\<lambda>k b. athrow Err_Abort), va_mkfile = (\<lambda>k c n. athrow Err_Abort),
        va_mkdir = (\<lambda>k es. athrow Err_Abort), va_multiLink = (\<lambda>k rs. athrow Err_Abort),
        va_whoami = athrow Err_Abort, va_login = (\<lambda>u p g q. athrow Err_Abort),
        va_logout = (\<lambda>u. athrow Err_Abort), va_now = aret 0, va_random = aret []\<rparr>,
      se_fetch = (\<lambda>rq. aret (net rq))\<rparr>"

definition page_at :: "string \<Rightarrow> bool \<Rightarrow> page_request" where
  "page_at path nav =
     \<lparr>pq_method = ''GET'', pq_navigate = nav, pq_origin = ''http://a'', pq_hostname = ''a'',
      pq_pathname = path, pq_href = ''http://a'' @ path, pq_query = None, pq_header = None\<rparr>"


text \<open>
  C25. A page answered with status 200 is the answer of the server for the content address that the volume gave
  for the path, or for the index page below it, fetched after that lookup and sent on unchanged, marked as not
  to be stored, with the media type of the path's extension and the worker's own build.
\<close>

theorem page_source:
  assumes "handleRequest env n rq w s = Some (Inr (resp, w'), s')" and "rs_status resp = 200"
  shows "\<exists>urlPath path key fl blobResp t u. decodeURIComponent (pq_pathname rq) = Inr urlPath
     \<and> (path = lookup_path rq urlPath \<or> path = lookup_path rq urlPath @ ''/index.html'')
     \<and> va_lookup (se_api env) key path t = Some (Inr fl, u)
     \<and> swFetch env (''/grits/v1/blob/'' @ contentCID fl) (fst (pick_override rq w)) u = Some (Inr blobResp, s')
     \<and> resp_ok blobResp \<and> rs_body resp = rs_body blobResp \<and> w' = snd (pick_override rq w)
     \<and> header_get resp ''Content-Type'' = Some (mimeFromPath path)
     \<and> header_get resp ''Cache-Control'' = Some ''no-store''
     \<and> header_get resp ''X-Grits-SW-Self-Hash'' = Some (se_dirHash env)"
proof -
  obtain override w1 where ov: "pick_override rq w = (override, w1)" by fastforce
  obtain urlPath where url: "decodeURIComponent (pq_pathname rq) = Inr urlPath"
    using assms(1) by (cases "decodeURIComponent (pq_pathname rq)") (auto simp: handleRequest_def aprog_simps)
  let ?p = "lookup_path rq urlPath"
  have unreg: "rs_status (fst (unregisterAndRedirectToInterstitial env n (pq_href rq) w1)) = 302"
    by (simp add: unregisterAndRedirectToInterstitial_def redirect_def)
  obtain key t where served: "acatch (serve env key rq override urlPath ?p) (\<lambda>e. aret (error_page e)) t = Some (Inr resp, s')"
      and w': "w' = w1"
    using assms unreg
    by (auto simp: handleRequest_def url ov abind_def aret_def alift_def split: option.splits sum.splits prod.splits if_splits)
  have ok: "serve env key rq override urlPath ?p t = Some (Inr resp, s')"
    using served assms(2) by (auto simp: acatch_def aret_def error_page_def split: option.splits sum.splits)
  have blob: "\<exists>blobResp. swFetch env (''/grits/v1/blob/'' @ contentCID fl) override u = Some (Inr blobResp, s')
      \<and> resp_ok blobResp \<and> resp = blob_page env path blobResp"
    if "serve_blob env override path fl u = Some (Inr resp, s')" for path fl u
    using that assms(2)
    by (auto simp: serve_blob_def abind_def aret_def blob_page_def split: option.splits sum.splits if_splits)
  have "\<exists>path fl u v. (path = ?p \<or> path = ?p @ ''/index.html'') \<and> va_lookup (se_api env) key path u = Some (Inr fl, v)
      \<and> serve_blob env override path fl v = Some (Inr resp, s')"
    using ok assms(2)
    by (fastforce simp: serve_def abind_def aret_def redirect_def Let_def split: option.splits sum.splits if_splits)
  then obtain path fl u v where at: "path = ?p \<or> path = ?p @ ''/index.html''"
      and look: "va_lookup (se_api env) key path u = Some (Inr fl, v)"
      and sb: "serve_blob env override path fl v = Some (Inr resp, s')" by blast
  obtain blobResp where b: "swFetch env (''/grits/v1/blob/'' @ contentCID fl) override v = Some (Inr blobResp, s')"
      "resp_ok blobResp" "resp = blob_page env path blobResp" using blob [OF sb] by blast
  have hs: "header_get resp ''Content-Type'' = Some (mimeFromPath path)"
    "header_get resp ''Cache-Control'' = Some ''no-store''"
    "header_get resp ''X-Grits-SW-Self-Hash'' = Some (se_dirHash env)"
    "rs_body resp = rs_body blobResp"
    using b by (simp_all add: blob_page_def header_get_def to_lower_def to_lower_char_def)
  show ?thesis using url at look b hs w' ov by (metis fst_conv snd_conv)
qed

definition blob_file :: "string \<Rightarrow> gfile" where
  "blob_file c =
     \<lparr>gf_cid = ''m'', gf_meta = JObj [(''type'', JStr ''blob''), (''contentHash'', JStr c)], gf_path = None\<rparr>"

theorem page_source_witness:
  "\<exists>resp w' s'. handleRequest (stub_env (\<lambda>_. mk_response [1, 2] 200) (\<lambda>p. if p = ''a/live/i.css'' then Inr (blob_file ''c'') else Inl Err_Abort)) 0
       (page_at ''/i.css'' False) new_sw () = Some (Inr (resp, w'), s')
     \<and> header_get resp ''Content-Type'' = Some ''text/css'' \<and> rs_body resp = Inr [1, 2]"
proof -
  let ?env = "stub_env (\<lambda>_. mk_response [1, 2] 200) (\<lambda>p. if p = ''a/live/i.css'' then Inr (blob_file ''c'') else Inl Err_Abort)"
  have url: "decodeURIComponent (pq_pathname (page_at ''/i.css'' False)) = Inr ''/i.css''" by code_simp
  have path: "lookup_path (page_at ''/i.css'' False) ''/i.css'' = ''a/live/i.css''" by code_simp
  have css: "mimeFromPath ''a/live/i.css'' = ''text/css''" by code_simp
  have "\<exists>resp w' s'. handleRequest ?env 0 (page_at ''/i.css'' False) new_sw () = Some (Inr (resp, w'), s')
      \<and> rs_status resp = 200"
    using url path
    by (simp add: handleRequest_def pick_override_def page_at_def new_sw_def hash_check_def mismatch_def given_def
        serve_def serve_blob_def swFetch_def stub_env_def blob_file_def isDir_def mk_response_def blob_page_def resp_ok_def
        aprog_simps acatch_def abind_def aret_def alift_def)
  then obtain resp w' s' where run: "handleRequest ?env 0 (page_at ''/i.css'' False) new_sw () = Some (Inr (resp, w'), s')"
      and "rs_status resp = 200" by blast
  from page_source [OF this] path url css show ?thesis
    using run by (auto simp: stub_env_def swFetch_def mk_response_def aprog_simps split: if_splits)
qed

text \<open>
  When the lookup of a page's path fails, for a missing file too, the answer is an HTML page with status 500
  that carries the message of the exception as it is; no escaping is applied, so markup in the decoded path,
  which that message repeats, is markup of the page.
\<close>

theorem failed_lookup_page:
  assumes "decodeURIComponent (pq_pathname rq) = Inr urlPath" and "pick_override rq w = (override, w1)"
    and "hash_check env rq override s = Some (Inr hash, t)" and "\<not> mismatch env hash"
    and "va_volume (se_api env) ''sites'' t = Some (Inr key, u)"
    and "va_lookup (se_api env) key (lookup_path rq urlPath) u = Some (Inl e, v)"
  shows "\<exists>resp. handleRequest env n rq w s = Some (Inr (resp, w1), v) \<and> rs_status resp = 500
     \<and> header_get resp ''Content-Type'' = Some ''text/html''
     \<and> resp_text resp = Inr (''<h1>Error</h1><pre>'' @ err_message e @ ''</pre>'')"
proof -
  have "serve env key rq override urlPath (lookup_path rq urlPath) u = Some (Inl e, v)"
    using assms(6) by (simp add: serve_def aprog_simps)
  then have "handleRequest env n rq w s = Some (Inr (error_page e, w1), v)"
    using assms(1-5) by (simp add: handleRequest_def aprog_simps)
  then show ?thesis by (simp add: error_page_def header_get_def resp_text_def)
qed

theorem failed_lookup_page_witness:
  "\<exists>resp. handleRequest (stub_env (\<lambda>_. mk_response [] 404) (\<lambda>p. Inl (Err_Error (''lookup: //sites/'' @ p @ '': not found''))))
       0 (page_at ''/%3Cb%3E'' False) new_sw () = Some (Inr (resp, new_sw), ())
     \<and> resp_text resp = Inr ''<h1>Error</h1><pre>lookup: //sites/a/live/<b>: not found</pre>''"
proof -
  let ?rq = "page_at ''/%3Cb%3E'' False"
  let ?env = "stub_env (\<lambda>_. mk_response [] 404) (\<lambda>p. Inl (Err_Error (''lookup: //sites/'' @ p @ '': not found'')))"
  have 1: "decodeURIComponent (pq_pathname ?rq) = Inr ''/<b>''" by code_simp
  have 2: "pick_override ?rq new_sw = (None, new_sw)" by (simp add: pick_override_def page_at_def new_sw_def)
  have 3: "hash_check ?env ?rq None () = Some (Inr None, ())" by (simp add: hash_check_def page_at_def aprog_simps)
  have 4: "\<not> mismatch ?env None" by (simp add: mismatch_def given_def)
  have 5: "va_volume (se_api ?env) ''sites'' () = Some (Inr ''sites'', ())" by (simp add: stub_env_def aprog_simps)
  have p: "lookup_path ?rq ''/<b>'' = ''a/live/<b>''" by code_simp
  have 6: "va_lookup (se_api ?env) ''sites'' (lookup_path ?rq ''/<b>'') () =
      Some (Inl (Err_Error ''lookup: //sites/a/live/<b>: not found''), ())"
    by (simp add: p) (simp add: stub_env_def aprog_simps)
  show ?thesis using failed_lookup_page [OF 1 2 3 4 5 6, of 0] by auto
qed

end
