(* ===== verification/Lifecycle.thy ===== *)
theory Lifecycle
  imports Client_State
begin

text \<open>
  What is made once and what has to be given back: the periodic timers of the client with its tracker and its
  mirror managers (grits/), those of the widgets that refresh themselves (files, inbox), and the objects the shell
  keeps one of (gimbal/client.js, gimbal/overlay.js).

  Intervals are numbered as they are made; one is active until it is cleared.
\<close>

section \<open>Intervals\<close>

datatype purpose = Cleanup | Report | Mirror_list string | Auto_refresh

record intervals =
  iv_next :: nat
  iv_active :: "(nat \<times> purpose) list"

definition no_intervals :: intervals where
  "no_intervals = \<lparr>iv_next = 1, iv_active = []\<rparr>"

definition setInterval :: "purpose \<Rightarrow> intervals \<Rightarrow> nat \<times> intervals" where
  "setInterval p ts = (iv_next ts, ts\<lparr>iv_next := Suc (iv_next ts), iv_active := iv_active ts @ [(iv_next ts, p)]\<rparr>)"

definition clearInterval :: "nat \<Rightarrow> intervals \<Rightarrow> intervals" where
  "clearInterval i ts = ts\<lparr>iv_active := filter (\<lambda>(j, p). j \<noteq> i) (iv_active ts)\<rparr>"

definition iv_ok :: "intervals \<Rightarrow> bool" where
  "iv_ok ts \<longleftrightarrow> distinct (map fst (iv_active ts)) \<and> list_all (\<lambda>(j, p). j < iv_next ts) (iv_active ts)"

lemma iv_ok_new [simp]: "iv_ok no_intervals"
  by (simp add: iv_ok_def no_intervals_def)

lemma iv_ok_set: "iv_ok ts \<Longrightarrow> iv_ok (snd (setInterval p ts))"
  by (auto simp: iv_ok_def setInterval_def list_all_iff)

lemma iv_ok_clear: "iv_ok ts \<Longrightarrow> iv_ok (clearInterval i ts)"
  by (auto simp: iv_ok_def clearInterval_def list_all_iff distinct_map_filter)

section \<open>The tracker, the mirror manager and the client\<close>

definition DEBUG_STATS :: bool where "DEBUG_STATS = False"

text \<open>The timers of a client: of the cleanup, of the tracker, and of the mirror manager of each volume.\<close>

record client_timers =
  ct_cleanup :: nat
  ct_tracker :: "nat option"
  ct_mirrors :: "(string \<times> nat option) list"

definition tracker_timer :: "bool \<Rightarrow> int \<Rightarrow> intervals \<Rightarrow> nat option \<times> intervals" where
  "tracker_timer enabled every ts =
     (if enabled \<and> every > 0 then (case setInterval Report ts of (i, ts') \<Rightarrow> (Some i, ts')) else (None, ts))"

definition tracker_destroy :: "nat option \<Rightarrow> intervals \<Rightarrow> nat option \<times> intervals" where
  "tracker_destroy t ts = (case t of None \<Rightarrow> (t, ts) | Some i \<Rightarrow> (None, clearInterval i ts))"

definition mirror_timer :: "string \<Rightarrow> intervals \<Rightarrow> nat option \<times> intervals" where
  "mirror_timer serverUrl ts =
     (if serverUrl \<noteq> [] then (case setInterval (Mirror_list serverUrl) ts of (i, ts') \<Rightarrow> (Some i, ts')) else (None, ts))"

definition mirror_destroy :: "nat option \<Rightarrow> intervals \<Rightarrow> intervals" where
  "mirror_destroy t ts = (case t of None \<Rightarrow> ts | Some i \<Rightarrow> clearInterval i ts)"

definition client_start :: "intervals \<Rightarrow> client_timers \<times> intervals" where
  "client_start ts =
     (let (t, ts1) = tracker_timer DEBUG_STATS 10000 ts; (i, ts2) = setInterval Cleanup ts1
      in (\<lparr>ct_cleanup = i, ct_tracker = t, ct_mirrors = []\<rparr>, ts2))"

text \<open>\<open>volume\<close>: the first time, a new volume with its mirror manager.\<close>

definition client_volume :: "string \<times> string \<Rightarrow> client_timers \<times> intervals \<Rightarrow> client_timers \<times> intervals" where
  "client_volume = (\<lambda>(url, name) (c, ts).
     if map_has (ct_mirrors c) (volKey url name) then (c, ts)
     else (case mirror_timer (drop_last_slash (drop_last_slash url)) ts of
             (t, ts') \<Rightarrow> (c\<lparr>ct_mirrors := map_set (volKey url name) t (ct_mirrors c)\<rparr>, ts')))"

definition client_destroy :: "client_timers \<times> intervals \<Rightarrow> client_timers \<times> intervals" where
  "client_destroy = (\<lambda>(c, ts).
     case tracker_destroy (ct_tracker c) (clearInterval (ct_cleanup c) ts) of
       (t, ts') \<Rightarrow> (c\<lparr>ct_tracker := t\<rparr>, ts'))"

definition client_life :: "(string \<times> string) list \<Rightarrow> client_timers \<times> intervals" where
  "client_life vols = fold client_volume vols (client_start no_intervals)"

text \<open>The intervals of a client: its cleanup, and one for each volume whose server has a URL.\<close>

definition mirror_ids :: "client_timers \<Rightarrow> nat list" where
  "mirror_ids c = concat (map (\<lambda>(k, t). case t of None \<Rightarrow> [] | Some i \<Rightarrow> [i]) (ct_mirrors c))"

definition timers_of :: "client_timers \<times> intervals \<Rightarrow> bool" where
  "timers_of = (\<lambda>(c, ts). iv_ok ts \<and> ct_tracker c = None \<and> distinct (map fst (ct_mirrors c))
     \<and> map fst (iv_active ts) = ct_cleanup c # mirror_ids c)"

lemma map_set_fresh: "\<not> map_has m k \<Longrightarrow> map_set k v m = m @ [(k, v)]"
  by (induction m) (auto simp: map_has_def split: if_splits)

lemma map_has_fst: "map_has m k \<longleftrightarrow> k \<in> fst ` set m"
  by (auto simp: map_has_def map_of_eq_None_iff)

lemma timers_start: "timers_of (client_start no_intervals)"
  by (simp add: timers_of_def client_start_def tracker_timer_def DEBUG_STATS_def setInterval_def no_intervals_def
      iv_ok_def mirror_ids_def)

lemma timers_volume: "timers_of s \<Longrightarrow> timers_of (client_volume v s)"
proof -
  assume ok: "timers_of s"
  obtain url name c ts where v: "v = (url, name)" "s = (c, ts)" by (cases v, cases s)
  show ?thesis
  proof (cases "map_has (ct_mirrors c) (volKey url name)")
    case True
    then show ?thesis using ok by (simp add: v client_volume_def)
  next
    case False
    then show ?thesis using ok iv_ok_set [of ts "Mirror_list (drop_last_slash (drop_last_slash url))"]
      by (auto simp: v client_volume_def mirror_timer_def timers_of_def map_set_fresh mirror_ids_def map_has_fst
          setInterval_def)
  qed
qed

interpretation volumes: event_invariant client_volume "\<lambda>_ _. True" "\<lambda>s. s = client_start no_intervals" timers_of
  by unfold_locales (simp_all add: timers_start timers_volume)

text \<open>
  C36. Destroying a client clears its own timers only: the interval of the mirror manager of every volume that was
  opened stays active, and goes on asking the server for its mirrors.
\<close>

theorem destroy_leaves_mirror_timers:
  "map fst (iv_active (snd (client_destroy (client_life vols)))) = mirror_ids (fst (client_life vols))"
proof -
  obtain c ts where s: "client_life vols = (c, ts)" by fastforce
  have "timers_of (c, ts)" unfolding s [symmetric] client_life_def by (rule volumes.runs) simp_all
  then have ok: "distinct (ct_cleanup c # mirror_ids c)" "map fst (iv_active ts) = ct_cleanup c # mirror_ids c"
    and t: "ct_tracker c = None"
    by (auto simp: timers_of_def iv_ok_def)
  have "map fst (filter (\<lambda>(j, p). j \<noteq> ct_cleanup c) (iv_active ts)) = filter (\<lambda>j. j \<noteq> ct_cleanup c) (map fst (iv_active ts))"
    by (simp add: filter_map comp_def split_def)
  also have "\<dots> = mirror_ids c" using ok by (auto simp: filter_id_conv)
  finally show ?thesis by (simp add: s client_destroy_def tracker_destroy_def t clearInterval_def)
qed

lemma two_volumes_leak:
  "length (iv_active (snd (client_destroy (client_life [(''http://h'', ''primary''), (''http://h/'', ''primary''), (''http://h'', ''sys'')])))) = 2"
  by code_simp

text \<open>The method that would clear such an interval, \<open>MirrorManager.destroy\<close>, is called nowhere.\<close>

lemma mirror_destroy_clears: "iv_ok ts \<Longrightarrow> mirror_timer url ts = (t, ts') \<Longrightarrow> iv_active (mirror_destroy t ts') = iv_active ts"
  by (auto simp: mirror_timer_def mirror_destroy_def setInterval_def clearInterval_def iv_ok_def list_all_iff filter_id_conv
      split: if_splits)

section \<open>Widgets that refresh themselves\<close>

text \<open>
  \<open>startAutoRefresh\<close> runs when the first load has settled, \<open>stopAutoRefresh\<close> when the widget is
  destroyed.
\<close>

definition stopAutoRefresh :: "nat option \<times> intervals \<Rightarrow> nat option \<times> intervals" where
  "stopAutoRefresh = (\<lambda>(t, ts). case t of None \<Rightarrow> (None, ts) | Some i \<Rightarrow> (None, clearInterval i ts))"

definition startAutoRefresh :: "nat option \<times> intervals \<Rightarrow> nat option \<times> intervals" where
  "startAutoRefresh s = (case stopAutoRefresh s of (t, ts) \<Rightarrow> (case setInterval Auto_refresh ts of (i, ts') \<Rightarrow> (Some i, ts')))"

datatype widget_event = Loaded | Destroyed

fun refresh_event :: "widget_event \<Rightarrow> nat option \<times> intervals \<Rightarrow> nat option \<times> intervals" where
  "refresh_event Loaded s = startAutoRefresh s"
| "refresh_event Destroyed s = stopAutoRefresh s"

definition one_refresh :: "nat option \<times> intervals \<Rightarrow> bool" where
  "one_refresh = (\<lambda>(t, ts). iv_ok ts \<and> iv_active ts = (case t of None \<Rightarrow> [] | Some i \<Rightarrow> [(i, Auto_refresh)]))"

interpretation refresher: event_invariant refresh_event "\<lambda>_ _. True" "\<lambda>s. s = (None, no_intervals)" one_refresh
proof
  show "one_refresh s" if "s = (None, no_intervals)" for s
    using that by (simp add: one_refresh_def) (simp add: no_intervals_def)
  show "one_refresh (refresh_event e s)" if "one_refresh s" for e s
    using that
    by (cases e; cases s)
      (auto simp: one_refresh_def startAutoRefresh_def stopAutoRefresh_def setInterval_def clearInterval_def iv_ok_def
        split: option.splits)
qed

text \<open>
  A widget has never more than one interval, and none after it was destroyed last. Closed before its first load
  has settled it keeps one for ever: the load starts it afterwards.
\<close>

theorem refresh_timers:
  shows "length (iv_active (snd (fold refresh_event es (None, no_intervals)))) \<le> 1"
    and "iv_active (snd (fold refresh_event (es @ [Destroyed]) (None, no_intervals))) = []"
    and "length (iv_active (snd (fold refresh_event [Destroyed, Loaded] (None, no_intervals)))) = 1"
proof -
  let ?s = "fold refresh_event es (None, no_intervals)"
  have ok: "one_refresh ?s" by (rule refresher.runs) simp_all
  then show "length (iv_active (snd ?s)) \<le> 1" by (cases ?s) (simp add: one_refresh_def split: option.splits)
  show "iv_active (snd (fold refresh_event (es @ [Destroyed]) (None, no_intervals))) = []"
    using ok by (cases ?s) (auto simp: one_refresh_def stopAutoRefresh_def clearInterval_def split: option.splits)
  show "length (iv_active (snd (fold refresh_event [Destroyed, Loaded] (None, no_intervals)))) = 1" by code_simp
qed

section \<open>Objects of which there is one\<close>

text \<open>
  A \<open>GimbalClient\<close>: its server and the \<open>Volume\<close> objects it has handed out, by name; objects are numbered as they
  are made. The module keeps one client, and the overlay asks for it.
\<close>

record gimbal =
  gb_serverUrl :: string
  gb_volumes :: "(string \<times> nat) list"
  gb_next :: nat

definition new_gimbal :: "string option \<Rightarrow> string option \<Rightarrow> gimbal" where
  "new_gimbal gritsUrl origin =
     \<lparr>gb_serverUrl = (case gritsUrl of
          Some u \<Rightarrow> if u \<noteq> [] then u else or_else origin ''http://localhost:8080''
        | None \<Rightarrow> or_else origin ''http://localhost:8080''),
      gb_volumes = [], gb_next = 0\<rparr>"

definition gb_volume :: "string \<Rightarrow> gimbal \<Rightarrow> nat \<times> gimbal" where
  "gb_volume name g =
     (case map_get (gb_volumes g) name of
        Some v \<Rightarrow> (v, g)
      | None \<Rightarrow> (gb_next g, g\<lparr>gb_volumes := map_set name (gb_next g) (gb_volumes g), gb_next := Suc (gb_next g)\<rparr>))"

definition initGimbal :: "gimbal \<Rightarrow> gimbal option \<Rightarrow> gimbal \<times> gimbal option" where
  "initGimbal fresh inst = (case inst of None \<Rightarrow> (fresh, Some fresh) | Some g \<Rightarrow> (g, inst))"

definition getGimbal :: "gimbal option \<Rightarrow> err + gimbal" where
  "getGimbal inst = (case inst of None \<Rightarrow> Inl (Err_Error ''GimbalClient not initialized'') | Some g \<Rightarrow> Inr g)"

definition root_path :: string where
  "root_path = volume_path ''/''"

text \<open>The overlay's own: made with the first client, its server is the page's origin.\<close>

definition overlay_gimbal :: "string \<Rightarrow> gimbal option \<Rightarrow> gimbal option \<Rightarrow> gimbal \<times> gimbal option \<times> gimbal option" where
  "overlay_gimbal origin mine inst =
     (case mine of
        Some g \<Rightarrow> (g, mine, inst)
      | None \<Rightarrow>
          (case initGimbal (new_gimbal None (Some origin)) inst of
             (g, _) \<Rightarrow> (let g' = g\<lparr>gb_serverUrl := origin\<rparr> in (g', Some g', Some g'))))"

theorem gimbal_once:
  shows "fst (initGimbal h (snd (initGimbal g None))) = g"
    and "getGimbal (snd (initGimbal g None)) = Inr g"
    and "overlay_gimbal u (fst (snd (overlay_gimbal u None inst))) (snd (snd (overlay_gimbal u None inst)))
      = overlay_gimbal u None inst"
  by (simp_all add: initGimbal_def getGimbal_def overlay_gimbal_def Let_def split: option.split prod.split)

definition volumes_apart :: "gimbal \<Rightarrow> bool" where
  "volumes_apart g \<longleftrightarrow> distinct (map snd (gb_volumes g)) \<and> list_all (\<lambda>(n, v). v < gb_next g) (gb_volumes g)"

text \<open>Asked again, a client gives the same object for a volume, and different objects for different ones.\<close>

lemma volumes_apart_step: "volumes_apart g \<Longrightarrow> volumes_apart (snd (gb_volume name g))"
  by (auto simp: volumes_apart_def gb_volume_def list_all_iff map_set_fresh map_has_def split: option.split)

lemma volume_kept: "gb_volume name (snd (gb_volume name g)) = (fst (gb_volume name g), snd (gb_volume name g))"
  by (simp add: gb_volume_def split: option.split)

text \<open>
  \<open>path\<close> of a volume makes a path without the name of the volume, so that a path asked of any volume is one of the
  volume primary, unless it names its volume itself.
\<close>

theorem path_forgets_volume:
  assumes "\<not> starts_with ''//'' p"
  shows "resolvePath (volume_path p) = (''primary'', volume_path p)"
proof -
  have "\<not> starts_with ''//'' (volume_path p)" using assms by (cases p) (auto simp: volume_path_def)
  then have "resolvePath (volume_path p) = (''primary'', volume_path (volume_path p))" by (rule resolvePath_primary)
  then show ?thesis by (simp add: volume_path_def)
qed

end
