(* ===== verification/Widgets.thy ===== *)
theory Widgets
  imports Tools_Volume "HOL-Library.Multiset"
begin

text \<open>
  What the widgets of the shell share: handlers that await operations of the client between changes of the
  widget's own state, and the sorting of \<open>Array.prototype.sort\<close>.
\<close>

section \<open>Handlers of a widget\<close>

text \<open>The state of the client and the one of the widget, side by side.\<close>

type_synonym ('s, 'w, 'a) wprog = "('s \<times> 'w, 'a) aprog"

definition on_api :: "('s, 'a) aprog \<Rightarrow> ('s, 'w, 'a) wprog" where
  "on_api m = (\<lambda>(s, w). map_option (\<lambda>(r, s'). (r, (s', w))) (m s))"

definition on_widget :: "('w \<Rightarrow> 'w) \<Rightarrow> ('s, 'w, unit) wprog" where
  "on_widget f = (\<lambda>(s, w). Some (Inr (), (s, f w)))"

definition with_widget :: "('w \<Rightarrow> ('s, 'w, 'a) wprog) \<Rightarrow> ('s, 'w, 'a) wprog" where
  "with_widget f = (\<lambda>(s, w). f w (s, w))"

text \<open>A change of the widget that may throw half-way, keeping what it has changed.\<close>

definition change_widget :: "('w \<Rightarrow> (err + 'a) \<times> 'w) \<Rightarrow> ('s, 'w, 'a) wprog" where
  "change_widget f = (\<lambda>(s, w). case f w of (r, w') \<Rightarrow> Some (r, (s, w')))"

lemma on_api_run: "on_api m (s, w) = map_option (\<lambda>(r, s'). (r, (s', w))) (m s)"
  by (simp add: on_api_def)

lemma on_widget_run: "on_widget f (s, w) = Some (Inr (), (s, f w))"
  by (simp add: on_widget_def)

lemma with_widget_run: "with_widget f (s, w) = f w (s, w)"
  by (simp add: with_widget_def)

lemma change_widget_run: "change_widget f (s, w) = Some (fst (f w), (s, snd (f w)))"
  by (simp add: change_widget_def split: prod.split)

lemmas wprog_simps = on_api_run on_widget_run with_widget_run change_widget_run abind_def acatch_def aret_def

lemma keeps_on_api: "keeps I m Q \<Longrightarrow> keeps (\<lambda>(s, w). I s) (on_api m) Q"
  unfolding keeps_def on_api_def by fastforce

text \<open>Volumes that answer everything and hold nothing, for examples.\<close>

definition still_api :: "unit vapi" where
  "still_api = \<lparr>va_volume = \<lambda>v. aret v, va_lookup = \<lambda>key p. athrow (Err_Error ''not found''),
     va_fileForCID = \<lambda>key c. athrow (Err_Error ''not found''), va_get = \<lambda>key p. athrow (Err_Error ''not found''),
     va_json = \<lambda>key p. aret JNull, va_children = \<lambda>key f. aret [], va_put = \<lambda>key b. aret [], va_mkfile = \<lambda>key c n. aret [],
     va_mkdir = \<lambda>key es. aret [], va_multiLink = \<lambda>key ls. aret JNull, va_whoami = aret JNull, va_login = \<lambda>u p a b. aret (),
     va_logout = \<lambda>u. aret (), va_now = aret 0, va_random = aret []\<rparr>"

section \<open>Sorting\<close>

text \<open>
  \<open>sort\<close> with a comparison, given by \<open>le\<close> (\<open>le x y\<close>: not after), is stable: an element goes in
  front of the ones it is not after. With a comparison that is no order JavaScript leaves the result open.
\<close>

fun place_in :: "('a \<Rightarrow> 'a \<Rightarrow> bool) \<Rightarrow> 'a \<Rightarrow> 'a list \<Rightarrow> 'a list" where
  "place_in le x [] = [x]"
| "place_in le x (y # ys) = (if le x y then x # y # ys else y # place_in le x ys)"

definition js_sort :: "('a \<Rightarrow> 'a \<Rightarrow> bool) \<Rightarrow> 'a list \<Rightarrow> 'a list" where
  "js_sort le xs = foldr (place_in le) xs []"

definition preorder :: "('a \<Rightarrow> 'a \<Rightarrow> bool) \<Rightarrow> bool" where
  "preorder le \<longleftrightarrow> (\<forall>x y. le x y \<or> le y x) \<and> (\<forall>x y z. le x y \<longrightarrow> le y z \<longrightarrow> le x z)"

lemma set_place_in [simp]: "set (place_in le x ys) = insert x (set ys)"
  by (induction ys) auto

lemma mset_place_in: "mset (place_in le x ys) = add_mset x (mset ys)"
  by (induction ys) auto

lemma mset_js_sort [simp]: "mset (js_sort le xs) = mset xs"
  by (induction xs) (simp_all add: js_sort_def mset_place_in)

lemma set_js_sort [simp]: "set (js_sort le xs) = set xs"
  by (metis mset_js_sort set_mset_mset)

lemma length_js_sort [simp]: "length (js_sort le xs) = length xs"
  by (metis mset_js_sort size_mset)

lemma sorted_place_in: "preorder le \<Longrightarrow> sorted_wrt le ys \<Longrightarrow> sorted_wrt le (place_in le x ys)"
  by (induction ys) (auto simp: preorder_def)

lemma sorted_js_sort: "preorder le \<Longrightarrow> sorted_wrt le (js_sort le xs)"
  by (induction xs) (simp_all add: js_sort_def sorted_place_in)

lemma place_in_front: "(\<And>y. y \<in> set ys \<Longrightarrow> le x y) \<Longrightarrow> place_in le x ys = x # ys"
  by (cases ys) auto

lemma js_sort_sorted: "sorted_wrt le xs \<Longrightarrow> js_sort le xs = xs"
  by (induction xs) (simp_all add: js_sort_def place_in_front)

lemma distinct_js_sort: "distinct (map f (js_sort le xs)) = distinct (map f xs)"
  by (metis mset_eq_imp_distinct_iff mset_js_sort mset_map)

end
