(* ===== verification/Inbox.thy ===== *)
theory Inbox
  imports Widgets
begin

text \<open>
  The inbox widget (inbox/gwm-widget.js): the table of messages with the rows shown for them, loading and
  refreshing it from the directory of the user, previews, selection, the detail pane and deletion.

  An entry of the code is an object that the table, its row's listeners and its pending preview share, so
  entries live in a store and everything else holds their number. The list element is the list of its
  children. Dates are read and written by the browser in its time zone: a parameter.
\<close>

section \<open>Times\<close>

record clock =
  ck_parse :: "jsv \<Rightarrow> int option"
  ck_day :: "int \<Rightarrow> int \<times> int \<times> int"
  ck_time :: "int \<Rightarrow> nat \<times> nat"
  ck_weekday :: "int \<Rightarrow> string"
  ck_monthday :: "int \<Rightarrow> string"
  ck_full :: "int \<Rightarrow> string"

definition hour_ms :: int where "hour_ms = 3600000"

definition formatTimestamp :: "clock \<Rightarrow> int \<Rightarrow> jsv \<Rightarrow> string" where
  "formatTimestamp ck now ts =
     (case ck_parse ck ts of
        None \<Rightarrow> []
      | Some d \<Rightarrow>
          (let diffMs = now - d in
           if ck_day ck d = ck_day ck now \<or> diffMs < 5 * hour_ms
           then (case ck_time ck d of (h, m) \<Rightarrow> pad_left 2 (nat_str h) @ '':'' @ pad_left 2 (nat_str m))
           else if diffMs < 5 * 24 * hour_ms then ck_weekday ck d
           else ck_monthday ck d))"

section \<open>State\<close>

record ientry =
  ie_name :: string
  ie_file :: gfile
  ie_content :: "jsv option"
  ie_sender :: string
  ie_subject :: string
  ie_time :: string
  ie_selected :: bool

text \<open>A child of the list element: the row of an entry, or a message with its class.\<close>

datatype item = Row nat | Note string string

record inbox =
  ib_store :: "ientry list"
  ib_messages :: "(string \<times> nat) list"
  ib_list :: "item list"
  ib_username :: "string option"
  ib_dir :: "string option"
  ib_selectedKey :: "string option"
  ib_visible :: bool
  ib_detail :: string
  ib_height :: rat
  ib_toasts :: "string list"

definition new_inbox :: inbox where
  "new_inbox = \<lparr>ib_store = [], ib_messages = [], ib_list = [], ib_username = None, ib_dir = None, ib_selectedKey = None,
     ib_visible = False, ib_detail = [], ib_height = 0, ib_toasts = []\<rparr>"

definition upd_entry :: "nat \<Rightarrow> (ientry \<Rightarrow> ientry) \<Rightarrow> inbox \<Rightarrow> inbox" where
  "upd_entry i f w = w\<lparr>ib_store := (ib_store w)[i := f (ib_store w ! i)]\<rparr>"

definition entry_of :: "inbox \<Rightarrow> nat \<Rightarrow> ientry" where
  "entry_of w i = ib_store w ! i"

text \<open>\<open>buildRow\<close>: the entry with the texts of its row; its preview is started and runs below.\<close>

definition buildRow :: "string \<Rightarrow> gfile \<Rightarrow> inbox \<Rightarrow> nat \<times> inbox" where
  "buildRow name file w =
     (length (ib_store w),
      w\<lparr>ib_store := ib_store w @ [\<lparr>ie_name = name, ie_file = file, ie_content = None, ie_sender = ''...'', ie_subject = [],
          ie_time = [], ie_selected = False\<rparr>]\<rparr>)"

definition append_item :: "item \<Rightarrow> inbox \<Rightarrow> inbox" where
  "append_item x w = w\<lparr>ib_list := ib_list w @ [x]\<rparr>"

definition remove_row :: "nat \<Rightarrow> inbox \<Rightarrow> inbox" where
  "remove_row i w = w\<lparr>ib_list := filter (\<lambda>x. x \<noteq> Row i) (ib_list w)\<rparr>"

section \<open>The detail pane\<close>

definition MIN_PANE :: rat where "MIN_PANE = 60"

text \<open>\<open>esc\<close>: only strings are shown.\<close>

fun esc_char :: "char \<Rightarrow> string" where
  "esc_char c =
     (if c = CHR ''&'' then ''&amp;'' else if c = CHR ''<'' then ''&lt;'' else if c = CHR ''>'' then ''&gt;''
      else if c = CHR 0x22 then ''&quot;'' else if c = CHR 0x27 then ''&#39;'' else [c])"

fun esc :: "jsv \<Rightarrow> string" where
  "esc (JStr s) = concat (map esc_char s)"
| "esc v = []"

definition div_open :: "string \<Rightarrow> string" where
  "div_open cls = ''<div class='' @ [CHR 0x22] @ cls @ [CHR 0x22] @ ''>''"

definition div_end :: string where "div_end = ''</div>''"

definition hr_sep :: string where
  "hr_sep = ''<hr class='' @ [CHR 0x22] @ ''gi-detail-sep'' @ [CHR 0x22] @ ''>''"

definition labelled :: "string \<Rightarrow> string \<Rightarrow> string" where
  "labelled label value =
     div_open ''gi-detail-label'' @ label @ div_end @ div_open ''gi-detail-value'' @ value @ div_end"

definition js_or :: "jsv \<Rightarrow> jsv \<Rightarrow> jsv" where
  "js_or a b = (if truthy a then a else b)"

text \<open>The HTML of a message: \<open>bodyHtml\<close> goes in as it is.\<close>

definition renderDetail :: "clock \<Rightarrow> jsv \<Rightarrow> string" where
  "renderDetail ck data =
     div_open ''gi-detail-header''
     @ labelled ''From:'' (esc (js_or (js_prop data ''from'') (JStr ''(anonymous)'')))
     @ (if truthy (js_prop data ''to'') then labelled ''To:'' (esc (js_prop data ''to'')) else [])
     @ (if truthy (js_prop data ''subject'') then labelled ''Subject:'' (esc (js_prop data ''subject'')) else [])
     @ (if truthy (js_prop data ''timestamp'')
        then (case ck_parse ck (js_prop data ''timestamp'') of
                None \<Rightarrow> [] | Some d \<Rightarrow> labelled ''Date:'' (esc (JStr (ck_full ck d))))
        else [])
     @ div_end @ hr_sep
     @ div_open ''gi-detail-body''
     @ (if truthy (js_prop data ''bodyHtml'') then js_string (js_prop data ''bodyHtml'')
        else esc (js_or (js_or (js_prop data ''body'') (js_or (js_prop data ''bodyText'') (JStr [])))
                        (js_or (js_prop data ''bodyMarkdown'') (JStr []))))
     @ div_end"

text \<open>\<open>avail\<close> is the measured height of the widget without the splitter.\<close>

definition showDetail :: "clock \<Rightarrow> rat \<Rightarrow> jsv \<Rightarrow> inbox \<Rightarrow> inbox" where
  "showDetail ck avail data w =
     (let w1 = (if ib_visible w then w else w\<lparr>ib_visible := True, ib_height := min 240 (avail * 4 / 10)\<rparr>)
      in w1\<lparr>ib_detail := renderDetail ck data\<rparr>)"

definition hideDetail :: "inbox \<Rightarrow> inbox" where
  "hideDetail w = w\<lparr>ib_visible := False, ib_detail := [], ib_height := 0\<rparr>"

text \<open>A move of the splitter from \<open>startY\<close>, when the pane was \<open>startH\<close> high.\<close>

definition splitter_move :: "rat \<Rightarrow> rat \<Rightarrow> rat \<Rightarrow> rat \<Rightarrow> inbox \<Rightarrow> inbox" where
  "splitter_move startY startH y avail w =
     w\<lparr>ib_height := max MIN_PANE (min (startH - (y - startY)) (avail - MIN_PANE))\<rparr>"

definition is_selected :: "inbox \<Rightarrow> string \<Rightarrow> bool" where
  "is_selected w name \<longleftrightarrow> ib_selectedKey w = Some name"

text \<open>A name that is gone: the selection and the pane go with it.\<close>

definition deselect :: "string \<Rightarrow> inbox \<Rightarrow> inbox" where
  "deselect name w = (if is_selected w name then hideDetail (w\<lparr>ib_selectedKey := None\<rparr>) else w)"

definition selectEntry :: "clock \<Rightarrow> rat \<Rightarrow> nat \<Rightarrow> inbox \<Rightarrow> inbox" where
  "selectEntry ck avail i w =
     (let w1 = (case ib_selectedKey w of
                  None \<Rightarrow> w
                | Some k \<Rightarrow> if k = [] then w
                            else case map_get (ib_messages w) k of
                              None \<Rightarrow> w | Some j \<Rightarrow> upd_entry j (\<lambda>en. en\<lparr>ie_selected := False\<rparr>) w);
          w2 = upd_entry i (\<lambda>en. en\<lparr>ie_selected := True\<rparr>) (w1\<lparr>ib_selectedKey := Some (ie_name (entry_of w1 i))\<rparr>)
      in case ie_content (entry_of w2 i) of None \<Rightarrow> w2 | Some data \<Rightarrow> showDetail ck avail data w2)"

section \<open>Previews\<close>

text \<open>\<open>data.body.slice(0, 60).replace(/\n.*/, '').trim()\<close>\<close>

definition cut_line :: "string \<Rightarrow> string" where
  "cut_line s =
     (case dropWhile (\<lambda>c. c \<noteq> CHR 0x0A) s of
        [] \<Rightarrow> s
      | _ # r \<Rightarrow> takeWhile (\<lambda>c. c \<noteq> CHR 0x0A) s @ dropWhile (\<lambda>c. \<not> line_end c) r)"

definition preview_of :: "jsv \<Rightarrow> err + string" where
  "preview_of data =
     (let subject = js_prop data ''subject''; body = js_prop data ''body'' in
      if truthy subject then Inr (js_string subject)
      else if \<not> truthy body then Inr []
      else case body of
        JStr s \<Rightarrow> Inr (trim (cut_line (take 60 s)))
      | JArr vs \<Rightarrow> Inl (Err_Type ''data.body.slice(...).replace is not a function'')
      | _ \<Rightarrow> Inl (Err_Type ''data.body.slice is not a function''))"

definition preview_failed :: "nat \<Rightarrow> inbox \<Rightarrow> inbox" where
  "preview_failed i = upd_entry i (\<lambda>en. en\<lparr>ie_sender := ''(error)'', ie_subject := []\<rparr>)"

text \<open>What a preview does with the JSON it has read; a body that cannot be cut ends in the \<open>catch\<close>.\<close>

definition show_preview :: "clock \<Rightarrow> int \<Rightarrow> nat \<Rightarrow> jsv \<Rightarrow> inbox \<Rightarrow> inbox" where
  "show_preview ck now i data w =
     (case data of
        JObj kvs \<Rightarrow>
          (let w1 = upd_entry i (\<lambda>en. en\<lparr>ie_content := Some data,
                      ie_sender := js_string (js_or (js_prop data ''from'') (JStr ''(anonymous)''))\<rparr>) w
           in case preview_of data of
                Inl e \<Rightarrow> preview_failed i w1
              | Inr preview \<Rightarrow> upd_entry i (\<lambda>en. en\<lparr>ie_subject := preview,
                                 ie_time := formatTimestamp ck now (js_prop data ''timestamp'')\<rparr>) w1)
      | _ \<Rightarrow> upd_entry i (\<lambda>en. en\<lparr>ie_sender := ''(invalid)'', ie_subject := ''(not a JSON message)''\<rparr>) w)"

definition loadMessagePreview :: "'s vapi \<Rightarrow> string \<Rightarrow> clock \<Rightarrow> int \<Rightarrow> nat \<Rightarrow> ('s, inbox, unit) wprog" where
  "loadMessagePreview va key ck now i =
     with_widget (\<lambda>w.
       acatch (abind (on_api (va_json va key (contentCID (ie_file (entry_of w i))))) (\<lambda>data. on_widget (show_preview ck now i data)))
         (\<lambda>e. on_widget (preview_failed i)))"

section \<open>Loading the list\<close>

text \<open>\<open>identities?.[0]?.username || null\<close>\<close>

definition first_elem :: "jsv \<Rightarrow> jsv" where
  "first_elem v = (case v of JArr (x # xs) \<Rightarrow> x | JObj kvs \<Rightarrow> js_prop v ''0'' | _ \<Rightarrow> JUndef)"

definition username_of :: "jsv \<Rightarrow> string option" where
  "username_of identities =
     (let u = js_prop (first_elem identities) ''username'' in if truthy u then Some (js_string u) else None)"

definition same_file :: "gfile \<Rightarrow> gfile \<Rightarrow> bool" where
  "same_file f g \<longleftrightarrow> gf_cid f = gf_cid g"

text \<open>The entries of the new table: an old one when its file is unchanged, or a new row.\<close>

fun load_rows :: "(string \<times> gfile) list \<Rightarrow> (string \<times> nat) list \<Rightarrow> (string \<times> nat) list \<Rightarrow> inbox \<Rightarrow> (string \<times> nat) list \<times> inbox" where
  "load_rows [] old new w = (new, w)"
| "load_rows ((name, file) # kids) old new w =
     (let (i, w1) = (case map_get old name of
            Some j \<Rightarrow> if same_file (ie_file (entry_of w j)) file then (j, w) else buildRow name file w
          | None \<Rightarrow> buildRow name file w)
      in load_rows kids old (map_set name i new) (append_item (Row i) w1))"

definition load_list :: "(string \<Rightarrow> string \<Rightarrow> bool) \<Rightarrow> (string \<times> gfile) list \<Rightarrow> inbox \<Rightarrow> inbox" where
  "load_list locale_le kids w =
     (let sorted_kids = js_sort (\<lambda>x y. locale_le (fst y) (fst x)) (filter (\<lambda>(_, f). \<not> isDir f) kids);
          (new, w1) = load_rows sorted_kids (ib_messages w) [] w;
          w2 = w1\<lparr>ib_messages := new\<rparr>;
          w3 = (if sorted_kids = [] then append_item (Note ''gi-empty'' ''(empty)'') w2 else w2)
      in case ib_selectedKey w3 of
           None \<Rightarrow> w3
         | Some k \<Rightarrow> if k \<noteq> [] \<and> \<not> map_has (ib_messages w3) k then hideDetail (w3\<lparr>ib_selectedKey := None\<rparr>) else w3)"

definition inbox_note :: "string \<Rightarrow> string \<Rightarrow> ('s, inbox, unit) wprog" where
  "inbox_note cls msg = on_widget (append_item (Note cls msg))"

text \<open>\<open>load\<close> from the user name on: an exception of \<open>whoami\<close> is the only one that leaves it.\<close>

definition load_messages :: "'s vapi \<Rightarrow> (string \<Rightarrow> string \<Rightarrow> bool) \<Rightarrow> string \<Rightarrow> ('s, inbox, unit) wprog" where
  "load_messages va locale_le dir =
     abind (on_api (va_volume va ''primary'')) (\<lambda>key.
     abind (atry (on_api (va_lookup va key dir))) (\<lambda>r.
       case r of
         Inl e \<Rightarrow> inbox_note ''gi-error'' (''cannot open inbox: '' @ err_message e)
       | Inr rootFile \<Rightarrow>
           abind (atry (on_api (va_children va key rootFile))) (\<lambda>r2.
             case r2 of
               Inl e \<Rightarrow> inbox_note ''gi-error'' (err_message e)
             | Inr kids \<Rightarrow> on_widget (load_list locale_le kids))))"

definition load_inbox :: "'s vapi \<Rightarrow> (string \<Rightarrow> string \<Rightarrow> bool) \<Rightarrow> ('s, inbox, unit) wprog" where
  "load_inbox va locale_le =
     abind (on_widget (\<lambda>w. w\<lparr>ib_list := []\<rparr>)) (\<lambda>_.
     abind (with_widget (\<lambda>w.
       case ib_username w of
         Some u \<Rightarrow> aret (ib_dir w)
       | None \<Rightarrow>
           abind (on_api (va_whoami va)) (\<lambda>identities.
             case username_of identities of
               None \<Rightarrow> abind (inbox_note ''gi-error'' ''not logged in'') (\<lambda>_. aret None)
             | Some u \<Rightarrow>
                 (let dir = ''home/'' @ u @ ''/local/inbox'' in
                  abind (on_widget (\<lambda>w. w\<lparr>ib_username := Some u, ib_dir := Some dir\<rparr>)) (\<lambda>_. aret (Some dir)))))) (\<lambda>d.
       case d of None \<Rightarrow> aret () | Some dir \<Rightarrow> load_messages va locale_le dir))"

section \<open>Refreshing it\<close>

text \<open>The first loop: new and changed files get a new entry, whose row is not in the list yet.\<close>

fun scan_kids :: "clock \<Rightarrow> int \<Rightarrow> (string \<times> gfile) list \<Rightarrow> (string \<times> nat) list \<Rightarrow> inbox \<Rightarrow> (string \<times> nat) list \<times> inbox" where
  "scan_kids ck now [] additions w = (additions, w)"
| "scan_kids ck now ((name, f) # kids) additions w =
     (if isDir f then scan_kids ck now kids additions w
      else
        let fresh = (let (i, w1) = buildRow name f w
                     in scan_kids ck now kids (additions @ [(name, i)]) (w1\<lparr>ib_messages := map_set name i (ib_messages w1)\<rparr>))
        in case map_get (ib_messages w) name of
             None \<Rightarrow> fresh
           | Some j \<Rightarrow>
               if same_file (ie_file (entry_of w j)) f
               then scan_kids ck now kids additions
                      (upd_entry j (\<lambda>en. en\<lparr>ie_time := formatTimestamp ck now
                         (case ie_content en of None \<Rightarrow> JUndef | Some data \<Rightarrow> js_prop data ''timestamp'')\<rparr>) w)
               else fresh)"

text \<open>\<open>listEl.insertBefore(row, sib)\<close>: an exception when \<open>sib\<close> is no child of the list.\<close>

definition insert_before :: "item \<Rightarrow> item \<Rightarrow> item list \<Rightarrow> err + item list" where
  "insert_before x sib xs =
     (if sib \<in> set xs then Inr (takeWhile (\<lambda>y. y \<noteq> sib) xs @ x # dropWhile (\<lambda>y. y \<noteq> sib) xs)
      else Inl (Err_Error ''NotFoundError: The node before which the new node is to be inserted is not a child of this node''))"

definition insert_addition :: "string \<times> nat \<Rightarrow> inbox \<Rightarrow> (err + unit) \<times> inbox" where
  "insert_addition = (\<lambda>(name, i) w.
     case find (\<lambda>(sibName, _). sibName < name) (ib_messages w) of
       None \<Rightarrow> (Inr (), append_item (Row i) w)
     | Some (_, j) \<Rightarrow>
         (case insert_before (Row i) (Row j) (ib_list w) of
            Inl e \<Rightarrow> (Inl e, w)
          | Inr xs \<Rightarrow> (Inr (), w\<lparr>ib_list := xs\<rparr>)))"

fun drop_gone :: "string list \<Rightarrow> string list \<Rightarrow> inbox \<Rightarrow> inbox" where
  "drop_gone [] present w = w"
| "drop_gone (name # rest) present w =
     drop_gone rest present
       (if name \<in> set present then w
        else case map_get (ib_messages w) name of
          None \<Rightarrow> w
        | Some i \<Rightarrow> deselect name ((remove_row i w)\<lparr>ib_messages := map_del name (ib_messages w)\<rparr>))"

fun is_empty_note :: "item \<Rightarrow> bool" where
  "is_empty_note (Note cls msg) = (cls = ''gi-empty'')"
| "is_empty_note (Row i) = False"

definition without_empty_note :: "item list \<Rightarrow> item list" where
  "without_empty_note xs = takeWhile (\<lambda>x. \<not> is_empty_note x) xs @ drop 1 (dropWhile (\<lambda>x. \<not> is_empty_note x) xs)"

definition empty_note :: "string list \<Rightarrow> inbox \<Rightarrow> inbox" where
  "empty_note present w =
     (if present = [] \<and> ib_messages w = []
      then (if list_ex is_empty_note (ib_list w) then w else append_item (Note ''gi-empty'' ''(empty)'') w)
      else w\<lparr>ib_list := without_empty_note (ib_list w)\<rparr>)"

text \<open>\<open>newNames\<close>, in the order in which they are added.\<close>

definition file_names :: "(string \<times> gfile) list \<Rightarrow> string list" where
  "file_names kids = map fst (filter (\<lambda>(_, f). \<not> isDir f) kids)"

text \<open>The rest of a tick once the children are there; it runs without an await.\<close>

definition refresh_list :: "clock \<Rightarrow> int \<Rightarrow> (string \<times> gfile) list \<Rightarrow> inbox \<Rightarrow> (err + unit) \<times> inbox" where
  "refresh_list ck now kids w =
     (let currentNames = map fst (ib_messages w);
          (additions, w1) = scan_kids ck now kids [] w
      in pbind (for_each additions insert_addition)
           (\<lambda>_. modify (\<lambda>w2. empty_note (file_names kids) (drop_gone currentNames (file_names kids) w2))) w1)"

definition refreshTick :: "'s vapi \<Rightarrow> clock \<Rightarrow> int \<Rightarrow> ('s, inbox, unit) wprog" where
  "refreshTick va ck now =
     with_widget (\<lambda>w.
       case (ib_dir w, ib_username w) of
         (Some dir, Some u) \<Rightarrow>
           abind (on_api (va_volume va ''primary'')) (\<lambda>key.
           acatch
             (abind (on_api (va_lookup va key dir)) (\<lambda>rootFile.
              abind (on_api (va_children va key rootFile)) (\<lambda>kids.
                change_widget (refresh_list ck now kids))))
             (\<lambda>e. aret ()))
       | _ \<Rightarrow> aret ())"

section \<open>Deleting a message\<close>

definition trash :: "'s vapi \<Rightarrow> nat \<Rightarrow> ('s, inbox, unit) wprog" where
  "trash va i =
     with_widget (\<lambda>w.
       let name = ie_name (entry_of w i); dir = (case ib_dir w of None \<Rightarrow> ''null'' | Some d \<Rightarrow> d) in
       abind (atry (abind (on_api (va_volume va ''primary'')) (\<lambda>key.
                    on_api (va_multiLink va key [lreq (dir @ ''/'' @ name) [] None ASSERT_IS_BLOB])))) (\<lambda>r.
         case r of
           Inl e \<Rightarrow> on_widget (\<lambda>w. w\<lparr>ib_toasts := ib_toasts w @ [''Failed to delete: '' @ err_message e]\<rparr>)
         | Inr _ \<Rightarrow> on_widget (\<lambda>w. deselect name ((remove_row i w)\<lparr>ib_messages := map_del name (ib_messages w)\<rparr>))))"

section \<open>A tick makes the table match the directory\<close>

text \<open>Every entry of the table is its name's, and its row is in the list or among those still to be inserted.\<close>

definition rows_ok :: "(string \<times> nat) list \<Rightarrow> inbox \<Rightarrow> bool" where
  "rows_ok todo w \<longleftrightarrow> distinct (map fst (ib_messages w))
     \<and> (\<forall>(n, i) \<in> set (ib_messages w). i < length (ib_store w) \<and> ie_name (entry_of w i) = n
          \<and> (Row i \<in> set (ib_list w) \<or> (n, i) \<in> set todo))"

abbreviation table_ok :: "inbox \<Rightarrow> bool" where "table_ok w \<equiv> rows_ok [] w"

definition has_file :: "inbox \<Rightarrow> string \<Rightarrow> gfile \<Rightarrow> bool" where
  "has_file w n f \<longleftrightarrow> (\<exists>i. map_get (ib_messages w) n = Some i \<and> same_file (ie_file (entry_of w i)) f)"

lemma rows_okD:
  assumes "rows_ok todo w" and "map_get (ib_messages w) n = Some i"
  shows "i < length (ib_store w)" and "ie_name (entry_of w i) = n" and "Row i \<in> set (ib_list w) \<or> (n, i) \<in> set todo"
  using assms map_of_SomeD [OF assms(2)] by (auto simp: rows_ok_def)

lemma rows_ok_iff: "rows_ok todo w \<longleftrightarrow> distinct (map fst (ib_messages w))
     \<and> (\<forall>n i. map_get (ib_messages w) n = Some i \<longrightarrow> i < length (ib_store w) \<and> ie_name (entry_of w i) = n
          \<and> (Row i \<in> set (ib_list w) \<or> (n, i) \<in> set todo))"
  unfolding rows_ok_def by (auto simp: map_of_eq_Some_iff) blast

lemma entry_upd: "entry_of (upd_entry j f w) i = (if i = j \<and> j < length (ib_store w) then f (entry_of w i) else entry_of w i)"
  by (cases "j < length (ib_store w)") (auto simp: entry_of_def upd_entry_def nth_list_update list_update_beyond)

lemma upd_entry_sel [simp]:
  "ib_messages (upd_entry j f w) = ib_messages w" "ib_list (upd_entry j f w) = ib_list w"
  "length (ib_store (upd_entry j f w)) = length (ib_store w)"
  "ib_selectedKey (upd_entry j f w) = ib_selectedKey w" "ib_visible (upd_entry j f w) = ib_visible w"
  "ib_detail (upd_entry j f w) = ib_detail w"
  by (simp_all add: upd_entry_def)

lemma entry_selected: "entry_of (w\<lparr>ib_selectedKey := k\<rparr>) i = entry_of w i"
  by (simp add: entry_of_def)

text \<open>A new entry under a name.\<close>

definition add_entry :: "string \<Rightarrow> gfile \<Rightarrow> inbox \<Rightarrow> inbox" where
  "add_entry n f w = (let (i, w1) = buildRow n f w in w1\<lparr>ib_messages := map_set n i (ib_messages w1)\<rparr>)"

lemma add_entry_sel [simp]:
  "ib_messages (add_entry n f w) = map_set n (length (ib_store w)) (ib_messages w)" "ib_list (add_entry n f w) = ib_list w"
  "length (ib_store (add_entry n f w)) = Suc (length (ib_store w))"
  by (simp_all add: add_entry_def buildRow_def)

lemma entry_add: "entry_of (add_entry n f w) i =
   (if i < length (ib_store w) then entry_of w i
    else if i = length (ib_store w) then entry_of (add_entry n f w) (length (ib_store w)) else entry_of (add_entry n f w) i)"
  by (simp add: entry_of_def add_entry_def buildRow_def nth_append)

lemma entry_added [simp]: "ie_name (entry_of (add_entry n f w) (length (ib_store w))) = n"
  "ie_file (entry_of (add_entry n f w) (length (ib_store w))) = f"
  by (simp_all add: entry_of_def add_entry_def buildRow_def)

lemma entry_kept: "i < length (ib_store w) \<Longrightarrow> entry_of (add_entry n f w) i = entry_of w i"
  by (simp add: entry_add)

lemma rows_ok_add: "rows_ok todo w \<Longrightarrow> rows_ok (todo @ [(n, length (ib_store w))]) (add_entry n f w)"
  unfolding rows_ok_iff by (auto simp: entry_kept less_Suc_eq split: if_splits)

lemma rows_ok_upd:
  "rows_ok todo w \<Longrightarrow> (\<And>en. ie_name (f en) = ie_name en) \<Longrightarrow> rows_ok todo (upd_entry j f w)"
  unfolding rows_ok_iff by (auto simp: entry_upd)

lemma scan_step:
  "\<not> isDir f \<Longrightarrow> scan_kids ck now ((n, f) # kids) adds w =
     (if \<exists>j. map_get (ib_messages w) n = Some j \<and> same_file (ie_file (entry_of w j)) f
      then scan_kids ck now kids adds (upd_entry (the (map_get (ib_messages w) n)) (\<lambda>en. en\<lparr>ie_time := formatTimestamp ck now
                         (case ie_content en of None \<Rightarrow> JUndef | Some data \<Rightarrow> js_prop data ''timestamp'')\<rparr>) w)
      else scan_kids ck now kids (adds @ [(n, length (ib_store w))]) (add_entry n f w))"
  by (auto simp: add_entry_def buildRow_def Let_def split: option.split)

definition table_names :: "inbox \<Rightarrow> string set" where
  "table_names w = fst ` set (ib_messages w)"

text \<open>What holds between the state before the first loop and the one after it.\<close>

definition scanned :: "(string \<times> gfile) list \<Rightarrow> (string \<times> nat) list \<Rightarrow> inbox \<Rightarrow> (string \<times> nat) list \<Rightarrow> inbox \<Rightarrow> bool" where
  "scanned kids adds w adds' w' \<longleftrightarrow>
     rows_ok adds' w' \<and> ib_list w' = ib_list w
     \<and> (\<exists>ns. map fst adds' = map fst adds @ ns \<and> subseq ns (file_names kids))
     \<and> table_names w' = table_names w \<union> set (file_names kids)
     \<and> (\<forall>n. n \<notin> set (file_names kids) \<longrightarrow> (\<forall>f. has_file w n f \<longrightarrow> has_file w' n f))
     \<and> (\<forall>(n, f) \<in> set kids. \<not> isDir f \<longrightarrow> has_file w' n f)"

lemma file_names_Cons [simp]:
  "file_names [] = []" "file_names ((n, f) # kids) = (if isDir f then file_names kids else n # file_names kids)"
  by (simp_all add: file_names_def)

lemma scan_scanned:
  assumes "rows_ok adds w" and "distinct (map fst kids)" and "scan_kids ck now kids adds w = (adds', w')"
  shows "scanned kids adds w adds' w'"
  using assms
proof (induction kids arbitrary: adds w)
  case Nil
  then show ?case by (simp add: scanned_def)
next
  case (Cons k kids)
  obtain n f where k: "k = (n, f)" by (cases k)
  have fresh: "n \<notin> set (file_names kids)" using Cons.prems(2) k by (auto simp: file_names_def)
  show ?case
  proof (cases "isDir f")
    case True
    then show ?thesis using Cons.IH [of adds w] Cons.prems k by (simp add: scanned_def)
  next
    case False
    note step = scan_step [OF False, of ck now n kids adds w]
    show ?thesis
    proof (cases "\<exists>j. map_get (ib_messages w) n = Some j \<and> same_file (ie_file (entry_of w j)) f")
      case True
      define g :: "ientry \<Rightarrow> ientry" where "g en = en\<lparr>ie_time := formatTimestamp ck now
          (case ie_content en of None \<Rightarrow> JUndef | Some data \<Rightarrow> js_prop data ''timestamp'')\<rparr>" for en
      define w1 where "w1 = upd_entry (the (map_get (ib_messages w) n)) g w"
      have files: "has_file w1 m h = has_file w m h" for m h
        by (auto simp: has_file_def w1_def g_def entry_upd)
      have "scanned kids adds w1 adds' w'"
      proof (rule Cons.IH)
        show "rows_ok adds w1" unfolding w1_def by (rule rows_ok_upd [OF Cons.prems(1)]) (simp add: g_def)
        show "scan_kids ck now kids adds w1 = (adds', w')"
          using Cons.prems(3) step True k by (simp add: w1_def g_def [abs_def])
      qed (use Cons.prems(2) in simp)
      moreover have "n \<in> table_names w" using True map_of_SomeD by (force simp: table_names_def)
      moreover have "table_names w1 = table_names w" "ib_list w1 = ib_list w" by (simp_all add: table_names_def w1_def)
      moreover have "has_file w n f" using True by (auto simp: has_file_def)
      ultimately show ?thesis using fresh False unfolding scanned_def k by (auto simp: files)
    next
      case no: False
      define w1 where "w1 = add_entry n f w"
      have keep: "has_file w1 m h" if "m \<noteq> n" "has_file w m h" for m h
        using that rows_okD(1) [OF Cons.prems(1)] by (auto simp: has_file_def w1_def entry_kept)
      have new: "has_file w1 n f" by (simp add: has_file_def w1_def same_file_def)
      have "scanned kids (adds @ [(n, length (ib_store w))]) w1 adds' w'"
      proof (rule Cons.IH)
        show "rows_ok (adds @ [(n, length (ib_store w))]) w1" unfolding w1_def by (rule rows_ok_add [OF Cons.prems(1)])
        show "scan_kids ck now kids (adds @ [(n, length (ib_store w))]) w1 = (adds', w')"
          using Cons.prems(3) step no k by (simp add: w1_def)
      qed (use Cons.prems(2) in simp)
      moreover have "table_names w1 = insert n (table_names w)"
        by (simp add: w1_def keys_map_set table_names_def)
      moreover have "ib_list w1 = ib_list w" by (simp add: w1_def)
      ultimately show ?thesis using fresh False new keep unfolding scanned_def k by auto
    qed
  qed
qed

text \<open>The second loop: an older neighbour, if there is one, is in the list already.\<close>

lemma set_insert_before:
  assumes "insert_before x sib xs = Inr ys"
  shows "set ys = insert x (set xs)"
proof -
  have ys: "ys = takeWhile (\<lambda>y. y \<noteq> sib) xs @ x # dropWhile (\<lambda>y. y \<noteq> sib) xs"
    using assms by (simp add: insert_before_def split: if_splits)
  have "set (takeWhile (\<lambda>y. y \<noteq> sib) xs @ dropWhile (\<lambda>y. y \<noteq> sib) xs) = set xs"
    by (simp only: takeWhile_dropWhile_id)
  then show ?thesis unfolding ys by (simp only: set_append list.set Un_insert_right)
qed

lemma find_in: "find P xs = Some x \<Longrightarrow> x \<in> set xs \<and> P x"
  by (induction xs) (auto split: if_splits)

lemma insert_addition_runs:
  assumes ok: "rows_ok ((n, i) # todo) w" and later: "\<forall>(m, j) \<in> set todo. n < m"
  shows "\<exists>xs. insert_addition (n, i) w = (Inr (), w\<lparr>ib_list := xs\<rparr>) \<and> set xs = insert (Row i) (set (ib_list w))"
proof (cases "find (\<lambda>(s, _). s < n) (ib_messages w)")
  case None
  then show ?thesis by (auto simp: insert_addition_def append_item_def intro: exI [where x = "ib_list w @ [Row i]"])
next
  case (Some p)
  obtain s j where p: "p = (s, j)" by (cases p)
  have "(s, j) \<in> set (ib_messages w)" and "s < n" using find_in [OF Some] p by simp_all
  then have "Row j \<in> set (ib_list w)" using ok later by (fastforce simp: rows_ok_def)
  then obtain xs where "insert_before (Row i) (Row j) (ib_list w) = Inr xs" by (auto simp: insert_before_def)
  then show ?thesis using Some p set_insert_before by (auto simp: insert_addition_def)
qed

lemma insert_all_runs:
  assumes "rows_ok todo w" and "sorted_wrt (<) (map fst todo)"
  shows "\<exists>xs. for_each todo insert_addition w = (Inr (), w\<lparr>ib_list := xs\<rparr>) \<and> rows_ok [] (w\<lparr>ib_list := xs\<rparr>)"
  using assms
proof (induction todo arbitrary: w)
  case Nil
  then show ?case by (auto simp: prog_simps intro: exI [where x = "ib_list w"])
next
  case (Cons a todo)
  obtain n i where a: "a = (n, i)" by (cases a)
  have "\<forall>(m, j) \<in> set todo. n < m" using Cons.prems(2) a by auto
  then obtain xs where xs: "insert_addition (n, i) w = (Inr (), w\<lparr>ib_list := xs\<rparr>)" "set xs = insert (Row i) (set (ib_list w))"
    using insert_addition_runs [of n i todo w] Cons.prems(1) a by auto
  have "rows_ok todo (w\<lparr>ib_list := xs\<rparr>)" using Cons.prems(1) a xs(2) by (auto simp: rows_ok_def entry_of_def)
  then obtain ys where "for_each todo insert_addition (w\<lparr>ib_list := xs\<rparr>) = (Inr (), w\<lparr>ib_list := ys\<rparr>)"
    "rows_ok [] (w\<lparr>ib_list := ys\<rparr>)"
    using Cons.IH [of "w\<lparr>ib_list := xs\<rparr>"] Cons.prems(2) by auto
  then show ?case using xs(1) a by (auto simp: pbind_def)
qed

lemma deselect_sel [simp]:
  "ib_messages (deselect n w) = ib_messages w" "ib_store (deselect n w) = ib_store w" "ib_list (deselect n w) = ib_list w"
  by (simp_all add: deselect_def hideDetail_def)

lemma rows_ok_cong:
  "ib_messages w' = ib_messages w \<Longrightarrow> ib_store w' = ib_store w \<Longrightarrow> ib_list w' = ib_list w \<Longrightarrow> rows_ok todo w' = rows_ok todo w"
  by (simp add: rows_ok_def entry_of_def)

lemma rows_ok_remove:
  assumes "table_ok w" and "map_get (ib_messages w) n = Some i"
  shows "table_ok ((remove_row i w)\<lparr>ib_messages := map_del n (ib_messages w)\<rparr>)"
proof -
  have "j \<noteq> i" if "map_get (ib_messages w) m = Some j" "m \<noteq> n" for m j
    using rows_okD(2) [OF assms(1) that(1)] rows_okD(2) [OF assms] that(2) by auto
  then show ?thesis using assms(1) unfolding rows_ok_iff
    by (auto simp: remove_row_def entry_of_def)
qed

lemma drop_gone_ok:
  assumes "table_ok w"
  shows "table_ok (drop_gone rest present w) \<and> ib_store (drop_gone rest present w) = ib_store w
    \<and> (\<forall>n. map_get (ib_messages (drop_gone rest present w)) n =
         (if n \<in> set rest \<and> n \<notin> set present then None else map_get (ib_messages w) n))"
  using assms
proof (induction rest arbitrary: w)
  case (Cons m rest)
  define w1 where "w1 = (if m \<in> set present then w
        else case map_get (ib_messages w) m of
          None \<Rightarrow> w
        | Some i \<Rightarrow> deselect m ((remove_row i w)\<lparr>ib_messages := map_del m (ib_messages w)\<rparr>))"
  have "table_ok w1" using Cons.prems rows_ok_remove [OF Cons.prems, of m]
    by (auto simp: w1_def split: option.split cong: rows_ok_cong)
      (subst rows_ok_cong [OF deselect_sel], simp)
  moreover have "ib_store w1 = ib_store w" by (auto simp: w1_def remove_row_def split: option.split)
  moreover have "map_get (ib_messages w1) n = (if n = m \<and> n \<notin> set present then None else map_get (ib_messages w) n)" for n
    by (auto simp: w1_def split: option.split)
  ultimately show ?case using Cons.IH [of w1] by (auto simp: w1_def [symmetric])
qed simp

lemma row_kept: "Row i \<in> set xs \<Longrightarrow> Row i \<in> set (without_empty_note xs)"
  unfolding without_empty_note_def by (induction xs) auto

lemma empty_note_ok:
  "table_ok w \<Longrightarrow> table_ok (empty_note present w) \<and> ib_store (empty_note present w) = ib_store w
     \<and> ib_messages (empty_note present w) = ib_messages w"
  unfolding rows_ok_def empty_note_def append_item_def entry_of_def by (auto intro: row_kept)

lemma sorted_wrt_sub: "subseq xs ys \<Longrightarrow> sorted_wrt P ys \<Longrightarrow> sorted_wrt P xs"
  by (induction rule: list_emb.induct) (auto dest: list_emb_set)

text \<open>
  C32. With the names of the directory in ascending order, as the server lists them, a tick of the refresh runs to
  its end, and then the table has exactly the files of the directory, each with its current content, and a row
  for each.
\<close>

theorem refresh_matches_listing:
  assumes "table_ok w" and "sorted_wrt (<) (map fst kids)"
  shows "\<exists>w'. refresh_list ck now kids w = (Inr (), w') \<and> table_ok w'
     \<and> table_names w' = set (file_names kids)
     \<and> list_all (\<lambda>(n, f). isDir f \<or> has_file w' n f) kids"
proof -
  obtain adds w1 where scan: "scan_kids ck now kids [] w = (adds, w1)" by fastforce
  have "distinct (map fst kids)" using assms(2) by (simp add: strict_sorted_iff)
  then have s: "scanned kids [] w adds w1" by (rule scan_scanned [OF assms(1) _ scan])
  have "sorted_wrt (<) (file_names kids)"
    unfolding file_names_def by (rule sorted_wrt_sub [OF _ assms(2)]) (intro subseq_map subseq_filter_left)
  then have "sorted_wrt (<) (map fst adds)" using s by (auto simp: scanned_def intro: sorted_wrt_sub)
  moreover have "rows_ok adds w1" using s by (simp add: scanned_def)
  ultimately obtain xs where ins: "for_each adds insert_addition w1 = (Inr (), w1\<lparr>ib_list := xs\<rparr>)"
    and ok: "table_ok (w1\<lparr>ib_list := xs\<rparr>)"
    using insert_all_runs by blast
  define w2 where "w2 = w1\<lparr>ib_list := xs\<rparr>"
  define w3 where "w3 = drop_gone (map fst (ib_messages w)) (file_names kids) w2"
  define w4 where "w4 = empty_note (file_names kids) w3"
  have w3: "table_ok w3" "ib_store w3 = ib_store w1"
    "\<And>n. map_get (ib_messages w3) n = (if n \<in> table_names w \<and> n \<notin> set (file_names kids) then None else map_get (ib_messages w1) n)"
    using drop_gone_ok [OF ok [folded w2_def], of "map fst (ib_messages w)" "file_names kids"]
    by (simp_all add: w3_def table_names_def) (simp_all add: w2_def)
  have w4: "table_ok w4" "ib_store w4 = ib_store w1" "ib_messages w4 = ib_messages w3"
    using empty_note_ok [OF w3(1)] w3(2) by (simp_all add: w4_def)
  have "refresh_list ck now kids w = (Inr (), w4)"
    by (simp add: refresh_list_def scan ins pbind_def modify_def w2_def w3_def w4_def)
  moreover have "table_names w4 = set (file_names kids)"
  proof -
    have "n \<in> table_names w4 \<longleftrightarrow> map_get (ib_messages w3) n \<noteq> None" for n
      unfolding table_names_def w4(3) by (simp only: map_of_eq_None_iff) auto
    moreover have "map_get (ib_messages w1) n \<noteq> None \<longleftrightarrow> n \<in> table_names w \<or> n \<in> set (file_names kids)" for n
      using s unfolding scanned_def table_names_def by (metis Un_iff map_of_eq_None_iff)
    ultimately have "n \<in> table_names w4 \<longleftrightarrow> n \<in> set (file_names kids)" for n
      using w3(3) [of n] by (metis option.distinct(1))
    then show ?thesis by blast
  qed
  moreover have "has_file w4 n f" if "(n, f) \<in> set kids" "\<not> isDir f" for n f
  proof -
    have "n \<in> set (file_names kids)" using that by (force simp: file_names_def)
    moreover have "has_file w1 n f" using s that by (auto simp: scanned_def)
    ultimately show ?thesis using w3(3) w4(2,3) by (auto simp: has_file_def entry_of_def)
  qed
  ultimately show ?thesis using w4(1) by (auto simp: list_all_iff)
qed

section \<open>The first load, and what the ticks make of its order\<close>

lemma update_fresh: "k \<notin> fst ` set m \<Longrightarrow> map_set k v m = m @ [(k, v)]"
  by (induction m) auto

lemma load_rows_fresh:
  assumes "distinct (map fst kids)" and "fst ` set kids \<inter> fst ` set new = {}"
  shows "\<exists>w'. load_rows kids [] new w = (new @ zip (map fst kids) [length (ib_store w)..<length (ib_store w) + length kids], w')
     \<and> ib_list w' = ib_list w @ map Row [length (ib_store w)..<length (ib_store w) + length kids]
     \<and> map ie_name (ib_store w') = map ie_name (ib_store w) @ map fst kids
     \<and> ib_messages w' = ib_messages w \<and> ib_selectedKey w' = ib_selectedKey w"
  using assms
proof (induction kids arbitrary: new w)
  case (Cons k kids)
  obtain n f where k: "k = (n, f)" by (cases k)
  define w1 where "w1 = append_item (Row (length (ib_store w))) (snd (buildRow n f w))"
  have w1: "length (ib_store w1) = Suc (length (ib_store w))" "ib_list w1 = ib_list w @ [Row (length (ib_store w))]"
    "map ie_name (ib_store w1) = map ie_name (ib_store w) @ [n]" "ib_messages w1 = ib_messages w"
    "ib_selectedKey w1 = ib_selectedKey w"
    by (simp_all add: w1_def append_item_def buildRow_def)
  have "n \<notin> fst ` set new" using Cons.prems(2) k by auto
  then have new: "map_set n (length (ib_store w)) new = new @ [(n, length (ib_store w))]" by (rule update_fresh)
  have step: "load_rows (k # kids) [] new w = load_rows kids [] (new @ [(n, length (ib_store w))]) w1"
    using k new by (simp add: w1_def buildRow_def)
  have "fst ` set kids \<inter> fst ` set (new @ [(n, length (ib_store w))]) = {}" using Cons.prems k by auto
  then obtain w' where "load_rows kids [] (new @ [(n, length (ib_store w))]) w1 =
      ((new @ [(n, length (ib_store w))]) @ zip (map fst kids) [length (ib_store w1)..<length (ib_store w1) + length kids], w')"
    "ib_list w' = ib_list w1 @ map Row [length (ib_store w1)..<length (ib_store w1) + length kids]"
    "map ie_name (ib_store w') = map ie_name (ib_store w1) @ map fst kids"
    "ib_messages w' = ib_messages w1 \<and> ib_selectedKey w' = ib_selectedKey w1"
    using Cons.IH [of "new @ [(n, length (ib_store w))]" w1] Cons.prems(1) by auto
  moreover have "[length (ib_store w)..<length (ib_store w) + length (k # kids)] =
      length (ib_store w) # [length (ib_store w1)..<length (ib_store w1) + length kids]"
    by (simp add: w1(1) upt_rec)
  ultimately show ?case using step w1 k by simp
qed simp

text \<open>What the list shows, from top to bottom: the names of the rows.\<close>

definition shown :: "inbox \<Rightarrow> string list" where
  "shown w = List.map_filter (\<lambda>x. case x of Row i \<Rightarrow> Some (ie_name (entry_of w i)) | Note c m \<Rightarrow> None) (ib_list w)"

lemma map_filter_Row: "List.map_filter (\<lambda>x. case x of Row i \<Rightarrow> Some (g i) | Note c m \<Rightarrow> None) (map Row is) = map g is"
  by (induction "is") (simp_all add: map_filter_simps)

text \<open>
  The first load of a directory shows its files and nothing else, newest first, in the order of
  \<open>localeCompare\<close>, and leaves a table in which every file has its row.
\<close>

theorem load_newest_first:
  assumes "distinct (map fst kids)" and "preorder locale_le"
  shows "let w = load_list locale_le kids (new_inbox\<lparr>ib_username := u, ib_dir := d\<rparr>) in
     table_ok w \<and> mset (shown w) = mset (file_names kids) \<and> sorted_wrt (\<lambda>x y. locale_le y x) (shown w)
     \<and> table_names w = set (file_names kids)"
proof -
  let ?w = "new_inbox\<lparr>ib_username := u, ib_dir := d\<rparr>"
  let ?le = "\<lambda>x y. locale_le (fst y) (fst x)"
  define ks where "ks = js_sort ?le (filter (\<lambda>(_, f). \<not> isDir f) kids)"
  have files: "mset (map fst ks) = mset (file_names kids)" by (simp add: ks_def file_names_def)
  then have dist: "distinct (map fst ks)"
    using assms(1) by (metis distinct_map_filter file_names_def mset_eq_imp_distinct_iff)
  have "preorder ?le" using assms(2) by (auto simp: preorder_def)
  then have sorted: "sorted_wrt (\<lambda>x y. locale_le y x) (map fst ks)"
    unfolding ks_def sorted_wrt_map by (rule sorted_js_sort)
  obtain w' where l: "load_rows ks [] [] ?w = (zip (map fst ks) [0..<length ks], w')" "ib_list w' = map Row [0..<length ks]"
    "map ie_name (ib_store w') = map fst ks" "ib_selectedKey w' = None"
    using load_rows_fresh [OF dist, of "[]" ?w] by (auto simp: new_inbox_def)
  define w where "w = load_list locale_le kids ?w"
  have w: "ib_messages w = zip (map fst ks) [0..<length ks]" "ib_store w = ib_store w'"
    "ib_list w = map Row [0..<length ks] @ (if ks = [] then [Note ''gi-empty'' ''(empty)''] else [])"
    using l by (auto simp: w_def load_list_def ks_def [symmetric] new_inbox_def append_item_def Let_def)
  have len: "length (ib_store w) = length ks" using l(3) w(2) by (metis length_map)
  have nm: "ie_name (entry_of w i) = map fst ks ! i" if "i < length ks" for i
    using l(3) that len w(2) by (metis entry_of_def nth_map)
  have "table_ok w" unfolding rows_ok_def
    using dist nm len by (auto simp: w(1,3) set_zip map_fst_zip)
  moreover have "shown w = map fst ks"
  proof -
    have "shown w = map (\<lambda>i. ie_name (entry_of w i)) [0..<length ks]"
      by (auto simp: shown_def w(3) map_filter_Row map_filter_simps)
    also have "\<dots> = map fst ks" using nm by (intro nth_equalityI) auto
    finally show ?thesis .
  qed
  moreover have "table_names w = set (map fst ks)" by (simp add: table_names_def w(1) flip: set_map)
  moreover have "set (map fst ks) = set (file_names kids)" using files by (metis set_mset_mset)
  ultimately show ?thesis using files sorted by (simp add: w_def [symmetric] Let_def)
qed

text \<open>A message file for the examples.\<close>

definition msg_file :: "string \<Rightarrow> gfile" where
  "msg_file cid = \<lparr>gf_cid = cid, gf_meta = JObj [(''type'', JStr ''blob''), (''contentHash'', JStr cid)], gf_path = None\<rparr>"

definition plain_clock :: clock where
  "plain_clock = \<lparr>ck_parse = (\<lambda>v. None), ck_day = (\<lambda>d. (0, 0, 0)), ck_time = (\<lambda>d. (0, 0)), ck_weekday = (\<lambda>d. []),
     ck_monthday = (\<lambda>d. []), ck_full = (\<lambda>d. [])\<rparr>"

definition tick :: "(string \<times> gfile) list \<Rightarrow> inbox \<Rightarrow> inbox" where
  "tick kids w = snd (refresh_list plain_clock 0 kids w)"

theorem load_newest_first_witness:
  "shown (load_list (\<le>) [(''1'', msg_file ''x''), (''2'', msg_file ''y'')] (new_inbox\<lparr>ib_username := Some ''u'', ib_dir := Some ''d''\<rparr>))
     = [''2'', ''1'']"
proof -
  let ?kids = "[(''1'', msg_file ''x''), (''2'', msg_file ''y'')]"
  let ?w = "load_list (\<le>) ?kids (new_inbox\<lparr>ib_username := Some ''u'', ib_dir := Some ''d''\<rparr>)"
  have "distinct (map fst ?kids)" by simp
  moreover have "preorder ((\<le>) :: string \<Rightarrow> string \<Rightarrow> bool)" by (auto simp: preorder_def)
  ultimately have "let w = ?w in table_ok w \<and> mset (shown w) = mset (file_names ?kids)
      \<and> sorted_wrt (\<lambda>x y. y \<le> x) (shown w) \<and> table_names w = set (file_names ?kids)"
    by (rule load_newest_first)
  then have perm: "mset (shown ?w) = mset [''1'', ''2'']" and srt: "sorted_wrt (\<lambda>x y. y \<le> x) (shown ?w)"
    by (simp_all add: Let_def msg_file_def isDir_def)
  have "length (shown ?w) = 2" using perm by (metis length_Cons list.size(3) numeral_2_eq_2 size_mset)
  then obtain a b where ab: "shown ?w = [a, b]" by (auto simp: numeral_2_eq_2 length_Suc_conv)
  then have "{#a, b#} = {#''1'', ''2''#}" and "b \<le> a" using perm srt by simp_all
  moreover have "\<not> ''2'' \<le> (''1'' :: string)" by code_simp
  ultimately show ?thesis using ab by (auto simp: add_eq_conv_ex)
qed

theorem refresh_matches_listing_witness:
  "table_names (tick [(''1'', msg_file ''x''), (''2'', msg_file ''y'')] new_inbox) = {''1'', ''2''}"
proof -
  let ?kids = "[(''1'', msg_file ''x''), (''2'', msg_file ''y'')]"
  have "table_ok new_inbox" by (simp add: rows_ok_def new_inbox_def)
  moreover have "sorted_wrt (<) (map fst ?kids)" by code_simp
  ultimately obtain w' where "refresh_list plain_clock 0 ?kids new_inbox = (Inr (), w')"
    "table_names w' = set (file_names ?kids)"
    using refresh_matches_listing by blast
  then show ?thesis by (simp add: tick_def msg_file_def isDir_def)
qed

text \<open>
  The order is lost as messages arrive: the second message to come in after the inbox was opened is put below
  the first, because a new row goes in front of the first older one in the order of the table, where additions come last.
\<close>

theorem arrivals_out_of_order:
  "let old = [(''1'', msg_file ''a''), (''2'', msg_file ''b'')];
       w0 = load_list (\<le>) old (new_inbox\<lparr>ib_username := Some ''u'', ib_dir := Some ''d''\<rparr>);
       w1 = tick (old @ [(''3'', msg_file ''c'')]) w0;
       w2 = tick (old @ [(''3'', msg_file ''c''), (''4'', msg_file ''d'')]) w1
   in shown w0 = [''2'', ''1''] \<and> shown w1 = [''3'', ''2'', ''1''] \<and> shown w2 = [''3'', ''4'', ''2'', ''1'']"
  by code_simp

text \<open>A message that is replaced by another under its name stays in the list, above or below the new one.\<close>

theorem replaced_message_stays:
  "let w0 = tick [(''1'', msg_file ''a'')] new_inbox; w1 = tick [(''1'', msg_file ''b'')] w0; w2 = tick [] w1
   in shown w1 = [''1'', ''1''] \<and> shown w2 = [''1''] \<and> ib_messages w2 = []"
  by code_simp

section \<open>The detail pane shows text as text\<close>

definition markup :: "string \<Rightarrow> string" where
  "markup s = filter (\<lambda>c. c = CHR ''<'' \<or> c = CHR ''>'' \<or> c = CHR 0x22 \<or> c = CHR 0x27) s"

text \<open>What a browser shows for the five entities.\<close>

fun unesc :: "nat \<Rightarrow> string \<Rightarrow> string" where
  "unesc 0 s = []"
| "unesc (Suc n) [] = []"
| "unesc (Suc n) (c # s) =
     (if starts_with ''&amp;'' (c # s) then CHR ''&'' # unesc n (drop 5 (c # s))
      else if starts_with ''&lt;'' (c # s) then CHR ''<'' # unesc n (drop 4 (c # s))
      else if starts_with ''&gt;'' (c # s) then CHR ''>'' # unesc n (drop 4 (c # s))
      else if starts_with ''&quot;'' (c # s) then CHR 0x22 # unesc n (drop 6 (c # s))
      else if starts_with ''&#39;'' (c # s) then CHR 0x27 # unesc n (drop 5 (c # s))
      else c # unesc n s)"

lemma markup_append [simp]: "markup (a @ b) = markup a @ markup b"
  by (simp add: markup_def)

lemma markup_esc_char: "markup (esc_char c) = []"
  by (simp add: markup_def)

lemma markup_Nil [simp]: "markup [] = []"
  by (simp add: markup_def)

lemma markup_esc [simp]: "markup (esc v) = []"
proof -
  have "markup (concat (map esc_char s)) = []" for s
    by (induction s) (simp_all only: list.map concat.simps markup_append markup_esc_char markup_Nil append_Nil)
  then show ?thesis by (cases v) (simp_all only: esc.simps markup_Nil)
qed

lemma markup_labelled: "markup (labelled label (esc v)) = markup (labelled label [])"
  unfolding labelled_def by simp

lemma unesc_step: "unesc (Suc m) (esc_char c @ r) = c # unesc m r"
proof -
  consider "c = CHR ''&''" | "c = CHR ''<''" | "c = CHR ''>''" | "c = CHR 0x22" | "c = CHR 0x27"
    | "c \<noteq> CHR ''&''" "c \<noteq> CHR ''<''" "c \<noteq> CHR ''>''" "c \<noteq> CHR 0x22" "c \<noteq> CHR 0x27" by blast
  then show ?thesis by cases simp_all
qed

lemma unesc_esc: "length s \<le> n \<Longrightarrow> unesc n (esc (JStr s)) = s"
proof (induction s arbitrary: n)
  case Nil
  then show ?case by (cases n) auto
next
  case (Cons c s)
  then obtain m where n: "n = Suc m" "length s \<le> m" by (cases n) auto
  then have "unesc m (concat (map esc_char s)) = s" using Cons.IH [of m] by simp
  then show ?case unfolding n(1) by (simp only: esc.simps list.map concat.simps unesc_step)
qed

text \<open>The fields that a message shows besides the sender.\<close>

definition optional_fields :: "clock \<Rightarrow> jsv \<Rightarrow> string list" where
  "optional_fields ck data =
     (if truthy (js_prop data ''to'') then [''To:''] else []) @ (if truthy (js_prop data ''subject'') then [''Subject:''] else [])
     @ (if truthy (js_prop data ''timestamp'') \<and> ck_parse ck (js_prop data ''timestamp'') \<noteq> None then [''Date:''] else [])"

text \<open>
  C33. Unless a message brings HTML of its own, the pane for it has no markup but that of the template, once for
  each field shown; and what a field shows when it is read is the text of the message.
\<close>

theorem detail_escapes:
  assumes "\<not> truthy (js_prop data ''bodyHtml'')"
  shows "markup (renderDetail ck data) =
      markup (div_open ''gi-detail-header'' @ labelled ''From:'' [] @ concat (map (\<lambda>l. labelled l []) (optional_fields ck data))
        @ div_end @ hr_sep @ div_open ''gi-detail-body'' @ div_end)
    \<and> unesc (length s) (esc (JStr s)) = s"
proof
  let ?blank = "\<lambda>ls. markup (concat (map (\<lambda>l. labelled l []) ls))"
  have field: "markup (if c then labelled l (esc v) else []) = ?blank (if c then [l] else [])" for c l v
    by (cases c) (simp_all add: markup_labelled)
  have date: "markup (if c then (case d of None \<Rightarrow> [] | Some x \<Rightarrow> labelled l (esc (g x))) else [])
      = ?blank (if c \<and> d \<noteq> None then [l] else [])" for c l g and d :: "int option"
    by (cases d; cases c) (simp_all add: markup_labelled)
  show "markup (renderDetail ck data) =
      markup (div_open ''gi-detail-header'' @ labelled ''From:'' [] @ concat (map (\<lambda>l. labelled l []) (optional_fields ck data))
        @ div_end @ hr_sep @ div_open ''gi-detail-body'' @ div_end)"
    using assms
    by (simp only: renderDetail_def optional_fields_def markup_append map_append concat_append field date markup_labelled
        markup_esc append_Nil append_assoc if_False)
  show "unesc (length s) (esc (JStr s)) = s" by (rule unesc_esc) simp
qed

theorem detail_escapes_witness:
  "markup (renderDetail plain_clock (JObj [(''from'', JStr ''<b>''), (''body'', JStr ''a < b'')])) =
     markup (renderDetail plain_clock (JObj []))"
proof -
  have 1: "\<not> truthy (js_prop (JObj [(''from'', JStr ''<b>''), (''body'', JStr ''a < b'')]) ''bodyHtml'')"
    and 2: "\<not> truthy (js_prop (JObj []) ''bodyHtml'')" by simp_all
  show ?thesis
    unfolding conjunct1 [OF detail_escapes [OF 1, of plain_clock "[]"]] conjunct1 [OF detail_escapes [OF 2, of plain_clock "[]"]]
    by (simp add: optional_fields_def)
qed

text \<open>The HTML of a message is given to \<open>innerHTML\<close> as it came.\<close>

lemma body_html_verbatim:
  assumes "h \<noteq> []"
  shows "sublist h (renderDetail ck (JObj [(''bodyHtml'', JStr h)]))"
  using assms by (simp add: renderDetail_def sublist_append)

text \<open>Selecting a message whose preview has not arrived, or is no message, leaves the pane of the one before.\<close>

theorem stale_detail:
  assumes "ie_content (entry_of w i) = None" and "i < length (ib_store w)"
  shows "ib_selectedKey (selectEntry ck avail i w) = Some (ie_name (entry_of w i))
    \<and> ib_visible (selectEntry ck avail i w) = ib_visible w \<and> ib_detail (selectEntry ck avail i w) = ib_detail w"
  using assms
  by (auto simp: selectEntry_def Let_def entry_upd entry_selected split: option.split)

text \<open>
  However the splitter is moved, the pane keeps its least height, and where there is room for both, so does the
  list.
\<close>

theorem splitter_bounds:
  "MIN_PANE \<le> ib_height (splitter_move startY startH y avail w)
    \<and> ib_height (splitter_move startY startH y avail w) \<le> max MIN_PANE (avail - MIN_PANE)"
  by (auto simp: splitter_move_def MIN_PANE_def)

section \<open>A message that was sent\<close>

text \<open>
  What \<open>sendMessage\<close> stores is what the inbox shows: the sender, the subject or else the start of the first
  line of the body, and the message is there to be opened.
\<close>

theorem sent_message_preview:
  "let (i, w1) = buildRow name file w; data = message_json r (JStr sender) (JStr subject) body [] t;
       en = entry_of (show_preview ck now i data w1) i in
     ie_content en = Some data
     \<and> ie_sender en = (if sender = [] then ''(anonymous)'' else sender)
     \<and> ie_subject en = (if subject \<noteq> [] then subject else trim (cut_line (take 60 body)))"
  by (auto simp: buildRow_def message_json_def show_preview_def preview_of_def js_or_def entry_upd entry_of_def upd_entry_def Let_def
      map_filter_simps trim_def cut_line_def nth_append)

end
