(* ===== verification/Files_Widget.thy ===== *)
theory Files_Widget
  imports Widgets
begin

text \<open>
  The file browser (files/gwm-widget.js): the tree of nodes with what is shown of it, expanding a directory, loading the
  root, going to the parent, and the refresh, which computes the changes of the open part of the tree against
  fresh listings and applies them.

  A node of the tree is named by the names on the way to it. A tick works on the tree as it is when the
  tick starts: clicks between its awaits are not modelled, apart from the counter \<open>domBusy\<close>, which is an argument.
\<close>

section \<open>Nodes\<close>

text \<open>
  A node with its row: whether it was built for a directory, with which depth, the identifier it carries. Its
  container holds rows, named by the child, notes, and what \<open>innerHTML\<close> was given.
\<close>

record fattr =
  fa_name :: string
  fa_fullPath :: string
  fa_file :: gfile
  fa_open :: bool
  fa_loaded :: bool
  fa_dirRow :: bool
  fa_depth :: nat
  fa_cid :: string

datatype drow = DRow string | DNote string string | DHtml string

datatype fnode = FNode (fn_attr: fattr) (fn_children: "(string \<times> fnode) list option") (fn_dom: "drow list")

definition makeNode :: "string \<Rightarrow> gfile \<Rightarrow> string \<Rightarrow> nat \<Rightarrow> fnode" where
  "makeNode name file parentPath depth =
     FNode \<lparr>fa_name = name,
        fa_fullPath = (if parentPath \<noteq> [] then (if name \<noteq> [] then parentPath @ ''/'' @ name else parentPath) else name),
        fa_file = file, fa_open = False, fa_loaded = False, fa_dirRow = isDir file, fa_depth = depth,
        fa_cid = gf_cid file\<rparr> None []"

abbreviation fn_file :: "fnode \<Rightarrow> gfile" where "fn_file n \<equiv> fa_file (fn_attr n)"

fun upd_attr :: "(fattr \<Rightarrow> fattr) \<Rightarrow> fnode \<Rightarrow> fnode" where
  "upd_attr f (FNode a cs d) = FNode (f a) cs d"

fun upd_dom :: "(drow list \<Rightarrow> drow list) \<Rightarrow> fnode \<Rightarrow> fnode" where
  "upd_dom f (FNode a cs d) = FNode a cs (f d)"

text \<open>The node at the end of a path, and a change of it.\<close>

fun node_at :: "string list \<Rightarrow> fnode \<Rightarrow> fnode option" where
  "node_at [] n = Some n"
| "node_at (x # p) n =
     (case fn_children n of
        None \<Rightarrow> None
      | Some cs \<Rightarrow> (case map_get cs x of None \<Rightarrow> None | Some c \<Rightarrow> node_at p c))"

fun change_at :: "string list \<Rightarrow> (fnode \<Rightarrow> fnode) \<Rightarrow> fnode \<Rightarrow> fnode" where
  "change_at [] f n = f n"
| "change_at (x # p) f (FNode a cs d) =
     FNode a (map_option (map (\<lambda>(y, c). (y, if y = x then change_at p f c else c))) cs) d"

section \<open>The children of a directory as rows\<close>

definition dirs_first :: "(string \<Rightarrow> string \<Rightarrow> bool) \<Rightarrow> string \<times> gfile \<Rightarrow> string \<times> gfile \<Rightarrow> bool" where
  "dirs_first locale_le = (\<lambda>(an, af) (bn, bf). if isDir af \<noteq> isDir bf then isDir af else locale_le an bn)"

definition fill_node :: "(string \<Rightarrow> string \<Rightarrow> bool) \<Rightarrow> nat \<Rightarrow> (string \<times> gfile) list \<Rightarrow> fnode \<Rightarrow> fnode" where
  "fill_node locale_le depth kids n =
     (let ks = js_sort (dirs_first locale_le) kids in
      FNode (fn_attr n)
        (Some (foldl (\<lambda>m (name, file). map_set name (makeNode name file (fa_fullPath (fn_attr n)) depth) m) [] ks))
        (map (\<lambda>(name, _). DRow name) ks @ (if ks = [] then [DNote ''gf-loading'' ''(empty)''] else [])))"

section \<open>State\<close>

text \<open>\<open>fw_left\<close>: what the element still shows while there is no root node.\<close>

record files =
  fw_volume :: string
  fw_basePath :: string
  fw_title :: string
  fw_root :: "fnode option"
  fw_left :: "drow list"
  fw_selected :: "string list option"
  fw_toasts :: "string list"

definition element_of :: "files \<Rightarrow> drow list" where
  "element_of w = (case fw_root w of None \<Rightarrow> fw_left w | Some r \<Rightarrow> fn_dom r)"

definition makeTitle :: "string \<Rightarrow> string" where
  "makeTitle p = (if p \<noteq> [] then ''/'' @ p @ ''/'' else ''/'')"

text \<open>\<open>r.path.replace(/^\//, '')\<close>\<close>

definition base_of :: "string \<Rightarrow> string" where
  "base_of p = (if starts_with [slash] p then tl p else p)"

text \<open>The directory the widget is opened on: its path, or the argument; both can be missing.\<close>

definition new_files :: "string option \<Rightarrow> files" where
  "new_files target =
     (let (vol, path) = (case target of None \<Rightarrow> (''primary'', []) | Some p \<Rightarrow> (let r = resolvePath p in (fst r, base_of (snd r))))
      in \<lparr>fw_volume = vol, fw_basePath = path, fw_title = makeTitle path, fw_root = None, fw_left = [],
          fw_selected = None, fw_toasts = []\<rparr>)"

definition add_note :: "string \<Rightarrow> string \<Rightarrow> files \<Rightarrow> files" where
  "add_note cls text w =
     (case fw_root w of
        None \<Rightarrow> w\<lparr>fw_left := fw_left w @ [DNote cls text]\<rparr>
      | Some r \<Rightarrow> w\<lparr>fw_root := Some (upd_dom (\<lambda>d. d @ [DNote cls text]) r)\<rparr>)"

section \<open>Loading the root\<close>

definition root_of :: "gfile \<Rightarrow> drow list \<Rightarrow> fnode" where
  "root_of file d = upd_dom (\<lambda>_. d) (upd_attr (\<lambda>a. a\<lparr>fa_open := True, fa_loaded := True\<rparr>) (makeNode [] file [] 0))"

definition loadRoot :: "'s vapi \<Rightarrow> (string \<Rightarrow> string \<Rightarrow> bool) \<Rightarrow> string \<Rightarrow> ('s, files, unit) wprog" where
  "loadRoot va locale_le key =
     acatch
       (with_widget (\<lambda>w.
        abind (on_api (va_lookup va key (fw_basePath w))) (\<lambda>rootFile.
        abind (on_widget (\<lambda>w. w\<lparr>fw_root := Some (root_of rootFile (element_of w))\<rparr>)) (\<lambda>_.
        abind (on_api (va_children va key rootFile)) (\<lambda>kids.
          on_widget (\<lambda>w. w\<lparr>fw_root := map_option (fill_node locale_le 0 kids) (fw_root w)\<rparr>))))))
       (\<lambda>e. on_widget (add_note ''gf-error'' (err_message e)))"

definition goToParent :: "'s vapi \<Rightarrow> (string \<Rightarrow> string \<Rightarrow> bool) \<Rightarrow> string \<Rightarrow> ('s, files, unit) wprog" where
  "goToParent va locale_le key =
     with_widget (\<lambda>w.
       if fw_basePath w = [] then aret ()
       else
         let parent = js_join ''/'' (butlast (js_split slash (fw_basePath w))) in
         abind (atry (on_api (va_lookup va key parent))) (\<lambda>r.
           case r of
             Inl e \<Rightarrow> on_widget (\<lambda>w. w\<lparr>fw_toasts := fw_toasts w @ [''Cannot open parent: '' @ err_message e]\<rparr>)
           | Inr _ \<Rightarrow>
               abind (on_widget (\<lambda>w. w\<lparr>fw_left := element_of w, fw_root := None, fw_basePath := parent,
                        fw_title := makeTitle parent\<rparr>)) (\<lambda>_. loadRoot va locale_le key)))"

section \<open>Expanding and selecting\<close>

text \<open>
  \<open>toggle\<close> up to its await: True when the children have to be fetched; then what their arrival does.
\<close>

definition toggle_start :: "string list \<Rightarrow> fnode \<Rightarrow> fnode \<times> bool" where
  "toggle_start p rt =
     (case node_at p rt of
        None \<Rightarrow> (rt, False)
      | Some n \<Rightarrow>
          (let a = fn_attr n in
           if \<not> isDir (fa_file a) then (rt, False)
           else if fa_open a then (change_at p (upd_attr (\<lambda>a. a\<lparr>fa_open := False\<rparr>)) rt, False)
           else if fa_loaded a then (change_at p (upd_attr (\<lambda>a. a\<lparr>fa_open := True\<rparr>)) rt, False)
           else (change_at p (\<lambda>n. upd_dom (\<lambda>d. d @ [DNote ''gf-loading'' ''...''])
                   (upd_attr (\<lambda>a. a\<lparr>fa_open := True, fa_loaded := True\<rparr>) n)) rt, True)))"

definition error_html :: "err \<Rightarrow> string" where
  "error_html e = ''<div class='' @ [CHR 0x22] @ ''gf-error'' @ [CHR 0x22] @ ''>'' @ err_message e @ ''</div>''"

definition toggle_done :: "(string \<Rightarrow> string \<Rightarrow> bool) \<Rightarrow> string list \<Rightarrow> err + (string \<times> gfile) list \<Rightarrow> fnode \<Rightarrow> fnode" where
  "toggle_done locale_le p r rt =
     (case r of
        Inl e \<Rightarrow> change_at p (\<lambda>n. upd_dom (\<lambda>_. [DHtml (error_html e)]) (upd_attr (\<lambda>a. a\<lparr>fa_loaded := False\<rparr>) n)) rt
      | Inr kids \<Rightarrow> change_at p (fill_node locale_le (length p) kids) rt)"

definition toggle_node :: "'s vapi \<Rightarrow> (string \<Rightarrow> string \<Rightarrow> bool) \<Rightarrow> string \<Rightarrow> string list \<Rightarrow> ('s, files, unit) wprog" where
  "toggle_node va locale_le key p =
     with_widget (\<lambda>w.
       case fw_root w of
         None \<Rightarrow> aret ()
       | Some rt \<Rightarrow>
           (let (rt', fetch) = toggle_start p rt in
            abind (on_widget (\<lambda>w. w\<lparr>fw_root := Some rt'\<rparr>)) (\<lambda>_.
            case (fetch, node_at p rt) of
              (True, Some n) \<Rightarrow>
                abind (atry (on_api (va_children va key (fn_file n)))) (\<lambda>r.
                  on_widget (\<lambda>w. w\<lparr>fw_root := map_option (toggle_done locale_le p r) (fw_root w)\<rparr>))
            | _ \<Rightarrow> aret ())))"

text \<open>The path given to the editor for a file of the tree.\<close>

definition open_path :: "files \<Rightarrow> fnode \<Rightarrow> string" where
  "open_path w n =
     (let rel = fa_fullPath (fn_attr n);
          full = (if fw_basePath w \<noteq> [] then (if rel \<noteq> [] then fw_basePath w @ ''/'' @ rel else fw_basePath w) else rel)
      in ''//'' @ fw_volume w @ ''/'' @ full)"

text \<open>A click on a row: its meaning was fixed when the row was built.\<close>

definition row_click :: "'s vapi \<Rightarrow> (string \<Rightarrow> string \<Rightarrow> bool) \<Rightarrow> string \<Rightarrow> string list \<Rightarrow> ('s, files, unit) wprog" where
  "row_click va locale_le key p =
     with_widget (\<lambda>w.
       case fw_root w of
         None \<Rightarrow> aret ()
       | Some rt \<Rightarrow>
           (case node_at p rt of
              None \<Rightarrow> aret ()
            | Some n \<Rightarrow> if fa_dirRow (fn_attr n) then toggle_node va locale_le key p
                        else on_widget (\<lambda>w. w\<lparr>fw_selected := Some p\<rparr>)))"

section \<open>The refresh\<close>

datatype fop =
    Remove "string list" string
  | Update "string list" gfile
  | Add "string list" string gfile string

text \<open>
  The loops of \<open>collectChanges\<close>: what is gone, then for each file of the new listing an update, with the changes below
  it, or an addition. \<open>olds\<close> gives, for the children a node had, what the recursive call collects.
\<close>

definition removes :: "string list \<Rightarrow> (string \<times> fnode) list \<Rightarrow> (string \<times> gfile) list \<Rightarrow> fop list" where
  "removes p old new = map (\<lambda>(name, _). Remove p name) (filter (\<lambda>(name, _). name \<notin> fst ` set new) old)"

definition expanded :: "fnode \<Rightarrow> bool" where
  "expanded n \<longleftrightarrow> fa_open (fn_attr n) \<and> fa_loaded (fn_attr n) \<and> fa_dirRow (fn_attr n)"

fun collect_new :: "(gfile \<Rightarrow> ('s, (string \<times> gfile) list) aprog)
    \<Rightarrow> (string \<times> (fnode \<times> (string list \<Rightarrow> string \<Rightarrow> (string \<times> gfile) list \<Rightarrow> ('s, fop list) aprog))) list
    \<Rightarrow> string list \<Rightarrow> string \<Rightarrow> (string \<times> gfile) list \<Rightarrow> ('s, fop list) aprog" where
  "collect_new kids_of olds p parentPath [] = aret []"
| "collect_new kids_of olds p parentPath ((name, file) # new) =
     (case map_get olds name of
        None \<Rightarrow> abind (collect_new kids_of olds p parentPath new) (\<lambda>ops. aret (Add p name file parentPath # ops))
      | Some (n, rec) \<Rightarrow>
          abind (if isDir file \<and> expanded n
                 then abind (kids_of file) (rec (p @ [name]) (if parentPath \<noteq> [] then parentPath @ ''/'' @ name else name))
                 else aret []) (\<lambda>sub.
          abind (collect_new kids_of olds p parentPath new) (\<lambda>ops. aret (Update (p @ [name]) file # sub @ ops))))"

primrec collectChanges :: "(gfile \<Rightarrow> ('s, (string \<times> gfile) list) aprog) \<Rightarrow> fnode
    \<Rightarrow> string list \<Rightarrow> string \<Rightarrow> (string \<times> gfile) list \<Rightarrow> ('s, fop list) aprog" where
  "collectChanges kids_of (FNode a cs d) = (\<lambda>p parentPath new.
     case map_option (map (map_prod id (\<lambda>n. (n, collectChanges kids_of n)))) cs of
       None \<Rightarrow> athrow (Err_Type ''oldChildren is not iterable'')
     | Some olds \<Rightarrow>
         abind (collect_new kids_of olds p parentPath new) (\<lambda>ops. aret (removes p (the cs) new @ ops)))"

text \<open>\<open>applyChanges\<close>: all removals, then all updates, then all additions.\<close>

definition remove_child :: "string \<Rightarrow> fnode \<Rightarrow> fnode" where
  "remove_child name n =
     FNode (fn_attr n) (map_option (map_del name) (fn_children n)) (filter (\<lambda>r. r \<noteq> DRow name) (fn_dom n))"

definition update_node :: "gfile \<Rightarrow> fnode \<Rightarrow> fnode" where
  "update_node file = upd_attr (\<lambda>a. a\<lparr>fa_file := file, fa_cid := gf_cid file\<rparr>)"

definition place_row :: "string \<Rightarrow> (string \<times> fnode) list \<Rightarrow> drow list \<Rightarrow> drow list" where
  "place_row name cs d =
     (case find (\<lambda>(sib, _). name < sib) cs of
        None \<Rightarrow> d @ [DRow name]
      | Some (sib, _) \<Rightarrow> takeWhile (\<lambda>r. r \<noteq> DRow sib) d @ DRow name # dropWhile (\<lambda>r. r \<noteq> DRow sib) d)"

definition add_child :: "string \<Rightarrow> gfile \<Rightarrow> string \<Rightarrow> fnode \<Rightarrow> fnode" where
  "add_child name file parentPath n =
     (case fn_children n of
        None \<Rightarrow> n
      | Some cs \<Rightarrow> FNode (fn_attr n) (Some (map_set name (makeNode name file parentPath 0) cs)) (place_row name cs (fn_dom n)))"

definition apply_remove :: "fop \<Rightarrow> fnode \<Rightarrow> fnode" where
  "apply_remove op rt = (case op of Remove p name \<Rightarrow> change_at p (remove_child name) rt | _ \<Rightarrow> rt)"

definition apply_update :: "fop \<Rightarrow> fnode \<Rightarrow> fnode" where
  "apply_update op rt = (case op of Update p file \<Rightarrow> change_at p (update_node file) rt | _ \<Rightarrow> rt)"

definition apply_add :: "fop \<Rightarrow> fnode \<Rightarrow> fnode" where
  "apply_add op rt = (case op of Add p name file pp \<Rightarrow> change_at p (add_child name file pp) rt | _ \<Rightarrow> rt)"

definition applyChanges :: "fop list \<Rightarrow> fnode \<Rightarrow> fnode" where
  "applyChanges ops rt = fold apply_add ops (fold apply_update ops (fold apply_remove ops rt))"

text \<open>
  \<open>refreshTick\<close>, and \<open>reload\<close>, which does not compare the identifiers and tells about errors; \<open>busy\<close> is
  the counter \<open>domBusy\<close> of the other loads in progress when the changes have been collected.
\<close>

definition tick_root :: "gfile \<Rightarrow> fnode \<Rightarrow> fnode" where
  "tick_root rootFile = upd_attr (\<lambda>a. a\<lparr>fa_file := rootFile\<rparr>)"

definition sync_root :: "'s vapi \<Rightarrow> string \<Rightarrow> nat \<Rightarrow> gfile \<Rightarrow> ('s, files, unit) wprog" where
  "sync_root va key busy rootFile =
     abind (on_api (va_children va key rootFile)) (\<lambda>new.
     abind (on_widget (\<lambda>w. w\<lparr>fw_root := map_option (tick_root rootFile) (fw_root w)\<rparr>)) (\<lambda>_.
     with_widget (\<lambda>w.
       case fw_root w of
         None \<Rightarrow> athrow (Err_Type ''Cannot set properties of null'')
       | Some rt \<Rightarrow>
           abind (on_api (collectChanges (va_children va key) rt [] [] new)) (\<lambda>ops.
             if busy > 0 then aret ()
             else on_widget (\<lambda>w. w\<lparr>fw_root := map_option (applyChanges ops) (fw_root w)\<rparr>)))))"

definition refreshTick :: "'s vapi \<Rightarrow> string \<Rightarrow> nat \<Rightarrow> ('s, files, unit) wprog" where
  "refreshTick va key busy =
     with_widget (\<lambda>w.
       case fw_root w of
         None \<Rightarrow> aret ()
       | Some rt \<Rightarrow>
           acatch
             (abind (on_api (va_lookup va key (fw_basePath w))) (\<lambda>rootFile.
                if gf_cid rootFile = gf_cid (fn_file rt) then aret () else sync_root va key busy rootFile))
             (\<lambda>e. aret ()))"

definition reload :: "'s vapi \<Rightarrow> (string \<Rightarrow> string \<Rightarrow> bool) \<Rightarrow> string \<Rightarrow> nat \<Rightarrow> ('s, files, unit) wprog" where
  "reload va locale_le key busy =
     with_widget (\<lambda>w.
       case fw_root w of
         None \<Rightarrow> loadRoot va locale_le key
       | Some rt \<Rightarrow>
           acatch (abind (on_api (va_lookup va key (fw_basePath w))) (sync_root va key busy))
             (\<lambda>e. on_widget (\<lambda>w. w\<lparr>fw_toasts := fw_toasts w @ [''Reload failed: '' @ err_message e]\<rparr>)))"

section \<open>What a refresh does to the tree\<close>

text \<open>
  The reference: the children that are gone leave, those that stay get their new file and, where they are expanded
  directories, are brought up to date in the same way, and the new ones come in one after the other.
\<close>

definition child_path :: "string \<Rightarrow> string \<Rightarrow> string" where
  "child_path pp name = (if pp \<noteq> [] then pp @ ''/'' @ name else name)"

definition keep_children :: "(string \<times> gfile) list \<Rightarrow> fnode \<Rightarrow> fnode" where
  "keep_children new n =
     FNode (fn_attr n) (map_option (filter (\<lambda>(x, _). x \<in> fst ` set new)) (fn_children n))
       (filter (\<lambda>r. \<forall>x \<in> fst ` set (or_else (fn_children n) []). x \<notin> fst ` set new \<longrightarrow> r \<noteq> DRow x) (fn_dom n))"

definition change_children :: "(string \<Rightarrow> fnode \<Rightarrow> fnode) \<Rightarrow> fnode \<Rightarrow> fnode" where
  "change_children g n = FNode (fn_attr n) (map_option (map (\<lambda>(x, c). (x, g x c))) (fn_children n)) (fn_dom n)"

definition add_new :: "string \<Rightarrow> string set \<Rightarrow> (string \<times> gfile) list \<Rightarrow> fnode \<Rightarrow> fnode" where
  "add_new pp old new = fold (\<lambda>(x, f) n. if x \<in> old then n else add_child x f pp n) new"

definition descends :: "gfile \<Rightarrow> fnode \<Rightarrow> bool" where
  "descends f c \<longleftrightarrow> isDir f \<and> expanded c"

primrec sync :: "(gfile \<Rightarrow> (string \<times> gfile) list) \<Rightarrow> fnode \<Rightarrow> string \<Rightarrow> (string \<times> gfile) list \<Rightarrow> fnode" where
  "sync L (FNode a cs d) = (\<lambda>pp new.
     let subs = map_option (map (map_prod id (sync L))) cs;
         stay = (\<lambda>x c. case map_get new x of
             None \<Rightarrow> c
           | Some f \<Rightarrow> update_node f (if descends f c then the (map_get (the subs) x) (child_path pp x) (L f) else c))
     in add_new pp (fst ` set (or_else cs [])) new (change_children stay (keep_children new (FNode a cs d))))"

text \<open>The changes that \<open>collectChanges\<close> collects when listings are as \<open>L\<close> says.\<close>

primrec ops_of :: "(gfile \<Rightarrow> (string \<times> gfile) list) \<Rightarrow> fnode \<Rightarrow> string list \<Rightarrow> string \<Rightarrow> (string \<times> gfile) list \<Rightarrow> fop list" where
  "ops_of L (FNode a cs d) = (\<lambda>p pp new.
     let olds = or_else (map_option (map (map_prod id (\<lambda>n. (n, ops_of L n)))) cs) []
     in removes p (or_else cs []) new
        @ concat (map (\<lambda>(x, f). case map_get olds x of
             None \<Rightarrow> [Add p x f pp]
           | Some (c, rec) \<Rightarrow> Update (p @ [x]) f # (if descends f c then rec (p @ [x]) (child_path pp x) (L f) else [])) new))"

definition has_loaded :: "fnode \<Rightarrow> bool" where
  "has_loaded n \<longleftrightarrow> fa_loaded (fn_attr n)"

lemma expanded_loaded: "expanded n \<Longrightarrow> has_loaded n"
  by (simp add: expanded_def has_loaded_def)

text \<open>
  A tree in order: at each level no name comes twice, each child has its one row and each row its child, and what
  has been loaded, and nothing else, has a table of children.
\<close>

definition row_names :: "drow list \<Rightarrow> string list" where
  "row_names d = concat (map (\<lambda>r. case r of DRow x \<Rightarrow> [x] | _ \<Rightarrow> []) d)"

primrec tree_wf :: "fnode \<Rightarrow> bool" where
  "tree_wf (FNode a cs d) =
     (case map_option (map (map_prod id (\<lambda>c. (c, tree_wf c)))) cs of
        None \<Rightarrow> True
      | Some l \<Rightarrow> distinct (map fst l) \<and> mset (row_names d) = mset (map fst l) \<and> list_all (\<lambda>(x, c, ok). ok \<and> (has_loaded c \<longleftrightarrow> fn_children c \<noteq> None)) l)"

definition answers :: "('s, 'a) aprog \<Rightarrow> 'a \<Rightarrow> bool" where
  "answers m x \<longleftrightarrow> (\<forall>s. \<exists>t. m s = Some (Inr x, t))"

lemma answers_aret: "answers (aret x) x"
  by (simp add: answers_def aret_def)

lemma answers_bind: "answers m x \<Longrightarrow> answers (f x) y \<Longrightarrow> answers (abind m f) y"
  unfolding answers_def by (metis abind_run(3))

lemma map_get_map_prod: "map_get (map (map_prod id h) cs) x = map_option h (map_get cs x)"
  by (induction cs) auto

lemma tree_wf_Some: "tree_wf (FNode a (Some cs) d) \<longleftrightarrow>
   distinct (map fst cs) \<and> mset (row_names d) = mset (map fst cs) \<and> (\<forall>(x, c) \<in> set cs. tree_wf c \<and> (has_loaded c \<longleftrightarrow> fn_children c \<noteq> None))"
  by (auto simp: list_all_iff comp_def)

lemma sync_Some: "sync L (FNode a (Some cs) d) pp new =
   add_new pp (fst ` set cs) new
     (change_children (\<lambda>x c. case map_get new x of
             None \<Rightarrow> c
           | Some f \<Rightarrow> update_node f (if descends f c then sync L (the (map_get cs x)) (child_path pp x) (L f) else c))
       (keep_children new (FNode a (Some cs) d)))"
proof -
  let ?stay = "\<lambda>h x c. case map_get new x of
      None \<Rightarrow> c | Some f \<Rightarrow> update_node f (if descends f c then h x (child_path pp x) (L f) else c)"
  let ?h1 = "\<lambda>x. the (map_get (map (map_prod id (sync L)) cs) x)" and ?h2 = "\<lambda>x. sync L (the (map_get cs x))"
  have h: "?h1 x = ?h2 x" if "(x, c) \<in> set cs" for x c
  proof -
    have "x \<in> fst ` set cs" using that by force
    then obtain y where "map_get cs x = Some y" using map_of_eq_None_iff [of cs x] by blast
    then show ?thesis by (simp add: map_get_map_prod)
  qed
  have "?stay ?h1 x c = ?stay ?h2 x c" if "(x, c) \<in> set cs" for x c
    by (simp only: h [OF that])
  then have "change_children (?stay ?h1) (keep_children new (FNode a (Some cs) d)) =
      change_children (?stay ?h2) (keep_children new (FNode a (Some cs) d))"
    by (auto simp: change_children_def keep_children_def)
  then show ?thesis by (simp only: sync.simps Let_def option.map option.sel or_else_simps)
qed

lemma ops_of_Some: "ops_of L (FNode a (Some cs) d) p pp new =
   removes p cs new
   @ concat (map (\<lambda>(x, f). case map_get cs x of
        None \<Rightarrow> [Add p x f pp]
      | Some c \<Rightarrow> Update (p @ [x]) f # (if descends f c then ops_of L c (p @ [x]) (child_path pp x) (L f) else [])) new)"
  unfolding ops_of.simps Let_def
  by (auto simp: map_get_map_prod split: option.split intro!: arg_cong [where f = concat])

subsection \<open>Induction over a tree, and what is collected\<close>

lemma fnode_tree_induct [case_names Leaf Dir]:
  assumes "\<And>a d. P (FNode a None d)"
    and "\<And>a cs d. (\<And>x c. (x, c) \<in> set cs \<Longrightarrow> P c) \<Longrightarrow> P (FNode a (Some cs) d)"
  shows "P n"
proof (induction n)
  case (FNode a cs d)
  show ?case
  proof (cases cs)
    case None
    then show ?thesis using assms(1) by simp
  next
    case (Some l)
    have "P c" if "(x, c) \<in> set l" for x c
      using FNode [of l "(x, c)" c] that Some by (simp add: snds.simps)
    then show ?thesis using assms(2) Some by simp
  qed
qed

lemma collect_answers:
  assumes "\<And>f. answers (kids_of f) (L f)" and "tree_wf n" and "fn_children n \<noteq> None"
  shows "answers (collectChanges kids_of n p pp new) (ops_of L n p pp new)"
  using assms(2,3)
proof (induction n arbitrary: p pp new rule: fnode_tree_induct)
  case (Dir a cs d)
  let ?olds = "map (map_prod id (\<lambda>n. (n, collectChanges kids_of n))) cs"
  have child: "answers (collectChanges kids_of c q qq ks) (ops_of L c q qq ks)" if "(x, c) \<in> set cs" "expanded c" for x c q qq ks
  proof (rule Dir.IH [OF that(1)])
    show "tree_wf c" "fn_children c \<noteq> None" using Dir.prems(1) that expanded_loaded [of c] unfolding tree_wf_Some by auto
  qed
  let ?one = "\<lambda>(x, f). case map_get cs x of
        None \<Rightarrow> [Add p x f pp]
      | Some c \<Rightarrow> Update (p @ [x]) f # (if descends f c then ops_of L c (p @ [x]) (child_path pp x) (L f) else [])"
  have "answers (collect_new kids_of ?olds p pp new) (concat (map ?one new))"
  proof (induction new)
    case Nil
    then show ?case by (simp add: answers_aret)
  next
    case (Cons k new)
    obtain x f where k: "k = (x, f)" by (cases k)
    show ?case
    proof (cases "map_get cs x")
      case None
      have "answers (abind (collect_new kids_of ?olds p pp new) (\<lambda>ops. aret (Add p x f pp # ops)))
          (Add p x f pp # concat (map ?one new))"
        by (rule answers_bind [OF Cons.IH]) (rule answers_aret)
      then show ?thesis unfolding k by (simp only: collect_new.simps map_get_map_prod None option.map option.case list.map
            prod.case concat.simps append_Cons append_Nil)
    next
      case (Some c)
      then have c: "(x, c) \<in> set cs" by (rule map_of_SomeD)
      let ?sub = "if descends f c then ops_of L c (p @ [x]) (child_path pp x) (L f) else []"
      have "answers (if isDir f \<and> expanded c
          then abind (kids_of f) (collectChanges kids_of c (p @ [x]) (if pp \<noteq> [] then pp @ ''/'' @ x else x)) else aret []) ?sub"
        using child [OF c] by (auto simp: descends_def child_path_def intro!: answers_bind [OF assms(1)] answers_aret)
      then have "answers (abind (if isDir f \<and> expanded c
            then abind (kids_of f) (collectChanges kids_of c (p @ [x]) (if pp \<noteq> [] then pp @ ''/'' @ x else x)) else aret [])
            (\<lambda>sub. abind (collect_new kids_of ?olds p pp new) (\<lambda>ops. aret (Update (p @ [x]) f # sub @ ops))))
          (Update (p @ [x]) f # ?sub @ concat (map ?one new))"
        by (rule answers_bind) (rule answers_bind [OF Cons.IH], rule answers_aret)
      then show ?thesis unfolding k by (simp only: collect_new.simps map_get_map_prod Some option.map option.case list.map
            prod.case concat.simps append_Cons)
    qed
  qed
  then show ?case unfolding ops_of_Some collectChanges.simps option.map option.case option.sel
    by (rule answers_bind) (rule answers_aret)
qed simp

subsection \<open>Changes at paths below a child\<close>

fun below_child :: "string \<Rightarrow> fop \<Rightarrow> fop" where
  "below_child x (Remove p n) = Remove (x # p) n"
| "below_child x (Update p f) = Update (x # p) f"
| "below_child x (Add p n f pp) = Add (x # p) n f pp"

lemma ops_below: "ops_of L n (x # p) pp new = map (below_child x) (ops_of L n p pp new)"
proof (induction n arbitrary: p pp new rule: fnode_tree_induct)
  case (Leaf a d)
  show ?case by (simp add: Let_def removes_def map_concat comp_def) (simp add: split_def comp_def)
next
  case (Dir a cs d)
  have "ops_of L c ((x # p) @ [y]) q ks = map (below_child x) (ops_of L c (p @ [y]) q ks)" if "map_get cs y = Some c" for y c q ks
    using Dir.IH [OF map_of_SomeD [OF that], of "p @ [y]"] by simp
  then show ?case
    by (auto simp: ops_of_Some removes_def map_concat simp del: ops_of.simps split: option.split
        intro!: arg_cong [where f = concat])
qed

lemma change_child: "change_at [x] g n = change_children (\<lambda>y c. if y = x then g c else c) n"
  unfolding change_children_def by (cases n) (simp add: split_def cong: if_cong)

lemma change_children_id: "(\<And>x c. g x c = c) \<Longrightarrow> change_children g n = n"
  by (cases n; cases "fn_children n") (auto simp: change_children_def split_def intro!: map_idI)

lemma change_at_Cons: "change_at (x # p) g n = change_at [x] (change_at p g) n"
  by (cases n) (simp add: split_def cong: if_cong)

lemma change_child_id: "change_at [x] (\<lambda>c. c) n = n"
  unfolding change_child by (rule change_children_id) simp

lemma apply_remove_below: "apply_remove (below_child x op) n = change_at [x] (apply_remove op) n"
  by (cases op) (simp_all add: apply_remove_def [abs_def] change_child_id change_at_Cons [symmetric] del: change_at.simps)

lemma apply_update_below: "apply_update (below_child x op) n = change_at [x] (apply_update op) n"
  by (cases op) (simp_all add: apply_update_def [abs_def] change_child_id change_at_Cons [symmetric] del: change_at.simps)

lemma apply_add_below: "apply_add (below_child x op) n = change_at [x] (apply_add op) n"
  by (cases op) (simp_all add: apply_add_def [abs_def] change_child_id change_at_Cons [symmetric] del: change_at.simps)

lemma change_children_twice: "change_children g (change_children h n) = change_children (\<lambda>x c. g x (h x c)) n"
  by (cases "fn_children n") (auto simp: change_children_def)

lemma change_children_cong:
  "(\<And>x c. (x, c) \<in> set (or_else (fn_children n) []) \<Longrightarrow> g x c = h x c) \<Longrightarrow> change_children g n = change_children h n"
  by (cases "fn_children n") (auto simp: change_children_def)

lemma fold_below:
  assumes "\<And>op n. ap (below_child x op) n = change_at [x] (ap op) n"
  shows "fold ap (map (below_child x) ops) n = change_at [x] (fold ap ops) n"
proof (induction ops arbitrary: n)
  case Nil
  show ?case by (simp add: change_child change_children_id)
next
  case (Cons op ops)
  then show ?case by (simp add: assms change_child change_children_twice) (auto intro!: change_children_cong)
qed

lemma fold_concat_map: "fold f (concat (map g xs)) = fold (\<lambda>x. fold f (g x)) xs"
  by (induction xs) auto

lemma fold_children:
  assumes "distinct (map fst new)"
  shows "fold (\<lambda>(x, f) n. if x \<in> old then change_at [x] (g x f) n else n) new n =
    change_children (\<lambda>y c. case map_get new y of None \<Rightarrow> c | Some f \<Rightarrow> if y \<in> old then g y f c else c) n"
  using assms
proof (induction new arbitrary: n)
  case Nil
  show ?case by (simp add: change_children_id)
next
  case (Cons k new)
  obtain x f where k: "k = (x, f)" by (cases k)
  have "map_get new x = None" using Cons.prems k by (simp add: map_of_eq_None_iff)
  then show ?case using Cons unfolding k
    by (auto simp: change_child change_children_twice intro!: change_children_cong)
qed

lemma apply_simps [simp]:
  "apply_remove (Remove p x) n = change_at p (remove_child x) n" "apply_remove (Update p f) n = n" "apply_remove (Add p x f pp) n = n"
  "apply_update (Remove p x) n = n" "apply_update (Update p f) n = change_at p (update_node f) n" "apply_update (Add p x f pp) n = n"
  "apply_add (Remove p x) n = n" "apply_add (Update p f) n = n" "apply_add (Add p x f pp) n = change_at p (add_child x f pp) n"
  by (simp_all add: apply_remove_def apply_update_def apply_add_def)

definition sub_ops :: "(gfile \<Rightarrow> (string \<times> gfile) list) \<Rightarrow> (string \<times> fnode) list \<Rightarrow> string \<Rightarrow> string \<Rightarrow> gfile \<Rightarrow> fop list" where
  "sub_ops L cs pp x f =
     (case map_get cs x of
        None \<Rightarrow> []
      | Some c \<Rightarrow> if descends f c then ops_of L c [] (child_path pp x) (L f) else [])"

definition child_ops :: "(gfile \<Rightarrow> (string \<times> gfile) list) \<Rightarrow> (string \<times> fnode) list \<Rightarrow> string \<Rightarrow> string \<times> gfile \<Rightarrow> fop list" where
  "child_ops L cs pp = (\<lambda>(x, f). if x \<in> fst ` set cs then Update [x] f # map (below_child x) (sub_ops L cs pp x f)
     else [Add [] x f pp])"

lemma ops_split: "ops_of L (FNode a (Some cs) d) [] pp new = removes [] cs new @ concat (map (child_ops L cs pp) new)"
proof -
  have "(case map_get cs x of None \<Rightarrow> [Add [] x f pp]
      | Some c \<Rightarrow> Update ([] @ [x]) f # (if descends f c then ops_of L c ([] @ [x]) (child_path pp x) (L f) else []))
      = child_ops L cs pp (x, f)" for x f
  proof (cases "map_get cs x")
    case None
    then have "x \<notin> fst ` set cs" by (simp only: map_of_eq_None_iff) simp
    then show ?thesis using None by (simp add: child_ops_def)
  next
    case (Some c)
    then have "x \<in> fst ` set cs" by (force dest: map_of_SomeD)
    then show ?thesis using Some by (simp add: child_ops_def sub_ops_def ops_below)
  qed
  then show ?thesis unfolding ops_of_Some
    by (intro arg_cong2 [where f = append] arg_cong [where f = concat] refl map_cong) (simp only: split_paired_all prod.case)
qed

lemma fold_removes: "fold apply_remove (map (\<lambda>k. Remove [] (fst k)) rs) n =
   FNode (fn_attr n) (map_option (filter (\<lambda>k. fst k \<notin> fst ` set rs)) (fn_children n))
     (filter (\<lambda>r. \<forall>x \<in> fst ` set rs. r \<noteq> DRow x) (fn_dom n))"
proof (induction rs arbitrary: n)
  case Nil
  show ?case by (cases n; cases "fn_children n") auto
next
  case (Cons k rs)
  show ?case by (cases k; cases "fn_children n")
      (simp_all add: Cons.IH remove_child_def AList.delete_eq conj_commute split_def eq_commute)
qed

lemma fold_keep:
  "fold apply_remove (removes [] cs new) (FNode a (Some cs) d) = keep_children new (FNode a (Some cs) d)"
proof -
  let ?rs = "filter (\<lambda>(x, _). x \<notin> fst ` set new) cs"
  have "fst ` set ?rs = {x \<in> fst ` set cs. x \<notin> fst ` set new}" by force
  then show ?thesis unfolding removes_def keep_children_def case_prod_unfold fold_removes
    by (simp add: case_prod_unfold) (auto intro!: filter_cong)
qed

lemma fold_ids: "(\<And>x m. x \<in> set xs \<Longrightarrow> f x m = m) \<Longrightarrow> fold f xs m = m"
  by (induction xs) auto

lemma removes_inert: "fold apply_update (removes p cs new) m = m" "fold apply_add (removes p cs new) m = m"
  by (auto intro!: fold_ids simp: removes_def)

text \<open>What each of the three passes does with a level: one change for each child that stays.\<close>

definition at_kept :: "(string \<times> fnode) list \<Rightarrow> (string \<times> gfile) list \<Rightarrow> (string \<Rightarrow> gfile \<Rightarrow> fnode \<Rightarrow> fnode) \<Rightarrow> string \<Rightarrow> fnode \<Rightarrow> fnode" where
  "at_kept cs new g y c = (case map_get new y of None \<Rightarrow> c | Some f \<Rightarrow> if y \<in> fst ` set cs then g y f c else c)"

lemma pass_children:
  assumes "\<And>op n x. ap (below_child x op) n = change_at [x] (ap op) n"
    and "\<And>x f pp n. ap (Add [] x f pp) n = n"
    and "distinct (map fst new)"
  shows "fold ap (concat (map (child_ops L cs pp) new)) m =
    change_children (at_kept cs new (\<lambda>y f c. fold ap (sub_ops L cs pp y f) (ap (Update [] f) c))) m"
proof -
  have up: "ap (Update [x] f) n = change_at [x] (ap (Update [] f)) n" for x f n
    using assms(1) [of x "Update [] f" n] by simp
  have below: "fold ap (map (below_child x) ops) n = change_at [x] (fold ap ops) n" for x ops n
    by (rule fold_below) (rule assms(1))
  have "fold ap (child_ops L cs pp (x, f)) n =
      (if x \<in> fst ` set cs then change_at [x] (\<lambda>c. fold ap (sub_ops L cs pp x f) (ap (Update [] f) c)) n else n)" for x f n
    by (simp add: child_ops_def assms(2) below up change_child change_children_twice del: change_at.simps)
      (auto intro!: change_children_cong)
  then have "fold ap (concat (map (child_ops L cs pp) new)) m =
      fold (\<lambda>(x, f) n. if x \<in> fst ` set cs then change_at [x] (\<lambda>c. fold ap (sub_ops L cs pp x f) (ap (Update [] f) c)) n else n) new m"
    unfolding fold_concat_map by (intro fold_cong refl) auto
  also have "\<dots> = change_children (at_kept cs new (\<lambda>y f c. fold ap (sub_ops L cs pp y f) (ap (Update [] f) c))) m"
    by (subst fold_children [OF assms(3)]) (simp add: at_kept_def [abs_def])
  finally show ?thesis .
qed

lemma pass_remove:
  assumes "distinct (map fst new)"
  shows "fold apply_remove (ops_of L (FNode a (Some cs) d) [] pp new) (FNode a (Some cs) d) =
    change_children (at_kept cs new (\<lambda>y f. fold apply_remove (sub_ops L cs pp y f))) (keep_children new (FNode a (Some cs) d))"
  unfolding ops_split
  by (simp add: fold_keep pass_children [OF apply_remove_below _ assms])

lemma pass_update:
  assumes "distinct (map fst new)"
  shows "fold apply_update (ops_of L (FNode a (Some cs) d) [] pp new) m =
    change_children (at_kept cs new (\<lambda>y f c. fold apply_update (sub_ops L cs pp y f) (update_node f c))) m"
  unfolding ops_split
  by (simp add: removes_inert pass_children [OF apply_update_below _ assms])

lemma place_row_change: "place_row x (map (\<lambda>(y, c). (y, g y c)) cs) d = place_row x cs d"
  by (induction cs) (auto simp: place_row_def split: option.splits)

lemma add_child_change:
  assumes "\<And>c. g x c = c"
  shows "change_children g (add_child x f pp m) = add_child x f pp (change_children g m)"
proof (cases m)
  case (FNode a cs d)
  have "map (\<lambda>(y, c). (y, g y c)) (map_set x v l) = map_set x v (map (\<lambda>(y, c). (y, g y c)) l)" for v l
    by (induction l) (auto simp: assms)
  then show ?thesis using FNode by (cases cs) (simp_all add: add_child_def change_children_def place_row_change)
qed

lemma pass_add:
  assumes "distinct (map fst new)"
  shows "fold apply_add (ops_of L (FNode a (Some cs) d) [] pp new) m =
    add_new pp (fst ` set cs) new (change_children (at_kept cs new (\<lambda>y f. fold apply_add (sub_ops L cs pp y f))) m)"
proof -
  let ?g = "\<lambda>new. at_kept cs new (\<lambda>y f. fold apply_add (sub_ops L cs pp y f))"
  have "fold apply_add (concat (map (child_ops L cs pp) new)) m = add_new pp (fst ` set cs) new (change_children (?g new) m)"
    using assms
  proof (induction new arbitrary: m)
    case Nil
    show ?case by (simp add: add_new_def at_kept_def change_children_id)
  next
    case (Cons k new)
    obtain x f where k: "k = (x, f)" by (cases k)
    have fresh: "map_get new x = None" and d: "distinct (map fst new)" using Cons.prems k by (simp_all add: map_of_eq_None_iff)
    show ?case
    proof (cases "x \<in> fst ` set cs")
      case True
      have "fold apply_add (child_ops L cs pp (x, f)) m = change_at [x] (fold apply_add (sub_ops L cs pp x f)) m"
        using True fold_below [where ap = apply_add and x = x and ops = "sub_ops L cs pp x f" and n = m, OF apply_add_below]
        by (simp add: child_ops_def del: change_at.simps)
      then have "fold apply_add (concat (map (child_ops L cs pp) (k # new))) m =
          add_new pp (fst ` set cs) new (change_children (?g new) (change_at [x] (fold apply_add (sub_ops L cs pp x f)) m))"
        unfolding k by (simp add: Cons.IH [OF d] del: change_at.simps)
      also have "change_children (?g new) (change_at [x] (fold apply_add (sub_ops L cs pp x f)) m) = change_children (?g (k # new)) m"
        using True fresh unfolding change_child change_children_twice k
        by (intro change_children_cong) (simp add: at_kept_def)
      finally show ?thesis using True by (simp add: add_new_def k)
    next
      case False
      have "change_children (?g (k # new)) m = change_children (?g new) m"
        using False unfolding k by (intro change_children_cong) (auto simp: at_kept_def split: option.split)
      moreover have "change_children (?g new) (add_child x f pp m) = add_child x f pp (change_children (?g new) m)"
        using fresh by (intro add_child_change) (simp add: at_kept_def)
      moreover have "child_ops L cs pp (x, f) = [Add [] x f pp]" using False by (simp add: child_ops_def)
      ultimately show ?thesis using False by (simp add: add_new_def k Cons.IH [OF d])
    qed
  qed
  then show ?thesis unfolding ops_split by (simp add: removes_inert)
qed

text \<open>A new file for the node at the top does not interfere with the passes below it.\<close>

lemma update_change: "change_children g (update_node f m) = update_node f (change_children g m)"
  by (cases m) (simp add: change_children_def update_node_def)

lemma update_add: "add_new pp old new (update_node f m) = update_node f (add_new pp old new m)"
proof -
  have "add_child x f' pp (update_node f m) = update_node f (add_child x f' pp m)" for x f' m
    by (cases m) (auto simp: add_child_def update_node_def split: option.split)
  then show ?thesis unfolding add_new_def by (induction new arbitrary: m) (auto split: prod.split)
qed

theorem applied_changes:
  assumes "tree_wf n" and "fn_children n \<noteq> None" and "distinct (map fst new)" and "\<And>f. distinct (map fst (L f))"
  shows "applyChanges (ops_of L n [] pp new) n = sync L n pp new"
  using assms(1-3)
proof (induction n arbitrary: pp new rule: fnode_tree_induct)
  case (Dir a cs d)
  let ?k = "keep_children new (FNode a (Some cs) d)"
  define S where "S = sub_ops L cs pp"
  define G where "G = (\<lambda>x c. at_kept cs new (\<lambda>y f. fold apply_add (S y f)) x
    (at_kept cs new (\<lambda>y f c. fold apply_update (S y f) (update_node f c)) x
      (at_kept cs new (\<lambda>y f. fold apply_remove (S y f)) x c)))"
  have "applyChanges (ops_of L (FNode a (Some cs) d) [] pp new) (FNode a (Some cs) d) =
      add_new pp (fst ` set cs) new (change_children G ?k)"
    by (simp only: applyChanges_def pass_remove [OF Dir.prems(3)] pass_update [OF Dir.prems(3)] pass_add [OF Dir.prems(3)]
        change_children_twice G_def S_def)
  also have "change_children G ?k = change_children (\<lambda>x c. case map_get new x of None \<Rightarrow> c
      | Some f \<Rightarrow> update_node f (if descends f c then sync L (the (map_get cs x)) (child_path pp x) (L f) else c)) ?k"
  proof (rule change_children_cong)
    fix x c assume "(x, c) \<in> set (or_else (fn_children ?k) [])"
    then have xc: "(x, c) \<in> set cs" by (simp add: keep_children_def)
    have get: "map_get cs x = Some c" and wf: "tree_wf c" "has_loaded c \<longleftrightarrow> fn_children c \<noteq> None"
      using Dir.prems(1) xc unfolding tree_wf_Some by auto
    have x: "x \<in> fst ` set cs" using xc by force
    show "G x c = (case map_get new x of None \<Rightarrow> c
      | Some f \<Rightarrow> update_node f (if descends f c then sync L (the (map_get cs x)) (child_path pp x) (L f) else c))"
    proof (cases "map_get new x")
      case None
      then show ?thesis by (simp add: G_def at_kept_def)
    next
      case (Some f)
      then have "G x c = fold apply_add (S x f) (fold apply_update (S x f) (update_node f (fold apply_remove (S x f) c)))"
        using x by (simp add: G_def at_kept_def)
      also have "\<dots> = update_node f (if descends f c then sync L c (child_path pp x) (L f) else c)"
      proof (cases "descends f c")
        case False
        then show ?thesis using get by (simp add: S_def sub_ops_def)
      next
        case True
        then obtain a' cs' d' where c: "c = FNode a' (Some cs') d'"
          using wf(2) expanded_loaded [of c] by (cases c) (auto simp: descends_def)
        have "S x f = ops_of L c [] (child_path pp x) (L f)" using True get by (simp add: S_def sub_ops_def)
        moreover have "applyChanges (ops_of L c [] (child_path pp x) (L f)) c = sync L c (child_path pp x) (L f)"
          using Dir.IH [OF xc wf(1) _ assms(4)] wf(2) True expanded_loaded [of c] by (simp add: descends_def)
        ultimately show ?thesis using True unfolding applyChanges_def c
          by (simp only: pass_update [OF assms(4)] pass_add [OF assms(4)] update_change update_add if_True)
      qed
      finally show ?thesis using Some get by simp
    qed
  qed
  finally show ?case by (simp only: sync_Some)
qed simp

section \<open>The tree stays in order\<close>

lemma row_names_simps [simp]:
  "row_names [] = []" "row_names (DRow x # d) = x # row_names d" "row_names (DNote a b # d) = row_names d" "row_names (DHtml h # d) = row_names d"
  "row_names (d @ e) = row_names d @ row_names e"
  by (simp_all add: row_names_def)

lemma row_names_filter: "row_names (filter (\<lambda>r. \<forall>x \<in> X. r \<noteq> DRow x) d) = filter (\<lambda>x. x \<notin> X) (row_names d)"
proof (induction d)
  case (Cons r d)
  then show ?case by (cases r) auto
qed simp

lemma wf_makeNode: "tree_wf (makeNode x f pp k)" "\<not> expanded (makeNode x f pp k)" "\<not> has_loaded (makeNode x f pp k)"
  "fn_file (makeNode x f pp k) = f"
  "fn_children (makeNode x f pp k) = None"
  by (simp_all add: makeNode_def expanded_def has_loaded_def)

lemma wf_attr [simp]: "tree_wf (upd_attr f n) = tree_wf n" "fn_children (upd_attr f n) = fn_children n" "fn_attr (upd_attr f n) = f (fn_attr n)"
  "fn_dom (upd_attr f n) = fn_dom n"
  by (cases n; simp)+

lemma wf_dom [simp]: "fn_children (upd_dom f n) = fn_children n" "fn_attr (upd_dom f n) = fn_attr n"
  by (cases n; simp)+

lemma wf_childless: "fn_children n = None \<Longrightarrow> tree_wf n"
  by (cases n) simp

lemma update_simps [simp]: "expanded (update_node f n) = expanded n" "has_loaded (update_node f n) = has_loaded n"
  "fn_file (update_node f n) = f"
  "fn_children (update_node f n) = fn_children n" "tree_wf (update_node f n) = tree_wf n"
  by (simp_all add: update_node_def expanded_def has_loaded_def)

lemma wf_keep:
  assumes "tree_wf n"
  shows "tree_wf (keep_children new n)"
proof (cases n)
  case (FNode a cs d)
  show ?thesis
  proof (cases cs)
    case None
    then show ?thesis by (simp add: FNode keep_children_def)
  next
    case (Some l)
    let ?gone = "{x \<in> fst ` set l. x \<notin> fst ` set new}"
    have wf: "distinct (map fst l)" "mset (row_names d) = mset (map fst l)"
      "\<forall>(x, c) \<in> set l. tree_wf c \<and> (has_loaded c \<longleftrightarrow> fn_children c \<noteq> None)"
      using assms unfolding FNode Some tree_wf_Some by auto
    have dom: "filter (\<lambda>r. \<forall>x \<in> fst ` set l. x \<notin> fst ` set new \<longrightarrow> r \<noteq> DRow x) d = filter (\<lambda>r. \<forall>x \<in> ?gone. r \<noteq> DRow x) d"
      by (rule filter_cong) auto
    have "mset (filter (\<lambda>x. x \<notin> ?gone) (row_names d)) = mset (filter (\<lambda>x. x \<notin> ?gone) (map fst l))"
      using wf(2) by (simp only: mset_filter)
    also have "filter (\<lambda>x. x \<notin> ?gone) (map fst l) = map fst (filter (\<lambda>(x, _). x \<in> fst ` set new) l)"
      by (auto simp: filter_map comp_def case_prod_unfold intro!: filter_cong arg_cong [where f = "map fst"])
    finally have "mset (row_names (filter (\<lambda>r. \<forall>x \<in> ?gone. r \<noteq> DRow x) d)) = mset (map fst (filter (\<lambda>(x, _). x \<in> fst ` set new) l))"
      unfolding row_names_filter .
    moreover have "distinct (map fst (filter (\<lambda>(x, _). x \<in> fst ` set new) l))" using wf(1) by (rule distinct_map_filter)
    moreover have "\<forall>(x, c) \<in> set (filter (\<lambda>(x, _). x \<in> fst ` set new) l). tree_wf c \<and> (has_loaded c \<longleftrightarrow> fn_children c \<noteq> None)"
      using wf(3) by auto
    moreover have "keep_children new n = FNode a (Some (filter (\<lambda>(x, _). x \<in> fst ` set new) l))
        (filter (\<lambda>r. \<forall>x \<in> ?gone. r \<noteq> DRow x) d)"
      by (simp only: FNode Some keep_children_def fnode.sel option.map or_else_simps dom)
    ultimately show ?thesis by (simp only: tree_wf_Some)
  qed
qed

lemma wf_change:
  assumes "tree_wf n" and "\<And>x c. (x, c) \<in> set (or_else (fn_children n) []) \<Longrightarrow> tree_wf (g x c) \<and> (has_loaded (g x c) \<longleftrightarrow> fn_children (g x c) \<noteq> None)"
  shows "tree_wf (change_children g n)"
proof (cases n)
  case (FNode a cs d)
  then show ?thesis using assms
    by (cases cs) (auto simp: change_children_def tree_wf_Some comp_def case_prod_unfold simp del: tree_wf.simps(1))
qed

lemma mset_place_row:
  assumes "mset (row_names d) = mset (map fst cs)"
  shows "mset (row_names (place_row x cs d)) = add_mset x (mset (map fst cs))"
proof -
  have "mset (row_names (takeWhile P d @ DRow x # dropWhile P d)) = add_mset x (mset (row_names d))" for P
    using row_names_simps(5) [of "takeWhile P d" "dropWhile P d"] by simp
  then show ?thesis using assms by (auto simp: place_row_def split: option.split prod.split)
qed

lemma wf_add:
  assumes "tree_wf n" and "x \<notin> fst ` set (or_else (fn_children n) [])"
  shows "tree_wf (add_child x f pp n)"
proof (cases n)
  case (FNode a cs d)
  show ?thesis
  proof (cases cs)
    case None
    then show ?thesis using assms FNode by (simp add: add_child_def)
  next
    case (Some l)
    have "map_set x (makeNode x f pp 0) l = l @ [(x, makeNode x f pp 0)]"
      using assms(2) unfolding FNode Some by (induction l) auto
    then show ?thesis using assms mset_place_row [of d l x] wf_makeNode
      by (auto simp: FNode Some add_child_def tree_wf_Some simp del: tree_wf.simps)
  qed
qed

lemma kids_add: "fn_children (add_child x f pp n) = map_option (map_set x (makeNode x f pp 0)) (fn_children n)"
  "fn_attr (add_child x f pp n) = fn_attr n"
  by (cases "fn_children n"; simp add: add_child_def)+

lemma kids_add_new:
  assumes "fn_children n = Some cs"
  shows "\<exists>cs'. fn_children (add_new pp old new n) = Some cs' \<and> (\<forall>y. map_get cs' y = (if y \<in> old then map_get cs y
    else case map_get (rev new) y of None \<Rightarrow> map_get cs y | Some f \<Rightarrow> Some (makeNode y f pp 0)))"
  using assms
proof (induction new arbitrary: n cs)
  case Nil
  then show ?case by (simp add: add_new_def)
next
  case (Cons k new)
  obtain x f where k: "k = (x, f)" by (cases k)
  have rv: "map_get (rev (k # new)) y = (case map_get (rev new) y of None \<Rightarrow> if y = x then Some f else None | Some f \<Rightarrow> Some f)" for y
    by (simp add: k map_add_def split: option.split)
  define m where "m = (if x \<in> old then n else add_child x f pp n)"
  define ds where "ds = (if x \<in> old then cs else map_set x (makeNode x f pp 0) cs)"
  have "fn_children m = Some ds" by (simp add: m_def ds_def kids_add Cons.prems)
  from Cons.IH [OF this] obtain cs' where a: "fn_children (add_new pp old new m) = Some cs'"
    and b: "\<forall>y. map_get cs' y = (if y \<in> old then map_get ds y
      else case map_get (rev new) y of None \<Rightarrow> map_get ds y | Some f \<Rightarrow> Some (makeNode y f pp 0))"
    by (elim exE conjE) (rule that)
  have e: "add_new pp old (k # new) n = add_new pp old new m" by (simp add: add_new_def k m_def)
  have "map_get cs' y = (if y \<in> old then map_get cs y
      else case map_get (rev (k # new)) y of None \<Rightarrow> map_get cs y | Some f \<Rightarrow> Some (makeNode y f pp 0))" for y
    unfolding b [rule_format] rv ds_def by (cases "map_get (rev new) y") auto
  then show ?case unfolding e using a by blast
qed

lemma attr_add_new: "fn_attr (add_new pp old new n) = fn_attr n"
  unfolding add_new_def by (induction new arbitrary: n) (auto simp: kids_add split: prod.split)

lemma wf_add_new:
  assumes "tree_wf n" and "fst ` set (or_else (fn_children n) []) \<inter> (fst ` set new - old) = {}" and "distinct (map fst new)"
  shows "tree_wf (add_new pp old new n)"
  using assms
proof (induction new arbitrary: n)
  case Nil
  then show ?case by (simp add: add_new_def)
next
  case (Cons k new)
  obtain x f where k: "k = (x, f)" by (cases k)
  show ?case
  proof (cases "x \<in> old")
    case True
    then show ?thesis using Cons.IH [of n] Cons.prems by (simp add: add_new_def k)
  next
    case False
    have "fst ` set (or_else (fn_children (add_child x f pp n)) []) \<subseteq> insert x (fst ` set (or_else (fn_children n) []))"
      by (cases "fn_children n") (auto simp: kids_add keys_map_set)
    moreover have "x \<notin> fst ` set new" using Cons.prems(3) k by simp
    ultimately have "fst ` set (or_else (fn_children (add_child x f pp n)) []) \<inter> (fst ` set new - old) = {}"
      using Cons.prems(2) k by auto
    moreover have "tree_wf (add_child x f pp n)" using Cons.prems(1,2) False k by (intro wf_add) auto
    ultimately have "tree_wf (add_new pp old new (add_child x f pp n))" using Cons.IH Cons.prems(3) k by simp
    then show ?thesis using False by (simp add: add_new_def k)
  qed
qed

text \<open>A tree shows the listings: at the top and wherever an open directory comes, name by name.\<close>

inductive shows_listing :: "(gfile \<Rightarrow> (string \<times> gfile) list) \<Rightarrow> (string \<times> gfile) list \<Rightarrow> fnode \<Rightarrow> bool"
  for L :: "gfile \<Rightarrow> (string \<times> gfile) list" where
  level: "fn_children n = Some cs \<Longrightarrow> (\<And>x. map_option fn_file (map_get cs x) = map_get new x)
    \<Longrightarrow> (\<And>x c. map_get cs x = Some c \<Longrightarrow> descends (fn_file c) c \<Longrightarrow> shows_listing L (L (fn_file c)) c)
    \<Longrightarrow> shows_listing L new n"

lemma shows_update: "shows_listing L new n \<Longrightarrow> shows_listing L new (update_node f n)"
proof (erule shows_listing.cases, hypsubst)
  fix n new cs
  assume a: "fn_children n = Some cs" "\<And>x. map_option fn_file (map_get cs x) = map_get new x"
    "\<And>x c. map_get cs x = Some c \<Longrightarrow> descends (fn_file c) c \<Longrightarrow> shows_listing L (L (fn_file c)) c"
  have "fn_children (update_node f n) = Some cs" by (simp add: a(1))
  then show "shows_listing L new (update_node f n)" by (rule shows_listing.level) (fact a(2), fact a(3))
qed

lemma sync_attr: "fn_attr (sync L n pp new) = fn_attr n"
  by (cases n) (simp add: Let_def attr_add_new change_children_def keep_children_def)

lemma map_get_kept: "map_get (map (\<lambda>(x, c). (x, g x c)) (filter (\<lambda>(x, _). x \<in> S) cs)) y =
    (if y \<in> S then map_option (g y) (map_get cs y) else None)"
  by (induction cs) auto

lemma sync_level:
  assumes "tree_wf (FNode a (Some cs) d)" and "distinct (map fst new)"
  obtains cs' where "fn_children (sync L (FNode a (Some cs) d) pp new) = Some cs'"
    and "\<And>x. map_get cs' x = (case map_get new x of None \<Rightarrow> None | Some f \<Rightarrow>
      Some (case map_get cs x of None \<Rightarrow> makeNode x f pp 0
        | Some c \<Rightarrow> update_node f (if descends f c then sync L c (child_path pp x) (L f) else c)))"
proof -
  let ?stay = "\<lambda>x c. case map_get new x of None \<Rightarrow> c
      | Some f \<Rightarrow> update_node f (if descends f c then sync L (the (map_get cs x)) (child_path pp x) (L f) else c)"
  let ?kept = "map (\<lambda>(x, c). (x, ?stay x c)) (filter (\<lambda>(x, _). x \<in> fst ` set new) cs)"
  have kids: "fn_children (change_children ?stay (keep_children new (FNode a (Some cs) d))) = Some ?kept"
    by (simp add: change_children_def keep_children_def)
  obtain cs' where cs': "fn_children (sync L (FNode a (Some cs) d) pp new) = Some cs'"
    "\<forall>y. map_get cs' y = (if y \<in> fst ` set cs then map_get ?kept y else case map_get (rev new) y of
       None \<Rightarrow> map_get ?kept y | Some f \<Rightarrow> Some (makeNode y f pp 0))"
    using kids_add_new [OF kids, of pp "fst ` set cs" new, unfolded sync_Some [of L a cs d pp new, symmetric]]
    by (elim exE conjE) (rule that)
  have kept: "map_get ?kept y = (if y \<in> fst ` set new then map_option (?stay y) (map_get cs y) else None)" for y
    by (rule map_get_kept)
  have rv: "map_get (rev new) y = map_get new y" for y
    using assms(2) map_of_inject_set [of "rev new" new] by (simp add: rev_map [symmetric])
  show thesis
  proof (rule that [OF cs'(1)])
    fix y
    show "map_get cs' y = (case map_get new y of None \<Rightarrow> None | Some f \<Rightarrow>
      Some (case map_get cs y of None \<Rightarrow> makeNode y f pp 0
        | Some c \<Rightarrow> update_node f (if descends f c then sync L c (child_path pp y) (L f) else c)))"
      unfolding cs'(2) [rule_format] kept rv using map_of_eq_None_iff [of cs y] map_of_eq_None_iff [of new y]
      by (auto split: option.split)
  qed
qed

lemma sync_shows:
  assumes "tree_wf n" and "fn_children n \<noteq> None" and "distinct (map fst new)" and "\<And>f. distinct (map fst (L f))"
  shows "shows_listing L new (sync L n pp new)"
  using assms(1-3)
proof (induction n arbitrary: pp new rule: fnode_tree_induct)
  case (Dir a cs d)
  obtain cs' where cs': "fn_children (sync L (FNode a (Some cs) d) pp new) = Some cs'"
    "\<And>x. map_get cs' x = (case map_get new x of None \<Rightarrow> None | Some f \<Rightarrow>
      Some (case map_get cs x of None \<Rightarrow> makeNode x f pp 0
        | Some c \<Rightarrow> update_node f (if descends f c then sync L c (child_path pp x) (L f) else c)))"
    by (rule sync_level [OF Dir.prems(1,3), where L = L and pp = pp]) (rule that)
  show ?case
  proof (rule shows_listing.level [OF cs'(1)])
    fix x
    show "map_option fn_file (map_get cs' x) = map_get new x"
      by (auto simp: cs'(2) wf_makeNode split: option.split)
  next
    fix x c' assume c': "map_get cs' x = Some c'" "descends (fn_file c') c'"
    obtain f where f: "map_get new x = Some f" using c'(1) by (auto simp: cs'(2) split: option.splits)
    show "shows_listing L (L (fn_file c')) c'"
    proof (cases "map_get cs x")
      case None
      then have "c' = makeNode x f pp 0" using c'(1) f by (simp add: cs'(2))
      then show ?thesis using c'(2) by (simp add: descends_def wf_makeNode)
    next
      case (Some c)
      let ?n = "if descends f c then sync L c (child_path pp x) (L f) else c"
      have e: "c' = update_node f ?n" using c'(1) f Some by (simp add: cs'(2))
      have "expanded ?n = expanded c" by (simp add: expanded_def sync_attr)
      then have desc: "descends f c" using c'(2) unfolding e by (simp add: descends_def)
      have wf: "tree_wf c" "fn_children c \<noteq> None"
        using Dir.prems(1) map_of_SomeD [OF Some] desc expanded_loaded [of c] unfolding tree_wf_Some descends_def by auto
      show ?thesis unfolding e using Dir.IH [OF map_of_SomeD [OF Some] wf assms(4)] desc by (simp add: shows_update)
    qed
  qed
qed simp

lemma sync_wf:
  assumes "tree_wf n" and "fn_children n \<noteq> None" and "distinct (map fst new)" and "\<And>f. distinct (map fst (L f))"
  shows "tree_wf (sync L n pp new)"
  using assms(1-3)
proof (induction n arbitrary: pp new rule: fnode_tree_induct)
  case (Dir a cs d)
  let ?k = "keep_children new (FNode a (Some cs) d)"
  let ?stay = "\<lambda>x c. case map_get new x of None \<Rightarrow> c
      | Some f \<Rightarrow> update_node f (if descends f c then sync L (the (map_get cs x)) (child_path pp x) (L f) else c)"
  have "tree_wf (change_children ?stay ?k)"
  proof (rule wf_change [OF wf_keep [OF Dir.prems(1)]])
    fix x c assume "(x, c) \<in> set (or_else (fn_children ?k) [])"
    then have xc: "(x, c) \<in> set cs" by (simp add: keep_children_def)
    have get: "map_get cs x = Some c" and wf: "tree_wf c" "has_loaded c \<longleftrightarrow> fn_children c \<noteq> None"
      using Dir.prems(1) xc unfolding tree_wf_Some by auto
    have "tree_wf (sync L c (child_path pp x) (L f)) \<and> has_loaded (sync L c (child_path pp x) (L f)) \<and>
        fn_children (sync L c (child_path pp x) (L f)) \<noteq> None" if "descends f c" for f
    proof (intro conjI)
      show "has_loaded (sync L c (child_path pp x) (L f))"
        using expanded_loaded that by (simp add: descends_def has_loaded_def sync_attr)
      have e: "fn_children c \<noteq> None" using wf(2) that expanded_loaded [of c] by (simp add: descends_def)
      show "tree_wf (sync L c (child_path pp x) (L f))" by (rule Dir.IH [OF xc wf(1) e assms(4)])
      show "fn_children (sync L c (child_path pp x) (L f)) \<noteq> None"
        using sync_shows [where L = L and new = "L f" and pp = "child_path pp x", OF wf(1) e assms(4) assms(4)] by (auto elim: shows_listing.cases)
    qed
    then show "tree_wf (?stay x c) \<and> (has_loaded (?stay x c) \<longleftrightarrow> fn_children (?stay x c) \<noteq> None)"
      using wf get by (auto split: option.split)
  qed
  moreover have "fst ` set (or_else (fn_children (change_children ?stay ?k)) []) \<inter> (fst ` set new - fst ` set cs) = {}"
  proof -
    have "fst ` set (or_else (fn_children (change_children ?stay ?k)) []) \<subseteq> fst ` set cs"
      by (force simp: change_children_def keep_children_def)
    then show ?thesis by blast
  qed
  ultimately show ?case unfolding sync_Some by (rule wf_add_new [OF _ _ Dir.prems(3)])
qed simp

section \<open>A tick of the refresh\<close>

lemma answersE: "answers m x \<Longrightarrow> (\<And>t. m s = Some (Inr x, t) \<Longrightarrow> P) \<Longrightarrow> P"
  unfolding answers_def by metis

lemma answers_on_api:
  assumes "answers m x"
  obtains t where "on_api m (s, w) = Some (Inr x, (t, w))"
  using assms by (rule answersE [where s = s]) (auto simp: on_api_run)

text \<open>What the volume tells while a tick runs: the listing of each directory.\<close>

definition lists :: "'s vapi \<Rightarrow> string \<Rightarrow> (gfile \<Rightarrow> (string \<times> gfile) list) \<Rightarrow> bool" where
  "lists va key L \<longleftrightarrow> (\<forall>f. answers (va_children va key f) (L f) \<and> distinct (map fst (L f)))"

lemma tick_run:
  assumes root: "fw_root w = Some rt" "tree_wf rt" "fn_children rt \<noteq> None"
    and vol: "answers (va_lookup va key (fw_basePath w)) rootFile" "lists va key L"
    and new: "gf_cid rootFile \<noteq> gf_cid (fn_file rt)"
  obtains t where "refreshTick va key busy (s, w) = Some (Inr (), (t, w\<lparr>fw_root := Some
    (if busy > 0 then tick_root rootFile rt else sync L (tick_root rootFile rt) [] (L rootFile))\<rparr>))"
proof -
  let ?rt = "tick_root rootFile rt" and ?w = "w\<lparr>fw_root := Some (tick_root rootFile rt)\<rparr>"
  have kids: "answers (va_children va key f) (L f)" and d: "distinct (map fst (L f))" for f
    using vol(2) by (simp_all add: lists_def)
  have rt: "tree_wf ?rt" "fn_children ?rt \<noteq> None" using root(2,3) by (simp_all add: tick_root_def)
  have ops: "answers (collectChanges (va_children va key) ?rt [] [] (L rootFile)) (ops_of L ?rt [] [] (L rootFile))"
    by (rule collect_answers [OF kids rt])
  obtain t1 where 1: "on_api (va_lookup va key (fw_basePath w)) (s, w) = Some (Inr rootFile, (t1, w))"
    by (rule answers_on_api [OF vol(1)])
  obtain t2 where 2: "on_api (va_children va key rootFile) (t1, w) = Some (Inr (L rootFile), (t2, w))"
    by (rule answers_on_api [OF kids])
  obtain t3 where 3: "on_api (collectChanges (va_children va key) ?rt [] [] (L rootFile)) (t2, ?w)
      = Some (Inr (ops_of L ?rt [] [] (L rootFile)), (t3, ?w))"
    by (rule answers_on_api [OF ops])
  have w1: "on_widget (\<lambda>w. w\<lparr>fw_root := map_option (tick_root rootFile) (fw_root w)\<rparr>) (t2, w) = Some (Inr (), (t2, ?w))"
    by (simp add: on_widget_run root(1))
  have "sync_root va key busy rootFile (t1, w) = Some (Inr (), (t3, w\<lparr>fw_root := Some
      (if busy > 0 then ?rt else sync L ?rt [] (L rootFile))\<rparr>))"
    using applied_changes [where pp = "[]" and L = L and new = "L rootFile", OF rt d d]
    by (simp add: sync_root_def abind_def 2 w1 with_widget_run root(1) 3 on_widget_run aret_def)
  then have "refreshTick va key busy (s, w) = Some (Inr (), (t3, w\<lparr>fw_root := Some
      (if busy > 0 then ?rt else sync L ?rt [] (L rootFile))\<rparr>))"
    unfolding refreshTick_def with_widget_run root(1)
    using new by (simp add: acatch_def abind_def 1)
  then show thesis by (rule that)
qed


text \<open>
  C27. A tick that finds another load in progress has already noted the new identifier of the directory when it drops
  its changes, so that the next tick sees nothing to do: the rows stay as they were, where the code
  says that the next tick tries again.
\<close>

theorem busy_tick_is_lost:
  assumes "fw_root w = Some rt" "tree_wf rt" "fn_children rt \<noteq> None"
    and "answers (va_lookup va key (fw_basePath w)) rootFile" "lists va key L"
    and "gf_cid rootFile \<noteq> gf_cid (fn_file rt)" and "busy > 0"
  shows "\<exists>t. abind (refreshTick va key busy) (\<lambda>_. refreshTick va key 0) (s, w)
     = Some (Inr (), (t, w\<lparr>fw_root := Some (tick_root rootFile rt)\<rparr>))"
proof -
  let ?w = "w\<lparr>fw_root := Some (tick_root rootFile rt)\<rparr>"
  obtain t1 where 1: "refreshTick va key busy (s, w) = Some (Inr (), (t1, ?w))"
    using tick_run [OF assms(1-6), where busy = busy and s = s] assms(7) by auto
  obtain t2 where 2: "on_api (va_lookup va key (fw_basePath w)) (t1, ?w) = Some (Inr rootFile, (t2, ?w))"
    by (rule answers_on_api [OF assms(4)])
  have "refreshTick va key 0 (t1, ?w) = Some (Inr (), (t2, ?w))"
    unfolding refreshTick_def with_widget_run by (simp add: acatch_def abind_def 2 aret_def) (simp add: tick_root_def)
  then have "abind (refreshTick va key busy) (\<lambda>_. refreshTick va key 0) (s, w) = Some (Inr (), (t2, ?w))"
    by (simp add: abind_def 1)
  then show ?thesis by blast
qed

section \<open>Opening and loading\<close>

lemma row_names_kids: "row_names (map (\<lambda>(x, _). DRow x) ks) = map fst ks"
  by (induction ks) auto

lemma foldl_update: "distinct (map fst ks) \<Longrightarrow> fst ` set m \<inter> fst ` set ks = {}
    \<Longrightarrow> foldl (\<lambda>m (x, f). map_set x (g x f) m) m ks = m @ map (\<lambda>(x, f). (x, g x f)) ks"
proof (induction ks arbitrary: m)
  case (Cons k ks)
  obtain x f where k: "k = (x, f)" by (cases k)
  have "map_set x v m = m @ [(x, v)]" for v
    using Cons.prems(2) unfolding k by (induction m) auto
  moreover have "foldl (\<lambda>m (x, f). map_set x (g x f) m) (m @ [(x, g x f)]) ks = (m @ [(x, g x f)]) @ map (\<lambda>(x, f). (x, g x f)) ks"
    using Cons.prems unfolding k by (intro Cons.IH) auto
  ultimately show ?case by (simp add: k)
qed simp

definition kid_nodes :: "string \<Rightarrow> nat \<Rightarrow> (string \<times> gfile) list \<Rightarrow> (string \<times> fnode) list" where
  "kid_nodes pp k ks = map (\<lambda>(x, f). (x, makeNode x f pp k)) ks"

lemma kid_nodes_get: "map_get (kid_nodes pp k ks) x = map_option (\<lambda>f. makeNode x f pp k) (map_get ks x)"
  by (induction ks) (auto simp: kid_nodes_def)

lemma kid_nodes_names: "map fst (kid_nodes pp k ks) = map fst ks"
  by (simp add: kid_nodes_def comp_def case_prod_unfold)

lemma fill_node_eq:
  assumes "distinct (map fst kids)"
  shows "fill_node le k kids n =
    FNode (fn_attr n) (Some (kid_nodes (fa_fullPath (fn_attr n)) k (js_sort (dirs_first le) kids)))
      (map (\<lambda>(x, _). DRow x) (js_sort (dirs_first le) kids) @ (if js_sort (dirs_first le) kids = [] then [DNote ''gf-loading'' ''(empty)''] else []))"
  using assms foldl_update [of "js_sort (dirs_first le) kids" "[]" "\<lambda>x f. makeNode x f (fa_fullPath (fn_attr n)) k"]
  by (simp add: fill_node_def Let_def distinct_js_sort kid_nodes_def)

lemma wf_fill:
  assumes "distinct (map fst kids)"
  shows "tree_wf (fill_node le k kids n)"
proof -
  have "tree_wf (FNode a (Some (kid_nodes pp k ks)) (map (\<lambda>(x, _). DRow x) ks @ (if ks = [] then [DNote b c] else [])))"
    if "distinct (map fst ks)" for a pp ks b c
  proof -
    have "mset (row_names (map (\<lambda>(x, _). DRow x) ks @ (if ks = [] then [DNote b c] else []))) = mset (map fst ks)"
      by (simp only: row_names_simps row_names_kids) simp
    then show ?thesis using that unfolding tree_wf_Some kid_nodes_names
      by (auto simp: kid_nodes_def wf_makeNode)
  qed
  then show ?thesis unfolding fill_node_eq [OF assms] using assms by (simp add: distinct_js_sort del: tree_wf.simps)
qed

lemma fill_shows:
  assumes "distinct (map fst kids)"
  shows "shows_listing L kids (fill_node le k kids n)"
proof -
  let ?ks = "js_sort (dirs_first le) kids" and ?pp = "fa_fullPath (fn_attr n)"
  have get: "map_get ?ks = map_get kids" using assms by (simp add: map_of_inject_set distinct_js_sort)
  have "fn_children (fill_node le k kids n) = Some (kid_nodes ?pp k ?ks)" by (simp add: fill_node_eq [OF assms])
  then show ?thesis
  proof (rule shows_listing.level)
    show "map_option fn_file (map_get (kid_nodes ?pp k ?ks) x) = map_get kids x" for x
      unfolding kid_nodes_get get by (cases "map_get kids x") (simp_all add: wf_makeNode)
    show "shows_listing L (L (fn_file c)) c"
      if "map_get (kid_nodes ?pp k ?ks) x = Some c" "descends (fn_file c) c" for x c
      using that unfolding kid_nodes_get get by (auto simp: descends_def wf_makeNode)
  qed
qed

text \<open>An opened directory: its directories come first, and each group is in the order of the names.\<close>

lemma dirs_first_preorder: "preorder le \<Longrightarrow> preorder (dirs_first le)"
  unfolding preorder_def dirs_first_def by (auto split: if_splits)

theorem opened_in_order:
  assumes "preorder le" and "distinct (map fst kids)"
  shows "\<exists>ks. mset ks = mset kids \<and> row_names (fn_dom (fill_node le k kids n)) = map fst ks \<and> sorted_wrt (dirs_first le) ks"
proof (intro exI conjI)
  let ?ks = "js_sort (dirs_first le) kids"
  show "mset ?ks = mset kids" by simp
  show "row_names (fn_dom (fill_node le k kids n)) = map fst ?ks"
    unfolding fill_node_eq [OF assms(2)] fnode.sel row_names_simps row_names_kids by simp
  show "sorted_wrt (dirs_first le) ?ks" using assms(1) by (intro sorted_js_sort dirs_first_preorder)
qed

text \<open>Opening and closing keep the tree in order, once what was fetched has arrived or failed.\<close>

definition in_order :: "fnode \<Rightarrow> bool" where
  "in_order n \<longleftrightarrow> tree_wf n \<and> (has_loaded n \<longleftrightarrow> fn_children n \<noteq> None)"

lemma in_order_change_at:
  assumes "in_order n" and "\<And>m. node_at p n = Some m \<Longrightarrow> in_order m \<Longrightarrow> in_order (g m)"
  shows "in_order (change_at p g n)"
  using assms
proof (induction p arbitrary: n)
  case Nil
  then show ?case by simp
next
  case (Cons x p)
  have e: "change_at (x # p) g n = change_children (\<lambda>y c. if y = x then change_at p g c else c) n"
    by (subst change_at_Cons) (simp only: change_child)
  have "tree_wf (change_children (\<lambda>y c. if y = x then change_at p g c else c) n)"
  proof (rule wf_change)
    show "tree_wf n" using Cons.prems(1) by (simp add: in_order_def)
    fix y c assume "(y, c) \<in> set (or_else (fn_children n) [])"
    then obtain cs where cs: "fn_children n = Some cs" "(y, c) \<in> set cs" by (cases "fn_children n") auto
    obtain a d where n: "n = FNode a (Some cs) d" using cs(1) by (cases n) simp
    have c: "in_order c" "map_get cs y = Some c" using Cons.prems(1) cs(2) unfolding n tree_wf_Some in_order_def by auto
    have "in_order (if y = x then change_at p g c else c)"
    proof (cases "y = x")
      case True
      have "in_order (g m)" if "node_at p c = Some m" "in_order m" for m
        using Cons.prems(2) [of m] that c(2) cs(1) True by simp
      then show ?thesis using True Cons.IH [OF c(1)] by simp
    qed (simp add: c(1))
    then show "tree_wf (if y = x then change_at p g c else c) \<and> (has_loaded (if y = x then change_at p g c else c)
        \<longleftrightarrow> fn_children (if y = x then change_at p g c else c) \<noteq> None)" unfolding in_order_def .
  qed
  then show ?case using Cons.prems(1) unfolding e
    by (auto simp: in_order_def has_loaded_def change_children_def)
qed

lemma fill_simps [simp]: "fn_attr (fill_node le k kids n) = fn_attr n" "fn_children (fill_node le k kids n) \<noteq> None"
  by (simp_all add: fill_node_def Let_def)

lemma in_order_fill: "distinct (map fst kids) \<Longrightarrow> fa_loaded (fn_attr n) \<Longrightarrow> in_order (fill_node le k kids n)"
  using fill_simps(2) [of le k kids n] by (simp add: in_order_def wf_fill has_loaded_def del: fill_simps(2))

lemma change_at_twice: "change_at p g (change_at p h n) = change_at p (\<lambda>m. g (h m)) n"
proof (induction p arbitrary: n)
  case (Cons x p)
  then show ?case by (cases n) (auto simp: comp_def case_prod_unfold option.map_comp cong: if_cong option.map_cong)
qed simp

theorem toggle_in_order:
  assumes "in_order rt" and "case r of Inl e \<Rightarrow> True | Inr kids \<Rightarrow> distinct (map fst kids)"
  shows "in_order (let (rt', fetch) = toggle_start p rt in if fetch then toggle_done le p r rt' else rt')"
proof (cases "node_at p rt")
  case None
  then show ?thesis using assms(1) by (simp add: toggle_start_def)
next
  case (Some n)
  have ch: "in_order (change_at p g rt)" if "\<And>m. m = n \<Longrightarrow> in_order m \<Longrightarrow> in_order (g m)" for g
    using that Some by (intro in_order_change_at [OF assms(1)]) auto
  consider "\<not> isDir (fn_file n)" | "isDir (fn_file n)" "fa_open (fn_attr n)"
    | "isDir (fn_file n)" "\<not> fa_open (fn_attr n)" "fa_loaded (fn_attr n)"
    | "isDir (fn_file n)" "\<not> fa_open (fn_attr n)" "\<not> fa_loaded (fn_attr n)" by blast
  then show ?thesis
  proof cases
    case 1
    then show ?thesis using assms(1) Some by (simp add: toggle_start_def)
  next
    case 2
    have "in_order (change_at p (upd_attr (\<lambda>a. a\<lparr>fa_open := False\<rparr>)) rt)"
      by (rule ch) (simp add: in_order_def has_loaded_def)
    then show ?thesis using 2 Some by (simp add: toggle_start_def)
  next
    case 3
    have "in_order (change_at p (upd_attr (\<lambda>a. a\<lparr>fa_open := True\<rparr>)) rt)"
      by (rule ch) (simp add: in_order_def has_loaded_def)
    then show ?thesis using 3 Some by (simp add: toggle_start_def)
  next
    case 4
    show ?thesis
    proof (cases r)
      case (Inl e)
      have "in_order (change_at p (\<lambda>m. upd_dom (\<lambda>_. [DHtml (error_html e)]) (upd_attr (\<lambda>a. a\<lparr>fa_loaded := False\<rparr>)
          (upd_dom (\<lambda>d. d @ [DNote ''gf-loading'' ''...'']) (upd_attr (\<lambda>a. a\<lparr>fa_open := True, fa_loaded := True\<rparr>) m)))) rt)"
        using 4 by (intro ch) (auto simp: in_order_def has_loaded_def wf_childless)
      then show ?thesis using 4 Some Inl by (simp add: toggle_start_def toggle_done_def change_at_twice)
    next
      case (Inr kids)
      have "in_order (change_at p (\<lambda>m. fill_node le (length p) kids
          (upd_dom (\<lambda>d. d @ [DNote ''gf-loading'' ''...'']) (upd_attr (\<lambda>a. a\<lparr>fa_open := True, fa_loaded := True\<rparr>) m))) rt)"
        using assms(2) Inr by (intro ch in_order_fill) simp_all
      then show ?thesis using 4 Some Inr by (simp add: toggle_start_def toggle_done_def change_at_twice)
    qed
  qed
qed

text \<open>Closing an open directory and opening it again only shows it as it was: nothing is fetched.\<close>

lemma reopen_fetches_nothing:
  assumes "node_at p rt = Some n" and "isDir (fn_file n)" and "fa_open (fn_attr n)" and "fa_loaded (fn_attr n)" and "tree_wf rt"
  shows "node_at p (fst (toggle_start p rt)) = Some (upd_attr (\<lambda>a. a\<lparr>fa_open := False\<rparr>) n)
    \<and> toggle_start p (fst (toggle_start p rt)) = (rt, False)"
proof -
  have at: "node_at p (change_at p g rt) = map_option g (node_at p rt)" for g
  proof (induction p arbitrary: rt)
    case (Cons x p)
    show ?case
    proof (cases rt)
      case (FNode a cs d)
      have "map_get (map (\<lambda>(y, c). (y, if y = x then change_at p g c else c)) l) x = map_option (change_at p g) (map_get l x)" for l
        by (induction l) auto
      then show ?thesis using FNode Cons by (auto split: option.splits)
    qed
  qed simp
  have same: "change_at p g rt = rt" if "g n = n" for g
    using assms(1,5)
  proof (induction p arbitrary: rt)
    case Nil
    then show ?case using that by simp
  next
    case (Cons x p)
    obtain a cs d where rt: "rt = FNode a (Some cs) d" using Cons.prems(1) by (cases rt) (auto split: option.splits)
    then obtain c where c: "map_get cs x = Some c" "node_at p c = Some n" using Cons.prems(1) by (auto split: option.splits)
    have d: "distinct (map fst cs)" "tree_wf c" using Cons.prems(2) map_of_SomeD [OF c(1)] unfolding rt tree_wf_Some by auto
    have "(if y = x then change_at p g c' else c') = c'" if "(y, c') \<in> set cs" for y c'
      using c(1) Cons.IH [OF c(2) d(2)] map_of_is_SomeI [OF d(1) that] by auto
    then have "map (\<lambda>(y, c). (y, if y = x then change_at p g c else c)) cs = cs" by (auto intro!: map_idI)
    then show ?case by (simp add: rt)
  qed
  have "upd_attr (\<lambda>a. a\<lparr>fa_open := True\<rparr>) (upd_attr (\<lambda>a. a\<lparr>fa_open := False\<rparr>) n) = n"
    using assms(3) by (cases n) simp
  then show ?thesis using assms by (simp add: toggle_start_def at change_at_twice same)
qed

text \<open>
  A directory that was closed while its files changed shows the old ones when it is opened again: the refresh
  replaces the file of its node but not its children, and opening takes them as loaded.
\<close>

definition dir_file :: "string \<Rightarrow> gfile" where
  "dir_file c = \<lparr>gf_cid = c, gf_meta = JObj [(''type'', JStr ''dir'')], gf_path = None\<rparr>"

definition plain_file :: "string \<Rightarrow> gfile" where
  "plain_file c = \<lparr>gf_cid = c, gf_meta = JObj [(''type'', JStr ''blob'')], gf_path = None\<rparr>"

definition small_volume :: "gfile \<Rightarrow> (string \<times> gfile) list" where
  "small_volume f =
     (if gf_cid f = ''r1'' then [(''d'', dir_file ''d1'')]
      else if gf_cid f = ''r2'' then [(''d'', dir_file ''d2'')]
      else if gf_cid f = ''d1'' then [(''old'', plain_file ''x'')]
      else if gf_cid f = ''d2'' then [(''new'', plain_file ''y'')] else [])"

definition opened_tree :: fnode where
  "opened_tree =
     toggle_done (\<le>) [''d''] (Inr (small_volume (dir_file ''d1'')))
       (fst (toggle_start [''d''] (fill_node (\<le>) 0 (small_volume (dir_file ''r1'')) (root_of (dir_file ''r1'') []))))"

theorem reopened_directory_is_stale:
  "let closed = fst (toggle_start [''d''] opened_tree);
       synced = sync small_volume (tick_root (dir_file ''r2'') closed) [] (small_volume (dir_file ''r2''));
       (reopened, fetch) = toggle_start [''d''] synced;
       n = the (node_at [''d''] reopened)
   in \<not> fetch \<and> fn_file n = dir_file ''d2'' \<and> expanded n \<and> row_names (fn_dom n) = [''old'']
      \<and> small_volume (fn_file n) = [(''new'', plain_file ''y'')]"
  by code_simp

text \<open>The path a file of the tree is opened with names its volume and leads to it.\<close>

theorem opened_path_resolves:
  assumes "slash \<notin> set (fw_volume w)"
  shows "resolvePath (open_path w n) = (fw_volume w, ''/'' @ (if fw_basePath w \<noteq> [] then
      (if fa_fullPath (fn_attr n) \<noteq> [] then fw_basePath w @ ''/'' @ fa_fullPath (fn_attr n) else fw_basePath w)
    else fa_fullPath (fn_attr n)))"
  using resolvePath_volume [OF assms] by (simp add: open_path_def Let_def)

section \<open>Examples\<close>

definition small_api :: "unit vapi" where
  "small_api = still_api\<lparr>va_lookup := \<lambda>key p. aret (dir_file ''r2''), va_children := \<lambda>key f. aret (small_volume f)\<rparr>"

definition small_widget :: files where
  "small_widget = (new_files None)\<lparr>fw_root := Some opened_tree\<rparr>"

lemma small_lists: "lists small_api key small_volume"
  unfolding lists_def small_api_def by (auto simp: answers_aret small_volume_def)

lemma small_facts: "tree_wf opened_tree" "fn_children opened_tree \<noteq> None" "fn_file opened_tree = dir_file ''r1''"
  by code_simp+


theorem busy_tick_is_lost_witness:
  "\<exists>t. abind (refreshTick small_api ''k'' 1) (\<lambda>_. refreshTick small_api ''k'' 0) ((), small_widget)
     = Some (Inr (), (t, small_widget\<lparr>fw_root := Some (tick_root (dir_file ''r2'') opened_tree)\<rparr>))"
proof -
  have "answers (va_lookup small_api ''k'' (fw_basePath small_widget)) (dir_file ''r2'')"
    by (simp add: small_api_def answers_aret)
  moreover have "gf_cid (dir_file ''r2'') \<noteq> gf_cid (fn_file opened_tree)" by (simp add: small_facts dir_file_def)
  ultimately show ?thesis
    using busy_tick_is_lost [of small_widget opened_tree small_api "''k''" "dir_file ''r2''" small_volume 1 "()"] small_lists small_facts
    by (simp add: small_widget_def)
qed

theorem toggle_in_order_witness:
  "in_order (let (rt', fetch) = toggle_start [''d''] opened_tree in if fetch then toggle_done (\<le>) [''d''] (Inl (Err_Type ''x'')) rt' else rt')"
proof (rule toggle_in_order)
  show "in_order opened_tree" by code_simp
qed simp

theorem opened_in_order_witness:
  "\<exists>ks. mset ks = mset (small_volume (dir_file ''r1''))
     \<and> row_names (fn_dom (fill_node (\<le>) 0 (small_volume (dir_file ''r1'')) opened_tree)) = map fst ks \<and> sorted_wrt (dirs_first (\<le>)) ks"
proof (rule opened_in_order)
  show "preorder ((\<le>) :: string \<Rightarrow> string \<Rightarrow> bool)" by (auto simp: preorder_def)
  show "distinct (map fst (small_volume (dir_file ''r1'')))" by code_simp
qed

theorem opened_path_resolves_witness:
  "resolvePath (open_path (small_widget\<lparr>fw_basePath := ''home''\<rparr>) (makeNode ''a'' (plain_file ''x'') ''d'' 1)) = (''primary'', ''/home/d/a'')"
proof -
  have "slash \<notin> set (fw_volume (small_widget\<lparr>fw_basePath := ''home''\<rparr>))" by code_simp
  from opened_path_resolves [OF this, of "makeNode ''a'' (plain_file ''x'') ''d'' 1"] show ?thesis
    by (simp add: small_widget_def new_files_def makeNode_def)
qed

theorem applied_changes_witness:
  "applyChanges (ops_of small_volume opened_tree [] [] (small_volume (dir_file ''r2''))) opened_tree
     = sync small_volume opened_tree [] (small_volume (dir_file ''r2''))"
  by (rule applied_changes) (simp_all add: small_facts small_volume_def dir_file_def)

end
