(* ===== verification/Dialog.thy ===== *)
theory Dialog
  imports Contracts
begin

text \<open>
  The dialogs of the shell (gimbal/dialog.js): the toast, of which one is shown at a time and which leaves after a
  while or when it is clicked, and the four prompts. Elements and timers are numbered as they are made; a timer is
  pending until it fires or is cleared, and pending timers may fire in any order.
\<close>

section \<open>Toasts\<close>

datatype timer_action = Dismiss nat | Drop nat

text \<open>\<open>to_el\<close> and \<open>to_timer\<close> are the variables \<open>_toastEl\<close> and \<open>_toastTimer\<close>.\<close>

record toasts =
  to_shown :: "(nat \<times> string) list"
  to_el :: "nat option"
  to_timer :: "nat option"
  to_pending :: "(nat \<times> timer_action) list"
  to_leaving :: "nat list"
  to_els :: nat
  to_timers :: nat

definition no_toasts :: toasts where
  "no_toasts = \<lparr>to_shown = [], to_el = None, to_timer = None, to_pending = [], to_leaving = [], to_els = 0, to_timers = 0\<rparr>"

definition remove_el :: "nat \<Rightarrow> toasts \<Rightarrow> toasts" where
  "remove_el e s = s\<lparr>to_shown := map_del e (to_shown s)\<rparr>"

definition clearTimeout :: "nat option \<Rightarrow> toasts \<Rightarrow> toasts" where
  "clearTimeout i s = (case i of None \<Rightarrow> s | Some i \<Rightarrow> s\<lparr>to_pending := map_del i (to_pending s)\<rparr>)"

definition setTimeout :: "timer_action \<Rightarrow> toasts \<Rightarrow> toasts" where
  "setTimeout a s = s\<lparr>to_pending := to_pending s @ [(to_timers s, a)], to_timers := to_timers s + 1\<rparr>"

definition forget_current :: "toasts \<Rightarrow> toasts" where
  "forget_current s = clearTimeout (to_timer s) (s\<lparr>to_el := None\<rparr>)"

definition toast :: "string \<Rightarrow> toasts \<Rightarrow> toasts" where
  "toast message s =
     (let s1 = (case to_el s of None \<Rightarrow> s | Some e \<Rightarrow> forget_current (remove_el e s));
          e = to_els s1;
          s2 = s1\<lparr>to_shown := to_shown s1 @ [(e, message)], to_els := e + 1, to_el := Some e\<rparr>
      in (setTimeout (Dismiss e) s2)\<lparr>to_timer := Some (to_timers s2)\<rparr>)"

definition dismissToast :: "nat \<Rightarrow> toasts \<Rightarrow> toasts" where
  "dismissToast e s =
     (if e \<notin> fst ` set (to_shown s) then s
      else setTimeout (Drop e) (s\<lparr>to_leaving := to_leaving s @ [e]\<rparr>))"

definition dropped :: "nat \<Rightarrow> toasts \<Rightarrow> toasts" where
  "dropped e s = (let s = remove_el e s in if to_el s = Some e then forget_current s else s)"

definition run_action :: "timer_action \<Rightarrow> toasts \<Rightarrow> toasts" where
  "run_action a s = (case a of Dismiss e \<Rightarrow> dismissToast e s | Drop e \<Rightarrow> dropped e s)"

definition fire :: "nat \<Rightarrow> toasts \<Rightarrow> toasts" where
  "fire i s =
     (case map_get (to_pending s) i of
        None \<Rightarrow> s
      | Some a \<Rightarrow> run_action a (s\<lparr>to_pending := map_del i (to_pending s)\<rparr>))"

text \<open>What can happen: a toast is asked for, one that is shown is clicked, a timer fires.\<close>

inductive happens :: "toasts \<Rightarrow> toasts \<Rightarrow> bool" where
  ask: "happens s (toast m s)"
| click: "e \<in> fst ` set (to_shown s) \<Longrightarrow> happens s (dismissToast e s)"
| fires: "i \<in> fst ` set (to_pending s) \<Longrightarrow> happens s (fire i s)"

inductive toasts_reach :: "toasts \<Rightarrow> bool" where
  start: "toasts_reach no_toasts"
| more: "toasts_reach s \<Longrightarrow> happens s t \<Longrightarrow> toasts_reach t"

section \<open>The toast that is shown\<close>

text \<open>
  The one shown is the current one, a timer is going to take it away, and the timer that would be cleared
  with it is its own.
\<close>

definition toast_ok :: "toasts \<Rightarrow> bool" where
  "toast_ok s \<longleftrightarrow>
     distinct (map fst (to_pending s)) \<and> list_all (\<lambda>(i, _). i < to_timers s) (to_pending s)
   \<and> list_all (\<lambda>(_, a). (case a of Dismiss e \<Rightarrow> e | Drop e \<Rightarrow> e) < to_els s) (to_pending s)
   \<and> (case to_el s of
        None \<Rightarrow> to_shown s = []
      | Some e \<Rightarrow> e < to_els s \<and> map fst (to_shown s) = [e]
          \<and> (\<exists>i. (i, Dismiss e) \<in> set (to_pending s) \<or> (i, Drop e) \<in> set (to_pending s))
          \<and> (\<exists>i. to_timer s = Some i \<and> i < to_timers s \<and> (\<forall>a. (i, a) \<in> set (to_pending s) \<longrightarrow> a = Dismiss e)))"

lemma toast_okD:
  assumes "toast_ok s"
  shows "distinct (map fst (to_pending s))" "list_all (\<lambda>(i, _). i < to_timers s) (to_pending s)"
    "list_all (\<lambda>(_, a). (case a of Dismiss e \<Rightarrow> e | Drop e \<Rightarrow> e) < to_els s) (to_pending s)"
  using assms by (simp_all add: toast_ok_def)

lemma list_all_del: "list_all P m \<Longrightarrow> list_all P (map_del k m)"
  using set_map_del_subset [of k m] by (auto simp: list_all_iff)

lemma mem_del: "(j, b) \<in> set (map_del i p) \<longleftrightarrow> (j, b) \<in> set p \<and> j \<noteq> i"
  by (auto simp: AList.delete_eq)

lemma fresh_timer: fixes n :: nat shows "list_all (\<lambda>(i, _). i < n) p \<Longrightarrow> (n, a) \<notin> set p"
  by (induction p) auto

lemma fresh_key: fixes n :: nat shows "list_all (\<lambda>(i, _). i < n) p \<Longrightarrow> n \<notin> fst ` set p"
  by (induction p) auto

lemma ok_start: "toast_ok no_toasts"
  by (simp add: toast_ok_def no_toasts_def)

lemma ok_toast: "toast_ok s \<Longrightarrow> toast_ok (toast m s)"
proof -
  assume ok: "toast_ok s"
  define p where "p = (case to_el s of None \<Rightarrow> to_pending s | Some _ \<Rightarrow> case to_timer s of None \<Rightarrow> to_pending s | Some i \<Rightarrow> map_del i (to_pending s))"
  have t: "toast m s = \<lparr>to_shown = [(to_els s, m)], to_el = Some (to_els s), to_timer = Some (to_timers s),
      to_pending = p @ [(to_timers s, Dismiss (to_els s))], to_leaving = to_leaving s, to_els = to_els s + 1, to_timers = to_timers s + 1\<rparr>"
  proof (cases "to_el s")
    case None
    then show ?thesis using ok
      by (simp add: toast_ok_def toast_def Let_def setTimeout_def p_def)
  next
    case (Some e)
    then obtain c i where "to_shown s = [(e, c)]" "to_timer s = Some i" using ok by (auto simp: toast_ok_def)
    then show ?thesis using Some
      by (simp add: toast_def Let_def setTimeout_def p_def remove_el_def forget_current_def clearTimeout_def)
  qed
  have p: "distinct (map fst p)" "list_all (\<lambda>(i, _). i < to_timers s) p"
    "list_all (\<lambda>(_, a). (case a of Dismiss e \<Rightarrow> e | Drop e \<Rightarrow> e) < to_els s) p"
    using toast_okD [OF ok] by (auto simp: p_def list_all_del split: option.split)
  then show ?thesis unfolding t toast_ok_def using fresh_timer [OF p(2)] fresh_key [OF p(2)]
    by (auto simp: list_all_iff less_Suc_eq)
qed

lemma ok_dismiss:
  assumes "toast_ok s"
  shows "toast_ok (dismissToast e s)"
proof (cases "e \<in> fst ` set (to_shown s)")
  case True
  then have el: "to_el s = Some e" using assms by (cases "to_el s") (auto simp: toast_ok_def)
  then have "e < to_els s" using assms by (simp add: toast_ok_def)
  then show ?thesis using assms fresh_timer [OF toast_okD(2) [OF assms]] fresh_key [OF toast_okD(2) [OF assms]] el True
    by (auto simp: toast_ok_def dismissToast_def setTimeout_def list_all_iff less_Suc_eq)
qed (simp add: dismissToast_def assms)

text \<open>A timer that is not the last resort of the current toast may go.\<close>

lemma ok_without:
  assumes "toast_ok s" and "map_get (to_pending s) i = Some a" and "\<And>e. to_el s = Some e \<Longrightarrow> a \<noteq> Dismiss e \<and> a \<noteq> Drop e"
  shows "toast_ok (s\<lparr>to_pending := map_del i (to_pending s)\<rparr>)"
proof (cases "to_el s")
  case None
  then show ?thesis using assms(1) by (auto simp: toast_ok_def list_all_del)
next
  case (Some e)
  have keep: "(j, b) \<in> set (map_del i (to_pending s))" if "(j, b) \<in> set (to_pending s)" "b \<noteq> a" for j b
    using that assms(2) map_of_is_SomeI [OF toast_okD(1) [OF assms(1)] that(1)] by (auto simp: mem_del)
  show ?thesis using assms(1) assms(3) [OF Some] Some keep
    by (auto simp: toast_ok_def list_all_del mem_del simp del: map_of_eq_Some_iff)
qed

lemma ok_fire:
  assumes "toast_ok s"
  shows "toast_ok (fire i s)"
proof (cases "map_get (to_pending s) i")
  case None
  then show ?thesis using assms by (simp add: fire_def)
next
  case (Some a)
  let ?s = "s\<lparr>to_pending := map_del i (to_pending s)\<rparr>"
  have f: "fire i s = run_action a ?s" by (simp add: fire_def Some)
  show ?thesis
  proof (cases "\<exists>e. to_el s = Some e \<and> (a = Dismiss e \<or> a = Drop e)")
    case False
    then have ok: "toast_ok ?s" by (intro ok_without [OF assms Some]) blast
    show ?thesis
    proof (cases a)
      case (Dismiss e)
      then show ?thesis unfolding f by (simp add: run_action_def ok_dismiss [OF ok])
    next
      case (Drop e)
      have "to_el s \<noteq> Some e" using False Drop by blast
      moreover have "map_del e (to_shown s) = to_shown s"
      proof (cases "to_el s")
        case None
        then show ?thesis using assms by (simp add: toast_ok_def)
      next
        case (Some e')
        then obtain c where "to_shown s = [(e', c)]" using assms by (auto simp: toast_ok_def)
        then show ?thesis using Some \<open>to_el s \<noteq> Some e\<close> by auto
      qed
      ultimately show ?thesis unfolding f using ok Drop by (simp add: run_action_def dropped_def remove_el_def Let_def)
    qed
  next
    case True
    then obtain e where e: "to_el s = Some e" "a = Dismiss e \<or> a = Drop e" by blast
    obtain c j where c: "to_shown s = [(e, c)]" and j: "to_timer s = Some j" "j < to_timers s" "e < to_els s"
      using assms e(1) by (auto simp: toast_ok_def)
    from e(2) show ?thesis
    proof
      assume a: "a = Dismiss e"
      have "dismissToast e ?s = s\<lparr>to_pending := map_del i (to_pending s) @ [(to_timers s, Drop e)],
          to_leaving := to_leaving s @ [e], to_timers := to_timers s + 1\<rparr>"
        by (simp add: dismissToast_def c setTimeout_def)
      moreover have "\<forall>a. (j, a) \<in> set (to_pending s) \<longrightarrow> a = Dismiss e"
        using assms e(1) j(1) by (auto simp: toast_ok_def)
      moreover have "list_all (\<lambda>(i, _). i < to_timers s) (map_del i (to_pending s))"
        "list_all (\<lambda>(_, a). (case a of Dismiss e \<Rightarrow> e | Drop e \<Rightarrow> e) < to_els s) (map_del i (to_pending s))"
        using toast_okD [OF assms] by (simp_all add: list_all_del)
      ultimately show ?thesis unfolding f a using c j e(1) toast_okD(1) [OF assms] fresh_timer [OF toast_okD(2) [OF assms]]
        by (auto simp: run_action_def toast_ok_def list_all_iff less_Suc_eq mem_del keys_map_del)
    next
      assume "a = Drop e"
      then show ?thesis unfolding f using c j e(1) toast_okD [OF assms]
        by (simp add: run_action_def dropped_def remove_el_def Let_def forget_current_def clearTimeout_def toast_ok_def list_all_del
            distinct_map_del)
    qed
  qed
qed

lemma ok_happens: "toast_ok s \<Longrightarrow> happens s t \<Longrightarrow> toast_ok t"
  by (erule happens.cases) (simp_all add: ok_toast ok_dismiss ok_fire)

interpretation toaster: step_invariant happens "\<lambda>s. s = no_toasts" toast_ok
  by unfold_locales (auto intro: ok_start ok_happens)

lemma toasts_ok: "toasts_reach s \<Longrightarrow> toast_ok s"
proof -
  assume "toasts_reach s"
  then have "happens\<^sup>*\<^sup>* no_toasts s" by (induction rule: toasts_reach.induct) auto
  then show ?thesis by (rule toaster.reached [OF refl])
qed

text \<open>At most one toast is shown at a time: the current one; the others are gone with their rows.\<close>

theorem one_toast:
  assumes "toasts_reach s"
  shows "map fst (to_shown s) = (case to_el s of None \<Rightarrow> [] | Some e \<Rightarrow> [e])"
  using toasts_ok [OF assms] by (auto simp: toast_ok_def split: option.splits)

theorem one_toast_witness: "map fst (to_shown (toast ''b'' (fire 0 (toast ''a'' no_toasts)))) = [1]"
proof -
  let ?s = "toast ''b'' (fire 0 (toast ''a'' no_toasts))"
  have "toasts_reach (toast ''a'' no_toasts)" by (rule toasts_reach.more [OF toasts_reach.start happens.ask])
  moreover have "0 \<in> fst ` set (to_pending (toast ''a'' no_toasts))" by code_simp
  ultimately have "toasts_reach (fire 0 (toast ''a'' no_toasts))" by (rule toasts_reach.more [OF _ happens.fires])
  then have "toasts_reach ?s" by (rule toasts_reach.more [OF _ happens.ask])
  moreover have "to_el ?s = Some 1" by code_simp
  ultimately show ?thesis using one_toast by auto
qed

text \<open>
  What an old toast left behind does not touch the current one: neither the firing of its timers nor the
  clearing that goes with them.
\<close>

lemma old_timer_harmless:
  assumes "toasts_reach s" and "map_get (to_pending s) i = Some a" and "to_el s = Some e" and "a \<noteq> Dismiss e" "a \<noteq> Drop e"
  shows "to_shown (fire i s) = to_shown s \<and> to_el (fire i s) = Some e \<and> to_pending (fire i s) = map_del i (to_pending s)"
proof -
  obtain c where "to_shown s = [(e, c)]" using toasts_ok [OF assms(1)] assms(3) by (auto simp: toast_ok_def)
  then show ?thesis using assms(2-5)
    by (cases a) (auto simp: fire_def run_action_def dismissToast_def dropped_def remove_el_def Let_def)
qed

section \<open>Every toast goes\<close>

text \<open>The timers that are pending fire one after the other, the oldest first.\<close>

definition weight :: "(nat \<times> timer_action) list \<Rightarrow> nat" where
  "weight p = sum_list (map (\<lambda>(_, a). case a of Dismiss _ \<Rightarrow> 2 | Drop _ \<Rightarrow> 1) p)"

lemma weight_del: "weight (map_del i p) \<le> weight p"
  by (induction p) (auto simp: weight_def split: timer_action.split)

lemma weight_del_in: "map_get p i = Some a \<Longrightarrow> weight (map_del i p) + (case a of Dismiss _ \<Rightarrow> 2 | Drop _ \<Rightarrow> 1) \<le> weight p"
proof (induction p)
  case (Cons x p)
  then show ?case using weight_del [of i p] by (cases x) (auto simp: weight_def split: if_splits timer_action.split)
qed simp

lemma weight_fire:
  assumes "map_get (to_pending s) i = Some a"
  shows "weight (to_pending (fire i s)) < weight (to_pending s)"
proof (cases a)
  case (Dismiss e)
  have "weight (p @ [(j, Drop e)]) = weight p + 1" for p j by (simp add: weight_def)
  then show ?thesis using weight_del_in [OF assms] Dismiss assms
    by (simp add: fire_def run_action_def dismissToast_def setTimeout_def)
next
  case (Drop e)
  have "weight (map_del j (map_del i (to_pending s))) < weight (to_pending s)" for j
    using weight_del [of j "map_del i (to_pending s)"] weight_del_in [OF assms] Drop by simp
  then show ?thesis using weight_del_in [OF assms] Drop assms
    by (simp add: fire_def run_action_def dropped_def remove_el_def Let_def forget_current_def clearTimeout_def split: option.split)
qed

function fire_all :: "toasts \<Rightarrow> toasts" where
  "fire_all s = (case to_pending s of [] \<Rightarrow> s | (i, _) # _ \<Rightarrow> fire_all (fire i s))"
  by auto
termination
proof (relation "measure (\<lambda>s. weight (to_pending s))")
  fix s :: toasts and k i a p
  assume "to_pending s = k # p" and "(i, a) = k"
  then have "map_get (to_pending s) i = Some a" by auto
  then show "(fire i s, s) \<in> measure (\<lambda>s. weight (to_pending s))" by (simp add: weight_fire)
qed simp

declare fire_all.simps [simp del]

lemma ok_fire_all: "toast_ok s \<Longrightarrow> toast_ok (fire_all s) \<and> to_pending (fire_all s) = []"
proof (induction s rule: fire_all.induct)
  case (1 s)
  show ?case
  proof (cases "to_pending s")
    case Nil
    then show ?thesis using 1(2) by (simp add: fire_all.simps [of s])
  next
    case (Cons k p)
    obtain i a where k: "k = (i, a)" by (cases k)
    have "toast_ok (fire_all (fire i s)) \<and> to_pending (fire_all (fire i s)) = []"
      using 1(1) [OF Cons k [symmetric]] ok_fire [OF 1(2)] by simp
    then show ?thesis using Cons k by (simp add: fire_all.simps [of s])
  qed
qed

text \<open>
  C34. Whatever was shown and clicked before, once the pending timers have fired no toast is left, and no timer.
\<close>

theorem toasts_go:
  assumes "toasts_reach s"
  shows "to_shown (fire_all s) = [] \<and> to_el (fire_all s) = None \<and> to_pending (fire_all s) = []"
  using ok_fire_all [OF toasts_ok [OF assms]] by (auto simp: toast_ok_def split: option.splits)

theorem toasts_go_witness: "to_shown (fire_all (toast ''a'' no_toasts)) = []"
proof -
  have "toasts_reach (toast ''a'' no_toasts)" by (rule toasts_reach.more [OF toasts_reach.start happens.ask])
  then show ?thesis using toasts_go by blast
qed

section \<open>Prompts\<close>

text \<open>
  The inputs of a prompt, which one has the focus, and what its promise was resolved with: the first value it gets
  stays. Events name the input they happen in.
\<close>

record 'r prompt =
  pm_message :: string
  pm_inputs :: "string list"
  pm_focus :: nat
  pm_answer :: "'r option"

datatype pevent = Ok_click | Cancel_click | Input_change nat string | Enter nat | Escape nat

definition close_prompt :: "'r \<Rightarrow> 'r prompt \<Rightarrow> 'r prompt" where
  "close_prompt r p = (if pm_answer p = None then p\<lparr>pm_answer := Some r\<rparr> else p)"

definition change_input :: "nat \<Rightarrow> string \<Rightarrow> 'r prompt \<Rightarrow> 'r prompt" where
  "change_input i t p = p\<lparr>pm_inputs := (pm_inputs p)[i := t]\<rparr>"

definition promptInput :: "string \<Rightarrow> string \<Rightarrow> string option prompt" where
  "promptInput message defaultValue = \<lparr>pm_message = message, pm_inputs = [defaultValue], pm_focus = 0, pm_answer = None\<rparr>"

definition input_event :: "pevent \<Rightarrow> string option prompt \<Rightarrow> string option prompt" where
  "input_event e p =
     (case e of
        Ok_click \<Rightarrow> close_prompt (Some (hd (pm_inputs p))) p
      | Cancel_click \<Rightarrow> close_prompt None p
      | Input_change i t \<Rightarrow> change_input 0 t p
      | Enter i \<Rightarrow> close_prompt (Some (hd (pm_inputs p))) p
      | Escape i \<Rightarrow> close_prompt None p)"

definition promptPassword :: "string \<Rightarrow> string option prompt" where
  "promptPassword message =
     \<lparr>pm_message = (if message \<noteq> [] then message else ''Password:''), pm_inputs = [[]], pm_focus = 0, pm_answer = None\<rparr>"

text \<open>The user's name and the password; Enter in the name goes on to the password.\<close>

definition promptCredentials :: "string \<Rightarrow> (string \<times> string) option prompt" where
  "promptCredentials message =
     \<lparr>pm_message = (if message \<noteq> [] then message else ''Login''), pm_inputs = [[], []], pm_focus = 0, pm_answer = None\<rparr>"

definition credentials :: "'r prompt \<Rightarrow> string \<times> string" where
  "credentials p = (pm_inputs p ! 0, pm_inputs p ! 1)"

definition credentials_event :: "pevent \<Rightarrow> (string \<times> string) option prompt \<Rightarrow> (string \<times> string) option prompt" where
  "credentials_event e p =
     (case e of
        Ok_click \<Rightarrow> close_prompt (Some (credentials p)) p
      | Cancel_click \<Rightarrow> close_prompt None p
      | Input_change i t \<Rightarrow> change_input i t p
      | Enter i \<Rightarrow> if i = 0 then p\<lparr>pm_focus := 1\<rparr> else close_prompt (Some (credentials p)) p
      | Escape i \<Rightarrow> close_prompt None p)"

text \<open>The question with two buttons, where \<open>Ok_click\<close> is the one to discard.\<close>

definition confirmDialog :: "string \<Rightarrow> bool prompt" where
  "confirmDialog message = \<lparr>pm_message = message, pm_inputs = [], pm_focus = 0, pm_answer = None\<rparr>"

definition confirm_event :: "pevent \<Rightarrow> bool prompt \<Rightarrow> bool prompt" where
  "confirm_event e p =
     (case e of
        Ok_click \<Rightarrow> close_prompt True p
      | Cancel_click \<Rightarrow> close_prompt False p
      | Escape i \<Rightarrow> close_prompt False p
      | Input_change i t \<Rightarrow> p
      | Enter i \<Rightarrow> p)"

text \<open>Who asks gets the first answer: what comes after it changes nothing.\<close>

lemma close_stays: "pm_answer p = Some r \<Longrightarrow> pm_answer (close_prompt s p) = Some r"
  by (simp add: close_prompt_def)

lemma event_stays:
  "pm_answer p = Some r \<Longrightarrow> pm_answer (input_event e p) = Some r"
  "pm_answer q = Some t \<Longrightarrow> pm_answer (credentials_event e q) = Some t"
  "pm_answer c = Some b \<Longrightarrow> pm_answer (confirm_event e c) = Some b"
  by (cases e; simp add: input_event_def credentials_event_def confirm_event_def close_stays change_input_def)+

lemma stays_fold: "(\<And>e p r. pm_answer p = Some r \<Longrightarrow> pm_answer (ev e p) = Some r) \<Longrightarrow> pm_answer p = Some r \<Longrightarrow> pm_answer (fold ev es p) = Some r"
  by (induction es arbitrary: p) auto

lemma input_event_simps:
  "input_event Ok_click p = close_prompt (Some (hd (pm_inputs p))) p" "input_event Cancel_click p = close_prompt None p"
  "input_event (Enter i) p = close_prompt (Some (hd (pm_inputs p))) p" "input_event (Escape i) p = close_prompt None p"
  by (simp_all add: input_event_def)

text \<open>What the user meant: the text as it stood when OK or Enter came, or nothing when the prompt was cancelled first.\<close>

fun typed :: "string \<Rightarrow> pevent list \<Rightarrow> string" where
  "typed t [] = t"
| "typed t (Input_change i u # es) = typed u es"
| "typed t (e # es) = typed t es"

definition closing :: "pevent \<Rightarrow> bool" where
  "closing e \<longleftrightarrow> (case e of Input_change _ _ \<Rightarrow> False | _ \<Rightarrow> True)"

definition cancels :: "pevent \<Rightarrow> bool" where
  "cancels e \<longleftrightarrow> (case e of Cancel_click \<Rightarrow> True | Escape _ \<Rightarrow> True | _ \<Rightarrow> False)"

theorem prompt_answers:
  "pm_answer (fold input_event es (promptInput message dflt)) =
     (case dropWhile (\<lambda>e. \<not> closing e) es of
        [] \<Rightarrow> None
      | e # _ \<Rightarrow> Some (if cancels e then None else Some (typed dflt (takeWhile (\<lambda>e. \<not> closing e) es))))"
proof -
  have "pm_answer (fold input_event es \<lparr>pm_message = message, pm_inputs = [t], pm_focus = 0, pm_answer = None\<rparr>) =
     (case dropWhile (\<lambda>e. \<not> closing e) es of
        [] \<Rightarrow> None
      | e # _ \<Rightarrow> Some (if cancels e then None else Some (typed t (takeWhile (\<lambda>e. \<not> closing e) es))))" for t
  proof (induction es arbitrary: t)
    case (Cons e es)
    show ?case
    proof (cases e)
      case (Input_change i u)
      have "\<not> closing (Input_change i u)" by (simp add: closing_def)
      moreover have "input_event (Input_change i u) \<lparr>pm_message = message, pm_inputs = [t], pm_focus = 0, pm_answer = None\<rparr>
          = \<lparr>pm_message = message, pm_inputs = [u], pm_focus = 0, pm_answer = None\<rparr>"
        by (simp add: input_event_def change_input_def)
      ultimately show ?thesis using Cons.IH [of u] Input_change by (simp cong: list.case_cong if_cong)
    qed (simp_all add: closing_def cancels_def input_event_simps close_prompt_def stays_fold [OF event_stays(1)])
  qed simp
  then show ?thesis by (simp add: promptInput_def)
qed

text \<open>Credentials are given only with both inputs as they stand, and Enter in the name does not give them.\<close>

theorem credentials_answer:
  assumes "pm_answer p = None" and "pm_answer (credentials_event e p) = Some (Some (u, pw))"
  shows "(u, pw) = credentials p \<and> e \<noteq> Enter 0 \<and> \<not> cancels e"
  using assms by (cases e) (auto simp: credentials_event_def close_prompt_def change_input_def cancels_def split: if_splits)

theorem credentials_answer_witness:
  "credentials (credentials_event (Input_change 1 ''pw'') (credentials_event (Input_change 0 ''me'') (promptCredentials []))) = (''me'', ''pw'')"
proof -
  let ?p = "credentials_event (Input_change 1 ''pw'') (credentials_event (Input_change 0 ''me'') (promptCredentials []))"
  have "pm_answer ?p = None" "pm_answer (credentials_event Ok_click ?p) = Some (Some (''me'', ''pw''))" by code_simp+
  from credentials_answer [OF this] show ?thesis by simp
qed

end
