(* ===== verification/Editor.thy ===== *)
theory Editor
  imports Widgets Dialog
begin

text \<open>
  The text editor (codemirror/gwm-widget.js): loading, editing, saving, saving under another name, a new document
  and the question before closing, with the answers of the dialogs of gimbal/dialog.js.

  The document is CodeMirror's: \<open>cm\<close> is what a document made from a text reads as (it joins the lines with
  newlines). What the user does during the awaits of an operation is an argument, \<open>during\<close>.
\<close>

section \<open>State\<close>

text \<open>
  The document, once CodeMirror is mounted; the file by its path. \<open>ed_saveBtn\<close> and \<open>ed_saveAsBtn\<close> are the
  buttons where the shell shows them: whether it is enabled and highlighted, whether it is highlighted.
\<close>

record editor =
  ed_doc :: "string option"
  ed_dirty :: bool
  ed_path :: "string option"
  ed_name :: string
  ed_file :: "string option"
  ed_saveBtn :: "(bool \<times> bool) option"
  ed_saveAsBtn :: "bool option"
  ed_title :: string
  ed_dot :: bool
  ed_lang :: "string option"
  ed_error :: "string option"
  ed_toasts :: "string list"

definition new_editor :: "string \<Rightarrow> string option \<Rightarrow> bool \<Rightarrow> editor" where
  "new_editor name path buttons =
     (let nm = (case path of None \<Rightarrow> name | Some p \<Rightarrow> gp_toString p)
      in \<lparr>ed_doc = None, ed_dirty = False, ed_path = path, ed_name = nm, ed_file = path,
          ed_saveBtn = (if buttons then Some (path \<noteq> None, False) else None),
          ed_saveAsBtn = (if buttons then Some False else None), ed_title = nm, ed_dot = False,
          ed_lang = None, ed_error = None, ed_toasts = []\<rparr>)"

definition markDirty :: "bool \<Rightarrow> editor \<Rightarrow> editor" where
  "markDirty isDirty w =
     (if ed_dirty w = isDirty then w
      else (let hasPath = ed_file w \<noteq> None
            in w\<lparr>ed_dirty := isDirty,
                 ed_saveBtn := map_option (\<lambda>_. (hasPath, isDirty \<and> hasPath)) (ed_saveBtn w),
                 ed_saveAsBtn := map_option (\<lambda>_. isDirty \<and> \<not> hasPath) (ed_saveAsBtn w),
                 ed_dot := isDirty\<rparr>))"

text \<open>A change by the user, and the change that empties the document; CodeMirror tells of a change only when there is one.\<close>

definition edit_doc :: "string \<Rightarrow> editor \<Rightarrow> editor" where
  "edit_doc t w = (case ed_doc w of None \<Rightarrow> w | Some _ \<Rightarrow> markDirty True (w\<lparr>ed_doc := Some t\<rparr>))"

definition clear_doc :: "editor \<Rightarrow> editor" where
  "clear_doc w = (if ed_doc w = None \<or> ed_doc w = Some [] then w else edit_doc [] w)"

definition toast_ed :: "string \<Rightarrow> editor \<Rightarrow> editor" where
  "toast_ed m w = w\<lparr>ed_toasts := ed_toasts w @ [m]\<rparr>"

section \<open>Mounting and loading\<close>

definition langMap :: "(string \<times> string) list" where
  "langMap = [(''js'', ''lang-javascript''), (''mjs'', ''lang-javascript''), (''ts'', ''lang-javascript''),
     (''css'', ''lang-css''), (''html'', ''lang-html''), (''json'', ''lang-json''),
     (''md'', ''lang-markdown''), (''py'', ''lang-python'')]"

text \<open>The language package; None also where it cannot be imported, which \<open>has\<close> tells.\<close>

definition loadLang :: "(string \<Rightarrow> bool) \<Rightarrow> string option \<Rightarrow> string option" where
  "loadLang has path =
     (case path of
        None \<Rightarrow> None
      | Some p \<Rightarrow>
          (case map_get langMap (to_lower (last (js_split (CHR ''.'') p))) of
             None \<Rightarrow> None
           | Some pkg \<Rightarrow> if has pkg then Some pkg else None))"

definition mountCM :: "(string \<Rightarrow> string) \<Rightarrow> (string \<Rightarrow> bool) \<Rightarrow> string \<Rightarrow> editor \<Rightarrow> editor" where
  "mountCM cm has initialText w =
     markDirty False (w\<lparr>ed_doc := Some (cm initialText), ed_lang := loadLang has (ed_path w)\<rparr>)"

definition ed_fail :: "string \<Rightarrow> editor \<Rightarrow> editor" where
  "ed_fail m w = w\<lparr>ed_error := Some m\<rparr>"

text \<open>The text of the file, and \<open>load\<close>, with a response as the payload or not.\<close>

definition file_text :: "'s vapi \<Rightarrow> string \<Rightarrow> ('s, string) aprog" where
  "file_text va p = on_path va p (\<lambda>key path. abind (va_lookup va key path) (va_text va key))"

definition load_editor :: "'s vapi \<Rightarrow> (string \<Rightarrow> string) \<Rightarrow> (string \<Rightarrow> bool) \<Rightarrow> response option \<Rightarrow> ('s, editor, unit) wprog" where
  "load_editor va cm has payload =
     (case payload of
        Some resp \<Rightarrow>
          (case resp_text resp of
             Inr t \<Rightarrow> on_widget (mountCM cm has t)
           | Inl e \<Rightarrow> on_widget (ed_fail (''Error reading payload: '' @ err_message e)))
      | None \<Rightarrow>
          with_widget (\<lambda>w.
            case ed_file w of
              None \<Rightarrow> on_widget (mountCM cm has [])
            | Some p \<Rightarrow>
                acatch (abind (on_api (file_text va p)) (\<lambda>t. on_widget (mountCM cm has t)))
                  (\<lambda>e. on_widget (ed_fail (''Error loading '' @ or_else (ed_path w) ''null'' @ '': '' @ err_message e)))))"

section \<open>Saving\<close>

text \<open>Put the text, wrap it as a file, and link it; the identifier that is linked.\<close>

definition store_text :: "'s vapi \<Rightarrow> string \<Rightarrow> string \<Rightarrow> ('s, string) aprog" where
  "store_text va p text = on_path va p (\<lambda>key path.
     abind (store_file va key (text_encode text)) (\<lambda>metaCID.
     abind (va_link va key metaCID path) (\<lambda>_. aret metaCID)))"

definition save_done :: "err + string \<Rightarrow> editor \<Rightarrow> editor" where
  "save_done r w = (case r of Inr _ \<Rightarrow> markDirty False w | Inl e \<Rightarrow> toast_ed (''Save failed: '' @ err_message e) w)"

definition save :: "'s vapi \<Rightarrow> (editor \<Rightarrow> editor) \<Rightarrow> ('s, editor, unit) wprog" where
  "save va during =
     with_widget (\<lambda>w.
       case (ed_file w, ed_doc w) of
         (Some p, Some text) \<Rightarrow>
           abind (atry (on_api (store_text va p text))) (\<lambda>r.
             on_widget (\<lambda>w. save_done r (during w)))
       | _ \<Rightarrow> aret ())"

text \<open>\<open>answer\<close> is what the prompt gives, None when it is cancelled.\<close>

definition saved_as :: "string \<Rightarrow> editor \<Rightarrow> editor" where
  "saved_as answer w =
     (let nm = last (js_split slash answer)
      in markDirty False (w\<lparr>ed_file := Some (volume_path answer), ed_path := Some answer, ed_name := nm, ed_title := nm\<rparr>))"

definition saveAs_done :: "string \<Rightarrow> err + string \<Rightarrow> editor \<Rightarrow> editor" where
  "saveAs_done a r w = (case r of Inr _ \<Rightarrow> saved_as a w | Inl e \<Rightarrow> toast_ed (''Save failed: '' @ err_message e) w)"

definition saveAs :: "'s vapi \<Rightarrow> string option \<Rightarrow> (editor \<Rightarrow> editor) \<Rightarrow> ('s, editor, unit) wprog" where
  "saveAs va answer during =
     with_widget (\<lambda>w.
       case (ed_doc w, answer) of
         (Some text, Some a) \<Rightarrow>
           if a = [] then aret ()
           else
             abind (atry (on_api (store_text va (volume_path a) text))) (\<lambda>r.
               on_widget (\<lambda>w. saveAs_done a r (during w)))
       | _ \<Rightarrow> aret ())"

definition saveAs_default :: "editor \<Rightarrow> string" where
  "saveAs_default w = or_else (ed_file w) ''(untitled)''"

section \<open>A new document, and closing\<close>

definition display_name :: "editor \<Rightarrow> string" where
  "display_name w = (if ed_name w \<noteq> [] then ed_name w else ''Untitled'')"

definition newDocument :: "(string \<Rightarrow> string) \<Rightarrow> (string \<Rightarrow> bool) \<Rightarrow> bool \<Rightarrow> editor \<Rightarrow> editor" where
  "newDocument cm has discard w =
     (if ed_dirty w \<and> \<not> discard then w
      else
        (let w1 = w\<lparr>ed_name := [], ed_path := None, ed_file := None\<rparr>;
             w2 = (if ed_doc w1 \<noteq> None then markDirty False (clear_doc w1) else mountCM cm has [] w1)
         in w2\<lparr>ed_title := []\<rparr>))"

text \<open>The question before closing: what is asked, if anything, and whether the answer lets the editor close.\<close>

definition close_question :: "editor \<Rightarrow> string option" where
  "close_question w =
     (if \<not> ed_dirty w then None
      else Some ([CHR 0x22] @ display_name w @ [CHR 0x22] @ '' has unsaved changes. Close anyway?''))"

definition onCloseRequest :: "bool \<Rightarrow> editor \<Rightarrow> bool" where
  "onCloseRequest answer w = (if \<not> ed_dirty w then True else answer)"

section \<open>What is not marked is stored\<close>

lemma markDirty_simps [simp]:
  "ed_dirty (markDirty b w) = b" "ed_doc (markDirty b w) = ed_doc w" "ed_file (markDirty b w) = ed_file w"
  "ed_path (markDirty b w) = ed_path w" "ed_name (markDirty b w) = ed_name w" "ed_title (markDirty b w) = ed_title w"
  "ed_error (markDirty b w) = ed_error w" "ed_toasts (markDirty b w) = ed_toasts w"
  by (simp_all add: markDirty_def Let_def)

lemma edit_simps [simp]:
  "ed_doc (edit_doc t w) = map_option (\<lambda>_. t) (ed_doc w)" "ed_file (edit_doc t w) = ed_file w"
  "ed_dirty (edit_doc t w) = (ed_dirty w \<or> ed_doc w \<noteq> None)"
  by (auto simp: edit_doc_def split: option.split)

lemma clear_simps [simp]:
  "ed_doc (clear_doc w) = map_option (\<lambda>_. []) (ed_doc w)" "ed_file (clear_doc w) = ed_file w"
  by (auto simp: clear_doc_def split: option.split)

lemma toast_simps [simp]:
  "ed_doc (toast_ed m w) = ed_doc w" "ed_dirty (toast_ed m w) = ed_dirty w" "ed_file (toast_ed m w) = ed_file w"
  by (simp_all add: toast_ed_def)

lemma mount_simps [simp]:
  "ed_doc (mountCM cm has t w) = Some (cm t)" "ed_dirty (mountCM cm has t w) = False" "ed_file (mountCM cm has t w) = ed_file w"
  by (simp_all add: mountCM_def)

text \<open>
  The life of an editor whose saves are not interrupted, with the text that its file, or for a new document
  nothing, holds.
\<close>

inductive life :: "(string \<Rightarrow> string) \<Rightarrow> (string \<Rightarrow> bool) \<Rightarrow> editor \<Rightarrow> string \<Rightarrow> bool"
  for cm :: "string \<Rightarrow> string" and has :: "string \<Rightarrow> bool" where
  created: "life cm has (new_editor name path buttons) []"
| mounted: "life cm has w base \<Longrightarrow> ed_doc w = None \<Longrightarrow> life cm has (mountCM cm has t w) (cm t)"
| load_failed: "life cm has w base \<Longrightarrow> life cm has (ed_fail m w) base"
| edited: "life cm has w base \<Longrightarrow> life cm has (edit_doc t w) base"
| saved: "life cm has w base \<Longrightarrow> ed_doc w = Some text \<Longrightarrow> ed_file w = Some p
    \<Longrightarrow> life cm has (save_done r w) (if isl r then base else text)"
| saved_as: "life cm has w base \<Longrightarrow> ed_doc w = Some text
    \<Longrightarrow> life cm has (saveAs_done a r w) (if isl r then base else text)"
| new_document: "life cm has w base
    \<Longrightarrow> life cm has (newDocument cm has discard w)
         (if ed_dirty w \<and> \<not> discard then base else if ed_doc w = None then cm [] else [])"

text \<open>An editor that is not marked shows what is stored.\<close>

lemma unmarked_is_stored: "life cm has w base \<Longrightarrow> \<not> ed_dirty w \<Longrightarrow> ed_doc w = None \<or> ed_doc w = Some base"
proof (induction rule: life.induct)
  case (created name path buttons)
  then show ?case by (simp add: new_editor_def Let_def)
next
  case (load_failed w base m)
  then show ?case by (simp add: ed_fail_def)
next
  case (edited w base t)
  then show ?case by (cases "ed_doc w") (simp_all add: edit_doc_def)
next
  case (saved w base content p r)
  then show ?case by (cases r) (simp_all add: save_done_def)
next
  case (saved_as w base content a r)
  then show ?case by (cases r) (simp_all add: saveAs_done_def saved_as_def Let_def)
next
  case (new_document w base discard)
  then show ?case by (cases "ed_doc w") (auto simp: newDocument_def Let_def)
qed simp_all



text \<open>
  What is typed while a save is under way is taken for stored: the text put is the one read before the first
  await, but the mark is taken away at the end, so that closing does not ask.
\<close>

theorem typed_during_save_unmarked:
  assumes "ed_doc w = Some a"
  shows "let w' = save_done (Inr m) (edit_doc b w) in ed_doc w' = Some b \<and> \<not> ed_dirty w' \<and> onCloseRequest False w'
     \<and> ed_doc (newDocument cm has False w') = Some []"
proof -
  let ?w' = "save_done (Inr m) (edit_doc b w)"
  have "ed_doc ?w' = Some b" "\<not> ed_dirty ?w'" using assms by (simp_all add: save_done_def)
  moreover have "ed_doc (newDocument cm has False ?w') = Some []" using calculation by (simp add: newDocument_def Let_def)
  ultimately show ?thesis by (simp add: onCloseRequest_def Let_def)
qed

theorem typed_during_save_unmarked_witness:
  "let w' = save_done (Inr ''m'') (edit_doc ''b'' (mountCM id (\<lambda>_. True) ''a'' (new_editor ''e'' (Some ''/a'') True)))
   in ed_doc w' = Some ''b'' \<and> \<not> ed_dirty w'"
proof -
  have "ed_doc (mountCM id (\<lambda>_. True) ''a'' (new_editor ''e'' (Some ''/a'') True)) = Some ''a''" by simp
  from typed_during_save_unmarked [OF this, of "''m''" "''b''" id "\<lambda>_. True"] show ?thesis by (simp add: Let_def)
qed

text \<open>How a save runs: the text as it is at the start is stored at the path, and the end sees what happened meanwhile.\<close>

lemma save_run:
  assumes "ed_file w = Some p" "ed_doc w = Some content" "store_text va p content s = Some (r, t)"
  shows "save va during (s, w) = Some (Inr (), (t, save_done r (during w)))"
  using assms by (cases r) (simp_all add: save_def wprog_simps atry_def)

text \<open>
  The save button is only updated with the mark. A new document in an empty unmarked editor leaves it
  enabled without a file; a new document that is saved under a name before anything was typed leaves it disabled.
\<close>

lemma stale_save_button:
  "let w = newDocument id (\<lambda>_. True) False (mountCM id (\<lambda>_. True) [] (new_editor ''e'' (Some ''/a'') True))
   in ed_file w = None \<and> ed_saveBtn w = Some (True, False)"
  "let w = saveAs_done ''/x'' (Inr ''m'') (mountCM id (\<lambda>_. True) [] (new_editor ''e'' None True))
   in ed_file w = Some ''/x'' \<and> ed_saveBtn w = Some (False, False)"
  by code_simp+

text \<open>
  Once the user has typed, the button is right: enabled exactly where there is a file, and
  the one to save as is highlighted exactly where there is none.
\<close>

lemma buttons_after_edit:
  assumes "ed_doc w \<noteq> None" and "\<not> ed_dirty w" and "ed_saveBtn w \<noteq> None" and "ed_saveAsBtn w \<noteq> None"
  shows "ed_saveBtn (edit_doc t w) = Some (ed_file w \<noteq> None, ed_file w \<noteq> None) \<and> ed_saveAsBtn (edit_doc t w) = Some (ed_file w = None)"
  using assms by (auto simp: edit_doc_def markDirty_def Let_def)

text \<open>
  Save as, with the dialog: the user's Enter without a change saves the file in its place, and an untitled
  document as the file \<open>(untitled)\<close> of the primary volume.
\<close>

definition save_as_message :: string where
  "save_as_message = ''Save as'' @ [CHR 0xE2, CHR 0x80, CHR 0xA6]"

definition prompted_name :: "pevent list \<Rightarrow> editor \<Rightarrow> string option" where
  "prompted_name es w =
     (case pm_answer (fold input_event es (promptInput save_as_message (saveAs_default w))) of None \<Rightarrow> None | Some a \<Rightarrow> a)"

lemma enter_saves_in_place:
  "prompted_name (Enter 0 # es) w = Some (saveAs_default w)"
  unfolding prompted_name_def prompt_answers by (simp add: closing_def cancels_def)

section \<open>What is saved\<close>

lemma content_of_blob_meta: "js_string (js_prop (meta_json ''blob'' n c k ts) ''contentHash'') = c"
  by (simp add: meta_json_def)

text \<open>An identifier that names the metadata of a file whose text can only be read as \<open>text\<close>.\<close>

definition reads_back :: "'w platform \<Rightarrow> 'w cl vapi \<Rightarrow> string \<Rightarrow> string \<Rightarrow> bool" where
  "reads_back P va text m \<longleftrightarrow>
     (\<forall>f key. names P m (gf_meta f) \<longrightarrow> keeps (sound P) (va_text va key f) (\<lambda>t. t = text))"



end
