(* ===== verification/Compose.thy ===== *)
theory Compose
  imports Widgets
begin

text \<open>
  The compose widget (mail/gwm-widget.js): the form for a message, its validation and the sending. A click on a
  disabled button is no event; \<open>during\<close> is what the user changes while the message is being sent.
\<close>

section \<open>The form\<close>

record compose =
  co_from :: jsv
  co_to :: string
  co_subject :: string
  co_body :: string
  co_hint :: string
  co_invalid :: bool
  co_disabled :: bool
  co_sending :: bool
  co_label :: string
  co_toasts :: "string list"
  co_closed :: bool

definition letter :: "char \<Rightarrow> bool" where
  "letter c \<longleftrightarrow> (let n = of_char c :: nat in (65 \<le> n \<and> n \<le> 90) \<or> (97 \<le> n \<and> n \<le> 122))"

definition word_char :: "char \<Rightarrow> bool" where
  "word_char c \<longleftrightarrow> letter c \<or> (let n = of_char c :: nat in 48 \<le> n \<and> n \<le> 57) \<or> c = CHR ''_''"

text \<open>\<open>REGEX_USERNAME\<close>: a letter, then 2 to 31 letters, digits and underscores.\<close>

definition valid_username :: "string \<Rightarrow> bool" where
  "valid_username s = (case s of [] \<Rightarrow> False
     | c # cs \<Rightarrow> letter c \<and> list_all word_char cs \<and> 2 \<le> length cs \<and> length cs \<le> 31)"

definition to_valid :: "compose \<Rightarrow> bool" where
  "to_valid w \<longleftrightarrow> trim (co_to w) \<noteq> [] \<and> valid_username (trim (co_to w))"

definition validate :: "compose \<Rightarrow> compose" where
  "validate w =
     (let bad = trim (co_to w) \<noteq> [] \<and> \<not> to_valid w
      in w\<lparr>co_invalid := bad, co_hint := (if bad then ''Invalid username format'' else []),
           co_disabled := \<not> (to_valid w \<and> trim (co_body w) \<noteq> [])\<rparr>)"

definition new_compose :: "string \<Rightarrow> string \<Rightarrow> compose" where
  "new_compose prefill_to prefill_subject =
     validate \<lparr>co_from = JStr [], co_to = prefill_to, co_subject = prefill_subject, co_body = [], co_hint = [],
       co_invalid = False, co_disabled = True, co_sending = False, co_label = ''Send'', co_toasts = [], co_closed = False\<rparr>"

text \<open>The name of the sender, once the server has told it or the request has failed.\<close>

definition anonymous :: jsv where
  "anonymous = JStr ''(anonymous)''"

definition got_from :: "err + jsv \<Rightarrow> compose \<Rightarrow> compose" where
  "got_from r w = w\<lparr>co_from := (case r of Inl e \<Rightarrow> anonymous
     | Inr identities \<Rightarrow> if truthy (first_username identities) then first_username identities else anonymous)\<rparr>"

text \<open>The inputs; the one of the subject is not listened to.\<close>

datatype field = To | Subject | Body

definition input_field :: "field \<Rightarrow> string \<Rightarrow> compose \<Rightarrow> compose" where
  "input_field f t w =
     (case f of
        To \<Rightarrow> validate (w\<lparr>co_to := t\<rparr>)
      | Subject \<Rightarrow> w\<lparr>co_subject := t\<rparr>
      | Body \<Rightarrow> validate (w\<lparr>co_body := t\<rparr>))"

section \<open>Sending\<close>

definition send_start :: "compose \<Rightarrow> compose" where
  "send_start w = w\<lparr>co_sending := True, co_disabled := True, co_label := ''Sending...''\<rparr>"

definition cannot_deliver :: "string \<Rightarrow> string" where
  "cannot_deliver to = ''Couldn'' @ [CHR 0x27] @ ''t deliver to '' @ to @ '': their inbox may not exist''"

definition send_done :: "string \<Rightarrow> err + unit \<Rightarrow> compose \<Rightarrow> compose" where
  "send_done to r w =
     (case r of
        Inr _ \<Rightarrow> w\<lparr>co_toasts := co_toasts w @ [''Message sent to '' @ to], co_closed := True\<rparr>
      | Inl e \<Rightarrow> validate ((w\<lparr>co_hint := cannot_deliver to\<rparr>)\<lparr>co_sending := False, co_label := ''Send''\<rparr>))"

definition message_of :: "compose \<Rightarrow> string \<times> string \<times> string" where
  "message_of w = (trim (co_to w), trim (co_subject w), co_body w)"

definition press_send :: "'s vapi \<Rightarrow> (compose \<Rightarrow> compose) \<Rightarrow> ('s, compose, unit) wprog" where
  "press_send va during =
     with_widget (\<lambda>w.
       if co_disabled w \<or> co_sending w then aret ()
       else
         abind (on_widget send_start) (\<lambda>_.
         case message_of w of (to, subject, body) \<Rightarrow>
         abind (atry (on_api (abind (va_volume va ''primary'') (\<lambda>key.
             sendMessage va key to (co_from w) (JStr subject) body [])))) (\<lambda>r.
           on_widget (\<lambda>w. send_done to r (during w)))))"

section \<open>Only complete messages are sent\<close>

text \<open>What the user and the server do to the form, one thing after the other.\<close>

inductive compose_reach :: "compose \<Rightarrow> bool" where
  start: "compose_reach (new_compose t s)"
| sender: "compose_reach w \<Longrightarrow> compose_reach (got_from r w)"
| typed: "compose_reach w \<Longrightarrow> compose_reach (input_field f t w)"
| press: "compose_reach w \<Longrightarrow> \<not> co_disabled w \<Longrightarrow> \<not> co_sending w \<Longrightarrow> compose_reach (send_start w)"
| sent: "compose_reach w \<Longrightarrow> co_sending w \<Longrightarrow> compose_reach (send_done to r w)"

lemma validate_simps [simp]:
  "co_to (validate w) = co_to w" "co_body (validate w) = co_body w" "co_sending (validate w) = co_sending w"
  "co_disabled (validate w) = (\<not> (to_valid w \<and> trim (co_body w) \<noteq> []))" "to_valid (validate w) = to_valid w"
  "co_subject (validate w) = co_subject w" "co_from (validate w) = co_from w"
  by (simp_all add: validate_def Let_def to_valid_def)

lemma enabled_is_valid: "compose_reach w \<Longrightarrow> \<not> co_disabled w \<Longrightarrow> to_valid w \<and> trim (co_body w) \<noteq> []"
proof (induction rule: compose_reach.induct)
  case (start t s)
  then show ?case by (simp add: new_compose_def)
next
  case (sender w r)
  then show ?case by (simp add: got_from_def to_valid_def)
next
  case (typed w f t)
  then show ?case by (cases f) (simp_all add: input_field_def to_valid_def)
next
  case (press w)
  then show ?case by (simp add: send_start_def)
next
  case (sent w to r)
  then show ?case by (cases r) (simp_all add: send_done_def to_valid_def)
qed

lemma valid_username_no_slash:
  assumes "valid_username s"
  shows "slash \<notin> set s \<and> CHR ''.'' \<notin> set s \<and> 3 \<le> length s \<and> length s \<le> 32"
proof -
  obtain c cs where s: "s = c # cs" "letter c" "list_all word_char cs" "2 \<le> length cs" "length cs \<le> 31"
    using assms by (cases s) (simp_all add: valid_username_def)
  have "\<not> letter slash" "\<not> letter (CHR ''.'')" "\<not> word_char slash" "\<not> word_char (CHR ''.'')"
    by code_simp+
  then have "slash \<noteq> c" "CHR ''.'' \<noteq> c" "slash \<notin> set cs" "CHR ''.'' \<notin> set cs"
    using s(2,3) by (auto simp: list_all_iff)
  then show ?thesis using s(1,4,5) by simp
qed


text \<open>
  A message that could not be delivered leaves no word about it: the hint that says so is overwritten by the validation
  that follows it at once.
\<close>

theorem failed_send_is_silent:
  assumes "compose_reach w" and "\<not> co_disabled w"
  shows "let w' = send_done (trim (co_to w)) (Inl e) (send_start w)
    in co_hint w' = [] \<and> co_toasts w' = co_toasts w \<and> co_closed w' = co_closed w \<and> co_label w' = ''Send'' \<and> \<not> co_disabled w'"
  using enabled_is_valid [OF assms]
  by (simp add: send_done_def send_start_def validate_def to_valid_def Let_def)

lemma ready: "compose_reach (input_field Body ''hello'' (new_compose ''alice'' []))"
  "\<not> co_disabled (input_field Body ''hello'' (new_compose ''alice'' []))"
  by (rule compose_reach.typed [OF compose_reach.start]) code_simp


theorem failed_send_is_silent_witness:
  "co_hint (send_done ''alice'' (Inl (Err_Error ''denied'')) (send_start (input_field Body ''hello'' (new_compose ''alice'' [])))) = []"
proof -
  have "trim (co_to (input_field Body ''hello'' (new_compose ''alice'' []))) = ''alice''" by code_simp
  then show ?thesis using failed_send_is_silent [OF ready, of "Err_Error ''denied''"] by (simp add: Let_def)
qed

text \<open>While a message is being sent no second one is: a click does nothing until the first has ended.\<close>

lemma one_message_at_a_time: "co_sending w \<Longrightarrow> press_send va during (s, w) = Some (Inr (), (s, w))"
  by (simp add: press_send_def wprog_simps)

text \<open>How a click runs: what is sent is the form as it was, and the end sees what the user did meanwhile.\<close>

lemma press_send_run:
  assumes "\<not> co_disabled w" "\<not> co_sending w" "message_of w = (to, subject, body)"
    and "abind (va_volume va ''primary'') (\<lambda>key. sendMessage va key to (co_from w) (JStr subject) body []) s = Some (r, t)"
  shows "press_send va during (s, w) = Some (Inr (), (t, send_done to r (during (send_start w))))"
  using assms by (cases r) (simp_all add: press_send_def on_api_run on_widget_run with_widget_run abind_run atry_def)

end
