(* ===== verification/Markdown.thy ===== *)
theory Markdown
  imports Escapes Shell
begin

text \<open>
  markdown/gwm-widget.js: from the syntax tree of a Markdown document to the document nodes that are shown. The
  parser is not part of the repository; its tree is a value here: nodes with a name, a range of the source and
  children. \<open>URL\<close>, the URL parser of the browser, is a parameter. Styles are left out.
\<close>

section \<open>Trees\<close>

datatype node = Node (nd_name: string) (nd_from: nat) (nd_to: nat) (nd_kids: "node list")

text \<open>Document nodes; \<open>Html\<close> is what \<open>innerHTML\<close> is set to.\<close>

datatype dom =
    Text string
  | Elem string "(string \<times> string) list" "dom list"
  | Html string

definition js_slice :: "string \<Rightarrow> nat \<Rightarrow> nat \<Rightarrow> string" where
  "js_slice src a b = take (b - a) (drop a src)"

section \<open>Addresses\<close>

definition letter :: "char \<Rightarrow> bool" where
  "letter c \<longleftrightarrow> (let n = (of_char c :: nat) in 65 \<le> n \<and> n \<le> 90 \<or> 97 \<le> n \<and> n \<le> 122)"

definition scheme_char :: "char \<Rightarrow> bool" where
  "scheme_char c \<longleftrightarrow> letter c \<or> is_digit c \<or> c \<in> {CHR ''+'', CHR ''.'', CHR ''-''}"

definition has_scheme :: "string \<Rightarrow> bool" where
  "has_scheme url \<longleftrightarrow>
     (case url of [] \<Rightarrow> False | c # cs \<Rightarrow> letter c \<and> starts_with '':'' (dropWhile scheme_char cs))"

definition isRelativeUrl :: "string \<Rightarrow> bool" where
  "isRelativeUrl url \<longleftrightarrow> \<not> (has_scheme url \<or> starts_with ''//'' url \<or> starts_with ''/'' url)"

record md =
  md_server :: string
  md_join :: "string \<Rightarrow> string \<Rightarrow> err + string"  \<comment> \<open>\<open>new URL(url, base).href\<close>\<close>

definition base_url :: "md \<Rightarrow> string \<Rightarrow> string" where
  "base_url E dir =
     (let r = resolvePath dir; enc = js_join ''/'' (map encodeURIComponent (path_parts (snd r))) in
      if enc \<noteq> [] then md_server E @ ''/grits/v1/content/'' @ fst r @ ''/'' @ enc
      else md_server E @ ''/grits/v1/content/'' @ fst r)"

definition resolveUrl :: "md \<Rightarrow> string option \<Rightarrow> string \<Rightarrow> err + string" where
  "resolveUrl E sourceDir url =
     (case sourceDir of
        None \<Rightarrow> Inr url
      | Some dir \<Rightarrow> if isRelativeUrl url then md_join E url (base_url E dir @ ''/'') else Inr url)"

section \<open>Nodes\<close>

definition SKIP :: "string list" where
  "SKIP = [''HeaderMark'', ''QuoteMark'', ''ListMark'', ''EmphasisMark'', ''CodeMark'', ''LinkMark'', ''URL'',
     ''CodeInfo'', ''StrikethroughMark'', ''TableDelimiter'']"

definition skip :: "node \<Rightarrow> bool" where
  "skip n \<longleftrightarrow> nd_name n \<in> set SKIP"

text \<open>The kinds that are an element around their children.\<close>

definition containers :: "(string \<times> string) list" where
  "containers =
     [(''ATXHeading1'', ''h1''), (''SetextHeading1'', ''h1''), (''ATXHeading2'', ''h2''), (''SetextHeading2'', ''h2''),
      (''ATXHeading3'', ''h3''), (''ATXHeading4'', ''h4''), (''ATXHeading5'', ''h5''), (''ATXHeading6'', ''h6''),
      (''Paragraph'', ''p''), (''BulletList'', ''ul''), (''OrderedList'', ''ol''), (''ListItem'', ''li''),
      (''Blockquote'', ''blockquote''), (''Emphasis'', ''em''), (''StrongEmphasis'', ''strong''),
      (''Strikethrough'', ''del'')]"

definition hidden_kinds :: "string list" where
  "hidden_kinds = [''Comment'', ''CommentBlock'', ''ProcessingInstruction'', ''ProcessingInstructionBlock'', ''LinkReference'']"

definition html_kinds :: "string list" where
  "html_kinds = [''HTMLTag'', ''HTMLBlock'', ''Entity'']"

type_synonym rendered = "(node \<times> (err + dom option)) list"

definition opt_list :: "dom option \<Rightarrow> dom list" where
  "opt_list d = (case d of None \<Rightarrow> [] | Some x \<Rightarrow> [x])"

definition cons_res :: "dom list \<Rightarrow> err + dom list \<Rightarrow> err + dom list" where
  "cons_res ds r = (case r of Inl e \<Rightarrow> Inl e | Inr es \<Rightarrow> Inr (ds @ es))"

definition gap :: "string \<Rightarrow> nat \<Rightarrow> nat \<Rightarrow> dom list" where
  "gap src pos to = (if pos < to then [Text (js_slice src pos to)] else [])"

text \<open>
  The loops over the children, each with its rendering: \<open>attachChildren\<close>, the loops of a task, of a link and of a
  table. The first rendering that throws ends the loop.
\<close>

fun attachChildren :: "string \<Rightarrow> nat \<Rightarrow> nat \<Rightarrow> rendered \<Rightarrow> err + dom list" where
  "attachChildren src pos to [] = Inr (gap src pos to)"
| "attachChildren src pos to ((c, r) # rs) =
     (case r of
        Inl e \<Rightarrow> Inl e
      | Inr d \<Rightarrow> cons_res (gap src pos (nd_from c) @ opt_list d) (attachChildren src (nd_to c) to rs))"

fun task_children :: "string \<Rightarrow> nat \<Rightarrow> nat \<Rightarrow> rendered \<Rightarrow> err + dom list" where
  "task_children src pos to [] = Inr (gap src pos to)"
| "task_children src pos to ((c, r) # rs) =
     (if nd_name c = ''TaskMarker'' then task_children src (nd_to c) to rs
      else case r of
        Inl e \<Rightarrow> Inl e
      | Inr d \<Rightarrow> cons_res (gap src pos (nd_from c) @ opt_list d) (task_children src (nd_to c) to rs))"

fun link_children :: "string \<Rightarrow> nat \<Rightarrow> nat \<Rightarrow> rendered \<Rightarrow> err + dom list" where
  "link_children src pos textEnd [] = Inr (gap src pos textEnd)"
| "link_children src pos textEnd ((c, r) # rs) =
     (if skip c then link_children src pos textEnd rs
      else case r of
        Inl e \<Rightarrow> Inl e
      | Inr d \<Rightarrow> cons_res (gap src pos (nd_from c) @ opt_list d) (link_children src (max pos (nd_to c)) textEnd rs))"

fun table_children :: "rendered \<Rightarrow> err + dom list" where
  "table_children [] = Inr []"
| "table_children ((c, r) # rs) =
     (if skip c then table_children rs
      else case r of Inl e \<Rightarrow> Inl e | Inr d \<Rightarrow> cons_res (opt_list d) (table_children rs))"

definition firstChildNamed :: "node list \<Rightarrow> string \<Rightarrow> node option" where
  "firstChildNamed kids name = find (\<lambda>c. nd_name c = name) kids"

definition wrap :: "string \<Rightarrow> (string \<times> string) list \<Rightarrow> err + dom list \<Rightarrow> err + dom option" where
  "wrap tag attrs r = (case r of Inl e \<Rightarrow> Inl e | Inr ds \<Rightarrow> Inr (Some (Elem tag attrs ds)))"

definition cells :: "string \<Rightarrow> string \<Rightarrow> node list \<Rightarrow> dom list" where
  "cells src tag kids =
     map (\<lambda>c. Elem tag [] [Text (trim (js_slice src (nd_from c) (nd_to c)))]) (filter (\<lambda>c. \<not> skip c) kids)"

definition link_marks :: "node list \<Rightarrow> node list" where
  "link_marks kids = filter (\<lambda>c. nd_name c = ''LinkMark'') kids"

definition task_checked :: "string \<Rightarrow> node list \<Rightarrow> bool" where
  "task_checked src kids =
     (case firstChildNamed kids ''TaskMarker'' of
        None \<Rightarrow> False
      | Some m \<Rightarrow> trim (js_slice src (nd_from m) (nd_to m)) = ''[x]'')"

definition render_task :: "string \<Rightarrow> nat \<Rightarrow> nat \<Rightarrow> node list \<Rightarrow> rendered \<Rightarrow> err + dom option" where
  "render_task src lo to kids rs =
     (let on = task_checked src kids in
      case task_children src lo to rs of
        Inl e \<Rightarrow> Inl e
      | Inr ds \<Rightarrow>
          Inr (Some (Elem ''div'' [(''class'', ''gm-task'')]
            [Elem ''input'' ([(''type'', ''checkbox'')] @ (if on then [(''checked'', [])] else []) @ [(''disabled'', [])]) [],
             Elem ''span'' [(''class'', if on then ''gm-task-text done'' else ''gm-task-text'')] ds])))"

definition fenced_code :: "string \<Rightarrow> node list \<Rightarrow> dom" where
  "fenced_code src kids =
     Elem ''pre'' []
       ((case firstChildNamed kids ''CodeInfo'' of
           None \<Rightarrow> []
         | Some c \<Rightarrow> [Elem ''div'' [(''class'', ''gm-lang'')] [Text (js_slice src (nd_from c) (nd_to c))]])
        @ [Elem ''code'' []
            (case firstChildNamed kids ''CodeText'' of
               None \<Rightarrow> []
             | Some c \<Rightarrow> [Text (js_slice src (nd_from c) (nd_to c))])])"

definition drop_newline :: "string \<Rightarrow> string" where
  "drop_newline s = (if s \<noteq> [] \<and> last s = CHR 0x0A then butlast s else s)"

text \<open>The attributes of a link: a relative one within a directory is opened by the shell, others in a new tab.\<close>

definition link_attrs :: "md \<Rightarrow> string \<Rightarrow> string option \<Rightarrow> node list \<Rightarrow> err + (string \<times> string) list" where
  "link_attrs E src sourceDir kids =
     (case firstChildNamed kids ''URL'' of
        None \<Rightarrow> Inr [(''target'', ''_blank''), (''rel'', ''noopener noreferrer'')]
      | Some u \<Rightarrow>
          (let url = js_slice src (nd_from u) (nd_to u) in
           case resolveUrl E sourceDir url of
             Inl e \<Rightarrow> Inl e
           | Inr href \<Rightarrow>
               if url \<noteq> [] \<and> isRelativeUrl url \<and> sourceDir \<noteq> None
               then Inr [(''href'', href), (''onclick'', url)]
               else Inr [(''href'', href), (''target'', ''_blank''), (''rel'', ''noopener noreferrer'')]))"

definition render_link :: "md \<Rightarrow> string \<Rightarrow> string option \<Rightarrow> nat \<Rightarrow> nat \<Rightarrow> node list \<Rightarrow> rendered \<Rightarrow> err + dom option" where
  "render_link E src sourceDir lo to kids rs =
     (case link_attrs E src sourceDir kids of
        Inl e \<Rightarrow> Inl e
      | Inr attrs \<Rightarrow>
          (let marks = link_marks kids;
               textStart = (if length marks \<ge> 2 then nd_to (marks ! 0) else lo);
               textEnd = (if length marks \<ge> 2 then nd_from (marks ! 1) else to)
           in wrap ''a'' attrs (link_children src textStart textEnd rs)))"

definition render_image :: "md \<Rightarrow> string \<Rightarrow> string option \<Rightarrow> node list \<Rightarrow> err + dom option" where
  "render_image E src sourceDir kids =
     (let marks = link_marks kids;
          alt = (if length marks \<ge> 2 then [(''alt'', js_slice src (nd_to (marks ! 0)) (nd_from (marks ! 1)))] else [])
      in case firstChildNamed kids ''URL'' of
           None \<Rightarrow> Inr (Some (Elem ''img'' (alt @ [(''loading'', ''lazy'')]) []))
         | Some u \<Rightarrow>
             (case resolveUrl E sourceDir (js_slice src (nd_from u) (nd_to u)) of
                Inl e \<Rightarrow> Inl e
              | Inr url \<Rightarrow> Inr (Some (Elem ''img'' ([(''src'', url)] @ alt @ [(''loading'', ''lazy'')]) []))))"

text \<open>The kinds without rendered children.\<close>

definition render_leaf :: "string \<Rightarrow> string \<Rightarrow> nat \<Rightarrow> nat \<Rightarrow> node list \<Rightarrow> dom option" where
  "render_leaf src name lo to kids =
     (let text = js_slice src lo to in
      if name = ''FencedCode'' then Some (fenced_code src kids)
      else if name = ''CodeBlock'' then Some (Elem ''pre'' [] [Elem ''code'' [] [Text (drop_newline text)]])
      else if name = ''HorizontalRule'' then Some (Elem ''hr'' [] [])
      else if name = ''InlineCode'' then Some (Elem ''code'' [] [Text text])
      else if name = ''Autolink'' then
        Some (Elem ''a'' [(''href'', text), (''target'', ''_blank''), (''rel'', ''noopener noreferrer'')] [Text text])
      else if name = ''Escape'' then Some (Text (if length text \<ge> 2 then [text ! 1] else text))
      else if name = ''HardBreak'' then Some (Elem ''br'' [] [])
      else if name \<in> set html_kinds then Some (Elem ''span'' [] [Html text])
      else if name \<in> set hidden_kinds then None
      else if name = ''TableHeader'' then Some (Elem ''thead'' [] [Elem ''tr'' [] (cells src ''th'' kids)])
      else if name = ''TableRow'' then Some (Elem ''tr'' [] (cells src ''td'' kids))
      else Some (Text text))"

text \<open>The cells of a table are rendered without the directory of the source.\<close>

fun renderNode :: "md \<Rightarrow> string \<Rightarrow> string option \<Rightarrow> node \<Rightarrow> err + dom option" where
  "renderNode E src sourceDir (Node name lo to kids) =
     (if name \<in> set SKIP then Inr None
      else case map_get containers name of
        Some tag \<Rightarrow> wrap tag [] (attachChildren src lo to (map (\<lambda>c. (c, renderNode E src sourceDir c)) kids))
      | None \<Rightarrow>
          if name = ''Task'' then render_task src lo to kids (map (\<lambda>c. (c, renderNode E src sourceDir c)) kids)
          else if name = ''Link'' then
            render_link E src sourceDir lo to kids (map (\<lambda>c. (c, renderNode E src sourceDir c)) kids)
          else if name = ''Image'' then render_image E src sourceDir kids
          else if name = ''Table'' then wrap ''table'' [] (table_children (map (\<lambda>c. (c, renderNode E src None c)) kids))
          else Inr (render_leaf src name lo to kids))"

section \<open>The widget\<close>

text \<open>\<open>buildContent\<close>: the top node's children, without the text between them.\<close>

fun top_children :: "rendered \<Rightarrow> err + dom list" where
  "top_children [] = Inr []"
| "top_children ((c, r) # rs) = (case r of Inl e \<Rightarrow> Inl e | Inr d \<Rightarrow> cons_res (opt_list d) (top_children rs))"

definition buildContent :: "(string \<Rightarrow> node) \<Rightarrow> md \<Rightarrow> string \<Rightarrow> string option \<Rightarrow> err + dom list" where
  "buildContent parse E src sourceDir =
     (if trim src = [] then Inr []
      else top_children (map (\<lambda>c. (c, renderNode E src sourceDir c)) (nd_kids (parse src))))"

text \<open>Where a document comes from: its text, the directory its relative links start from, and its name.\<close>

record document =
  dc_content :: string
  dc_dir :: "string option"
  dc_name :: string

definition source_dir :: "string \<Rightarrow> string" where
  "source_dir path = volume_path (js_join ''/'' (butlast (path_parts path)))"

definition read_document :: "'s vapi \<Rightarrow> string \<Rightarrow> ('s, document) aprog" where
  "read_document va p =
     (let r = resolvePath p in
      abind (va_volume va (fst r)) (\<lambda>key.
      abind (va_lookup va key (snd r)) (\<lambda>fl.
      abind (va_get va key (contentCID fl)) (\<lambda>resp.
      abind (alift (resp_text resp)) (\<lambda>t.
        aret \<lparr>dc_content = t, dc_dir = Some (source_dir (snd r)), dc_name = gp_toString p\<rparr>)))))"

text \<open>\<open>payload\<close> is what came through a pipe; the shell is there.\<close>

definition load_document :: "'s vapi \<Rightarrow> document \<Rightarrow> gval option \<Rightarrow> string option \<Rightarrow> ('s, document) aprog" where
  "load_document va d payload gimbalPath =
     abind (if dc_content d \<noteq> [] then aret d
            else (case payload of
                    Some (V_response resp) \<Rightarrow> abind (alift (resp_text resp)) (\<lambda>t. aret (d\<lparr>dc_content := t\<rparr>))
                  | Some (V_path p) \<Rightarrow> read_document va p
                  | _ \<Rightarrow> aret d)) (\<lambda>d1.
       if dc_content d1 \<noteq> [] then aret d1
       else (case gimbalPath of None \<Rightarrow> aret d1 | Some p \<Rightarrow> read_document va p))"

definition show_document :: "(string \<Rightarrow> node) \<Rightarrow> md \<Rightarrow> document \<Rightarrow> err + dom" where
  "show_document parse E d =
     (if dc_content d = [] then Inr (Elem ''div'' [(''class'', ''gm-wrap'')] [Elem ''div'' [(''class'', ''gm-empty'')] [Text ''(empty)'']])
      else (case buildContent parse E (dc_content d) (dc_dir d) of
              Inl e \<Rightarrow> Inl e
            | Inr ds \<Rightarrow> Inr (Elem ''div'' [(''class'', ''gm-wrap'')] [Elem ''div'' [(''class'', ''gm-body'')] ds])))"

section \<open>The text that is shown\<close>

fun text_of :: "dom \<Rightarrow> string" where
  "text_of (Text s) = s"
| "text_of (Elem tag attrs ds) = concat (map text_of ds)"
| "text_of (Html s) = []"

fun html_of :: "dom \<Rightarrow> string list" where
  "html_of (Text s) = []"
| "html_of (Elem tag attrs ds) = concat (map html_of ds)"
| "html_of (Html s) = [s]"

abbreviation texts :: "dom list \<Rightarrow> string" where "texts ds \<equiv> concat (map text_of ds)"

text \<open>Children in order, one after the other, within the range of their parent.\<close>

fun in_order :: "nat \<Rightarrow> nat \<Rightarrow> node list \<Rightarrow> bool" where
  "in_order a b [] = (a \<le> b)"
| "in_order a b (c # cs) = (a \<le> nd_from c \<and> nd_from c \<le> nd_to c \<and> in_order (nd_to c) b cs)"

fun tree_ok :: "node \<Rightarrow> bool" where
  "tree_ok (Node name lo hi kids) = (lo \<le> hi \<and> in_order lo hi kids \<and> (\<forall>c \<in> set kids. tree_ok c))"

text \<open>Kinds that fall through to text, and trees of containers, marks and such.\<close>

definition special_kinds :: "string list" where
  "special_kinds = [''Task'', ''Link'', ''Image'', ''Table'', ''FencedCode'', ''CodeBlock'', ''HorizontalRule'', ''InlineCode'',
     ''Autolink'', ''Escape'', ''HardBreak'', ''HTMLTag'', ''HTMLBlock'', ''Entity'', ''TableHeader'', ''TableRow''] @ hidden_kinds"

fun prose :: "node \<Rightarrow> bool" where
  "prose (Node name lo hi kids) =
     (name \<in> set SKIP \<or> map_get containers name \<noteq> None \<and> (\<forall>c \<in> set kids. prose c)
      \<or> map_get containers name = None \<and> name \<notin> set special_kinds)"

text \<open>The positions that lie in a mark.\<close>

fun marked :: "node \<Rightarrow> nat \<Rightarrow> bool" where
  "marked (Node name lo hi kids) i =
     (if name \<in> set SKIP then lo \<le> i \<and> i < hi
      else if map_get containers name \<noteq> None then (\<exists>c \<in> set kids. marked c i)
      else False)"

definition unmarked :: "string \<Rightarrow> (nat \<Rightarrow> bool) \<Rightarrow> nat \<Rightarrow> nat \<Rightarrow> string" where
  "unmarked src m a b = map ((!) src) (filter (\<lambda>i. \<not> m i) [a..<b])"

lemma slice_unmarked: "b \<le> length src \<Longrightarrow> (\<And>i. a \<le> i \<Longrightarrow> i < b \<Longrightarrow> \<not> m i) \<Longrightarrow> js_slice src a b = unmarked src m a b"
proof -
  assume b: "b \<le> length src" and m: "\<And>i. a \<le> i \<Longrightarrow> i < b \<Longrightarrow> \<not> m i"
  have "filter (\<lambda>i. \<not> m i) [a..<b] = [a..<b]" using m by (simp add: filter_id_conv)
  then show ?thesis
    using b by (auto simp: unmarked_def js_slice_def intro!: nth_equalityI)
qed

lemma unmarked_split: "a \<le> b \<Longrightarrow> b \<le> c \<Longrightarrow> unmarked src m a c = unmarked src m a b @ unmarked src m b c"
  using upt_add_eq_append [of a b "c - b"] by (simp add: unmarked_def)

lemma unmarked_cong: "(\<And>i. a \<le> i \<Longrightarrow> i < b \<Longrightarrow> m i = m' i) \<Longrightarrow> unmarked src m a b = unmarked src m' a b"
proof -
  assume "\<And>i. a \<le> i \<Longrightarrow> i < b \<Longrightarrow> m i = m' i"
  then have "filter (\<lambda>i. \<not> m i) [a..<b] = filter (\<lambda>i. \<not> m' i) [a..<b]" by (intro filter_cong) auto
  then show ?thesis by (simp add: unmarked_def)
qed

lemma unmarked_all: "(\<And>i. a \<le> i \<Longrightarrow> i < b \<Longrightarrow> m i) \<Longrightarrow> unmarked src m a b = []"
  by (simp add: unmarked_def filter_empty_conv)

lemma in_order_le: "in_order a b cs \<Longrightarrow> a \<le> b"
  by (induction cs arbitrary: a) (auto intro: order_trans)

lemma in_order_range: "in_order a b cs \<Longrightarrow> c \<in> set cs \<Longrightarrow> a \<le> nd_from c \<and> nd_to c \<le> b"
  by (induction cs arbitrary: a) (auto dest: in_order_le intro: order_trans)

lemma marked_range: "tree_ok n \<Longrightarrow> marked n i \<Longrightarrow> nd_from n \<le> i \<and> i < nd_to n"
proof (induction n i rule: marked.induct)
  case (1 name lo hi kids i)
  show ?case
  proof (cases "name \<in> set SKIP")
    case False
    then obtain c where c: "c \<in> set kids" "marked c i" and "map_get containers name \<noteq> None"
      using "1.prems"(2) by (auto split: if_splits)
    then have "nd_from c \<le> i \<and> i < nd_to c" using "1.IH" False "1.prems"(1) by auto
    moreover have "lo \<le> nd_from c \<and> nd_to c \<le> hi" using in_order_range c(1) "1.prems"(1) by auto
    ultimately show ?thesis by auto
  qed (use 1 in auto)
qed

lemma attach_text:
  assumes "in_order pos hi kids" and "hi \<le> length src" and "\<And>c. c \<in> set kids \<Longrightarrow> tree_ok c"
    and "\<And>c. c \<in> set kids \<Longrightarrow> \<exists>d. rend c = Inr d \<and> texts (opt_list d) = unmarked src (marked c) (nd_from c) (nd_to c)"
  shows "\<exists>ds. attachChildren src pos hi (map (\<lambda>c. (c, rend c)) kids) = Inr ds
    \<and> texts ds = unmarked src (\<lambda>i. \<exists>c \<in> set kids. marked c i) pos hi"
  using assms
proof (induction kids arbitrary: pos)
  case Nil
  then show ?case using slice_unmarked [of hi src pos "\<lambda>_. False"] by (cases "pos < hi") (auto simp: gap_def unmarked_def)
next
  case (Cons c cs)
  let ?m = "\<lambda>i. \<exists>k \<in> set (c # cs). marked k i"
  have ord: "pos \<le> nd_from c" "nd_from c \<le> nd_to c" "in_order (nd_to c) hi cs" using Cons.prems(1) by auto
  then have le: "nd_to c \<le> hi" using in_order_le by blast
  have ok: "tree_ok k" if "k \<in> set (c # cs)" for k using Cons.prems(3) that by blast
  obtain d where d: "rend c = Inr d" "texts (opt_list d) = unmarked src (marked c) (nd_from c) (nd_to c)"
    using Cons.prems(4) [of c] by auto
  obtain ds where ds: "attachChildren src (nd_to c) hi (map (\<lambda>c. (c, rend c)) cs) = Inr ds"
      "texts ds = unmarked src (\<lambda>i. \<exists>k \<in> set cs. marked k i) (nd_to c) hi"
    using Cons.IH [OF ord(3) Cons.prems(2)] ok Cons.prems(4) by auto
  have later: "nd_to c \<le> nd_from k" if "k \<in> set cs" for k using in_order_range [OF ord(3) that] by simp
  have far: "\<not> marked k i" if "k \<in> set cs" "i < nd_to c" for k i
    using marked_range [of k i] ok [of k] later [OF that(1)] that by auto
  have near: "\<not> marked c i" if "i < nd_from c \<or> nd_to c \<le> i" for i
    using marked_range [of c i] ok [of c] that by auto
  have 1: "texts (gap src pos (nd_from c)) = unmarked src ?m pos (nd_from c)"
  proof (cases "pos < nd_from c")
    case True
    have "js_slice src pos (nd_from c) = unmarked src ?m pos (nd_from c)"
      using le Cons.prems(2) ord far near by (intro slice_unmarked) auto
    then show ?thesis using True by (simp add: gap_def)
  qed (use ord(1) in \<open>simp add: gap_def unmarked_def\<close>)
  have 2: "unmarked src (marked c) (nd_from c) (nd_to c) = unmarked src ?m (nd_from c) (nd_to c)"
    using far by (intro unmarked_cong) auto
  have 3: "unmarked src (\<lambda>i. \<exists>k \<in> set cs. marked k i) (nd_to c) hi = unmarked src ?m (nd_to c) hi"
    using near by (intro unmarked_cong) auto
  have "unmarked src ?m pos hi = unmarked src ?m pos (nd_from c) @ unmarked src ?m (nd_from c) (nd_to c) @ unmarked src ?m (nd_to c) hi"
    using unmarked_split [of pos "nd_from c" hi src ?m] unmarked_split [of "nd_from c" "nd_to c" hi src ?m] ord le by simp
  then show ?case using 1 2 3 d ds by (simp add: cons_res_def)
qed

lemma prose_leaf:
  "name \<notin> set special_kinds \<Longrightarrow> render_leaf src name lo hi kids = Some (Text (js_slice src lo hi))"
  by (simp add: special_kinds_def render_leaf_def html_kinds_def Let_def)

lemma prose_text:
  assumes "prose n" and "tree_ok n" and "nd_to n \<le> length src"
  shows "\<exists>d. renderNode E src dir n = Inr d \<and> texts (opt_list d) = unmarked src (marked n) (nd_from n) (nd_to n)"
  using assms
proof (induction n rule: prose.induct)
  case (1 name lo hi kids)
  consider (skip) "name \<in> set SKIP"
    | (box) tag where "name \<notin> set SKIP" "map_get containers name = Some tag" "\<forall>c \<in> set kids. prose c"
    | (leaf) "name \<notin> set SKIP" "map_get containers name = None" "name \<notin> set special_kinds"
    using "1.prems"(1) by auto
  then show ?case
  proof cases
    case skip
    then show ?thesis by (simp add: opt_list_def unmarked_all)
  next
    case box
    have ok: "in_order lo hi kids" "\<And>c. c \<in> set kids \<Longrightarrow> tree_ok c" using "1.prems"(2) by auto
    have len: "hi \<le> length src" using "1.prems"(3) by simp
    have kid: "\<exists>d. renderNode E src dir c = Inr d \<and> texts (opt_list d) = unmarked src (marked c) (nd_from c) (nd_to c)"
      if c: "c \<in> set kids" for c
      using "1.IH" [OF c] box c ok in_order_range [OF ok(1) c] len by auto
    obtain ds where ds: "attachChildren src lo hi (map (\<lambda>c. (c, renderNode E src dir c)) kids) = Inr ds"
        "texts ds = unmarked src (\<lambda>i. \<exists>c \<in> set kids. marked c i) lo hi"
      using attach_text [OF ok(1) len ok(2) kid] by blast
    have "marked (Node name lo hi kids) = (\<lambda>i. \<exists>c \<in> set kids. marked c i)" using box by (auto intro!: ext)
    then show ?thesis using box ds by (simp add: wrap_def opt_list_def)
  next
    case leaf
    have "name \<notin> {''Task'', ''Link'', ''Image'', ''Table''}" using leaf(3) by (auto simp: special_kinds_def)
    then have r: "renderNode E src dir (Node name lo hi kids) = Inr (Some (Text (js_slice src lo hi)))"
      using leaf by (simp add: prose_leaf)
    have "js_slice src lo hi = unmarked src (marked (Node name lo hi kids)) lo hi"
      using leaf "1.prems"(3) by (intro slice_unmarked) auto
    then show ?thesis using r by (simp add: opt_list_def del: renderNode.simps marked.simps)
  qed
qed


definition some_md :: md where
  "some_md = \<lparr>md_server = ''http://a'', md_join = (\<lambda>u b. Inr (b @ u))\<rparr>"


section \<open>Raw HTML\<close>

fun nodes :: "node \<Rightarrow> node list" where
  "nodes (Node name lo hi kids) = Node name lo hi kids # concat (map nodes kids)"

abbreviation htmls :: "dom list \<Rightarrow> string list" where "htmls ds \<equiv> concat (map html_of ds)"

definition html_source :: "string \<Rightarrow> node \<Rightarrow> string set" where
  "html_source src n =
     (\<lambda>m. js_slice src (nd_from m) (nd_to m)) ` {m \<in> set (nodes n). nd_name m \<in> set html_kinds}"

definition html_in :: "string set \<Rightarrow> dom list \<Rightarrow> bool" where
  "html_in H ds \<longleftrightarrow> (\<forall>d \<in> set ds. set (html_of d) \<subseteq> H)"

lemma html_in_simps [simp]:
  "html_in H []" "html_in H (d # ds) \<longleftrightarrow> set (html_of d) \<subseteq> H \<and> html_in H ds"
  "html_in H (ds @ es) \<longleftrightarrow> html_in H ds \<and> html_in H es" "html_in H (gap src a b)"
  by (auto simp: html_in_def gap_def)

lemma html_in_elem: "html_in H ds \<Longrightarrow> set (html_of (Elem tag attrs ds)) \<subseteq> H"
  by (auto simp: html_in_def)

lemma html_in_cons: "cons_res ds r = Inr es \<Longrightarrow> html_in H ds \<Longrightarrow> (\<And>fs. r = Inr fs \<Longrightarrow> html_in H fs) \<Longrightarrow> html_in H es"
  by (auto simp: cons_res_def split: sum.splits)

definition rend_in :: "string set \<Rightarrow> rendered \<Rightarrow> bool" where
  "rend_in H rs \<longleftrightarrow> (\<forall>(c, r) \<in> set rs. \<forall>d. r = Inr d \<longrightarrow> html_in H (opt_list d))"

lemma rend_in_simps [simp]: "rend_in H ((c, r) # rs) \<longleftrightarrow> (\<forall>d. r = Inr d \<longrightarrow> html_in H (opt_list d)) \<and> rend_in H rs"
  by (auto simp: rend_in_def)

lemma html_loops:
  "rend_in H rs \<Longrightarrow> attachChildren src pos hi rs = Inr ds \<Longrightarrow> html_in H ds"
  "rend_in H rs \<Longrightarrow> task_children src pos hi rs = Inr ds \<Longrightarrow> html_in H ds"
  "rend_in H rs \<Longrightarrow> link_children src pos hi rs = Inr ds \<Longrightarrow> html_in H ds"
  "rend_in H rs \<Longrightarrow> table_children rs = Inr ds \<Longrightarrow> html_in H ds"
proof -
  show "rend_in H rs \<Longrightarrow> attachChildren src pos hi rs = Inr ds \<Longrightarrow> html_in H ds"
    by (induction src pos hi rs arbitrary: ds rule: attachChildren.induct) (auto split: sum.splits elim!: html_in_cons)
  show "rend_in H rs \<Longrightarrow> task_children src pos hi rs = Inr ds \<Longrightarrow> html_in H ds"
    by (induction src pos hi rs arbitrary: ds rule: task_children.induct) (auto split: sum.splits if_splits elim!: html_in_cons)
  show "rend_in H rs \<Longrightarrow> link_children src pos hi rs = Inr ds \<Longrightarrow> html_in H ds"
    by (induction src pos hi rs arbitrary: ds rule: link_children.induct) (auto split: sum.splits if_splits elim!: html_in_cons)
  show "rend_in H rs \<Longrightarrow> table_children rs = Inr ds \<Longrightarrow> html_in H ds"
    by (induction rs arbitrary: ds rule: table_children.induct) (auto split: sum.splits if_splits elim!: html_in_cons)
qed

lemma html_wrap: "wrap tag attrs r = Inr (Some d) \<Longrightarrow> (\<And>ds. r = Inr ds \<Longrightarrow> html_in H ds) \<Longrightarrow> set (html_of d) \<subseteq> H"
  unfolding wrap_def by (cases r) (auto simp del: html_of.simps dest!: html_in_elem)

lemma html_plain: "html_of (fenced_code src kids) = []" "concat (map html_of (cells src tag kids)) = []"
  by (auto simp: fenced_code_def cells_def comp_def split: option.split)

lemma html_leaf:
  assumes "render_leaf src name lo hi kids = Some d"
  shows "set (html_of d) \<subseteq> (if name \<in> set html_kinds then {js_slice src lo hi} else {})"
proof (cases "name \<in> set html_kinds")
  case True
  then have "name = ''HTMLTag'' \<or> name = ''HTMLBlock'' \<or> name = ''Entity''" by (simp add: html_kinds_def)
  then have "d = Elem ''span'' [] [Html (js_slice src lo hi)]"
    using assms True by (elim disjE) (simp_all add: render_leaf_def)
  then show ?thesis using True by simp
next
  case False
  then have "html_of d = []"
    using assms unfolding render_leaf_def Let_def
    by (simp add: html_plain split: if_split_asm) (auto simp: html_plain)
  then show ?thesis by simp
qed

lemma html_task:
  assumes "render_task src lo hi kids rs = Inr (Some d)" and "rend_in H rs"
  shows "set (html_of d) \<subseteq> H"
proof -
  obtain ds where "task_children src lo hi rs = Inr ds" and d: "set (html_of d) = set (concat (map html_of ds))"
    using assms(1) by (auto simp: render_task_def Let_def split: sum.splits)
  from html_loops(2) [OF assms(2) this(1)] show ?thesis using d by (auto simp: html_in_def)
qed

lemma html_link:
  assumes "render_link E src dir lo hi kids rs = Inr (Some d)" and "rend_in H rs"
  shows "set (html_of d) \<subseteq> H"
  using assms(1) html_loops(3) [OF assms(2)]
  by (auto simp: render_link_def Let_def split: sum.splits elim!: html_wrap [THEN subsetD])

lemma html_image: "render_image E src dir kids = Inr (Some d) \<Longrightarrow> html_of d = []"
  by (auto simp: render_image_def Let_def split: option.splits sum.splits)

lemma html_render:
  "renderNode E src dir n = Inr (Some d) \<Longrightarrow> set (html_of d) \<subseteq> html_source src n"
proof (induction n arbitrary: d dir rule: nodes.induct)
  case (1 name lo hi kids)
  let ?H = "html_source src (Node name lo hi kids)"
  have sub: "html_source src c \<subseteq> ?H" if "c \<in> set kids" for c
    using that by (auto simp: html_source_def)
  have one: "html_in ?H (opt_list d')" if "c \<in> set kids" "renderNode E src dir' c = Inr d'" for c d' dir'
    using "1.IH" [OF that(1)] sub [OF that(1)] that(2) by (cases d') (auto simp: opt_list_def)
  have rs: "rend_in ?H (map (\<lambda>c. (c, renderNode E src dir' c)) kids)" for dir'
    using one by (auto simp: rend_in_def)
  have leafs: "set (html_of d) \<subseteq> ?H" if "render_leaf src name lo hi kids = Some d"
  proof (cases "name \<in> set html_kinds")
    case True
    then have "js_slice src lo hi \<in> ?H"
      unfolding html_source_def by (intro image_eqI [where x = "Node name lo hi kids"]) simp_all
    then show ?thesis using html_leaf [OF that] True by auto
  qed (use html_leaf [OF that] in simp)
  show ?case
  proof (cases "map_get containers name")
    case (Some tag)
    then show ?thesis using "1.prems" html_wrap html_loops(1) [OF rs] by (auto split: if_splits)
  next
    case None
    then show ?thesis
      using "1.prems" leafs html_task [OF _ rs] html_link [OF _ rs] html_wrap [OF _ html_loops(4) [OF rs]]
      by (auto simp: html_image split: if_splits)
  qed
qed

text \<open>
  The only markup of the source that reaches \<open>innerHTML\<close>, and so is interpreted, is that of the nodes the parser
  took for HTML tags, HTML blocks and entities; it is interpreted as it stands.
\<close>

theorem raw_html_only_from_html:
  assumes "renderNode E src dir n = Inr (Some d)"
  shows "set (html_of d) \<subseteq> (\<lambda>m. js_slice src (nd_from m) (nd_to m)) ` {m \<in> set (nodes n). nd_name m \<in> set html_kinds}"
  using html_render [OF assms] by (simp add: html_source_def)

theorem raw_html_only_from_html_witness:
  "\<exists>d. renderNode some_md ''<b>&'' None (Node ''Paragraph'' 0 4 [Node ''HTMLTag'' 0 3 [], Node ''Text'' 3 4 []]) = Inr (Some d)
     \<and> html_of d = [''<b>''] \<and> set (html_of d) \<subseteq> {''<b>''}"
proof -
  let ?n = "Node ''Paragraph'' 0 4 [Node ''HTMLTag'' 0 3 [], Node ''Text'' 3 4 []]"
  let ?d = "Elem ''p'' [] [Elem ''span'' [] [Html ''<b>''], Text ''&'']"
  have r: "renderNode some_md ''<b>&'' None ?n = Inr (Some ?d)" by code_simp
  from raw_html_only_from_html [OF r] have "set (html_of ?d) \<subseteq> {''<b>''}"
    by (auto simp: html_kinds_def js_slice_def)
  then show ?thesis using r by auto
qed

section \<open>Links\<close>

text \<open>
  A link with a title shows its own markup: the title is a child after the marks, so that the text from the
  first mark's end up to it, address included, is put into the link. An address that stands alone is left out.
\<close>

theorem link_title_shown:
  "map_sum id (map_option text_of) (renderNode some_md ''[a](u \"t\")'' None
       (Node ''Link'' 0 10 [Node ''LinkMark'' 0 1 [], Node ''LinkMark'' 2 3 [], Node ''LinkMark'' 3 4 [], Node ''URL'' 4 5 [],
          Node ''LinkTitle'' 6 9 [], Node ''LinkMark'' 9 10 []])) = Inr (Some ''a](u \"t\"'')
   \<and> map_sum id (map_option text_of) (renderNode some_md ''see http://b.'' None
       (Node ''Paragraph'' 0 13 [Node ''URL'' 4 12 []])) = Inr (Some ''see .'')"
  by code_simp

lemma source_dir_primary: "source_dir path = slash # js_join ''/'' (butlast (path_parts path))"
    "fst (resolvePath (source_dir path)) = ''primary''"
proof -
  let ?ps = "butlast (path_parts path)"
  have parts: "w \<noteq> [] \<and> slash \<notin> set w" if "w \<in> set ?ps" for w
    using path_parts_no_slash in_set_butlastD [OF that] by blast
  have head: "\<not> starts_with ''/'' (js_join ''/'' ?ps)"
  proof (cases ?ps)
    case (Cons w ws)
    then have "w \<noteq> []" "slash \<notin> set w" using parts by auto
    then show ?thesis using Cons by (cases w; cases ws) auto
  qed simp
  then show eq: "source_dir path = slash # js_join ''/'' ?ps" by (simp add: source_dir_def volume_path_def)
  have "\<not> starts_with ''//'' (slash # js_join ''/'' ?ps)" using head by auto
  then show "fst (resolvePath (source_dir path)) = ''primary''" by (simp add: eq resolvePath_def)
qed

text \<open>
  Relative links and images are resolved against the directory of the document in the volume \<open>primary\<close>,
  whatever volume the document was read from.
\<close>

theorem links_leave_volume:
  assumes "read_document va p s = Some (Inr d, t)"
  shows "dc_dir d = Some (slash # js_join ''/'' (butlast (path_parts (snd (resolvePath p)))))
    \<and> fst (resolvePath (the (dc_dir d))) = ''primary''"
proof -
  have "dc_dir d = Some (source_dir (snd (resolvePath p)))"
    using assms by (auto simp: read_document_def Let_def abind_def aret_def split: option.splits sum.splits)
  then show ?thesis using source_dir_primary by simp
qed

text \<open>A volume in which every path is a file with the text "x".\<close>

definition text_volume :: "unit vapi" where
  "text_volume =
     \<lparr>va_volume = (\<lambda>n. aret n), va_lookup = (\<lambda>k p. aret \<lparr>gf_cid = ''m'', gf_meta = JObj [(''contentHash'', JStr ''c'')], gf_path = Some p\<rparr>),
      va_fileForCID = (\<lambda>k c. athrow Err_Abort), va_get = (\<lambda>k c. aret (mk_response (text_encode ''x'') 200)),
      va_json = (\<lambda>k c. athrow Err_Abort), va_children = (\<lambda>k f. athrow Err_Abort), va_put = (\<lambda>k b. athrow Err_Abort),
      va_mkfile = (\<lambda>k c n. athrow Err_Abort), va_mkdir = (\<lambda>k es. athrow Err_Abort), va_multiLink = (\<lambda>k rs. athrow Err_Abort),
      va_whoami = athrow Err_Abort, va_login = (\<lambda>u p g q. athrow Err_Abort), va_logout = (\<lambda>u. athrow Err_Abort),
      va_now = aret 0, va_random = aret []\<rparr>"

theorem links_leave_volume_witness:
  "\<exists>d. read_document text_volume ''//docs/a/b.md'' () = Some (Inr d, ()) \<and> dc_dir d = Some ''/a''"
proof -
  have r: "resolvePath ''//docs/a/b.md'' = (''docs'', ''/a/b.md'')" by code_simp
  have "\<exists>d. read_document text_volume ''//docs/a/b.md'' () = Some (Inr d, ())"
    by (simp add: read_document_def r text_volume_def mk_response_def resp_text_def aprog_simps Let_def)
  then obtain d where d: "read_document text_volume ''//docs/a/b.md'' () = Some (Inr d, ())" by blast
  have "js_join ''/'' (butlast (path_parts ''/a/b.md'')) = ''a''" by code_simp
  then show ?thesis using links_leave_volume [OF d] d by (auto simp: r)
qed

end
