(* ===== verification/Project_Tree.thy ===== *)
theory Project_Tree
  imports Platform "HOL-Library.Multiset"
begin

text \<open>
  project/gwm-widget.js, the data: the items of a project, the numbering of items, the tree helpers of the
  tracker (leaves, rolled up hours and states, search and removal) and the document \<open>project.json\<close>.
  Hours are integers, as the numbers of \<open>Json\<close> are. A field of a document that has another type than the
  widget writes is taken like a missing one, and fields the widget does not know are left out.
\<close>

section \<open>Items\<close>

datatype item =
  Item (it_id: string) (it_name: string) (it_state: string) (it_budget: int) (it_used: int)
    (it_assignee: string) (it_desc: string) (it_children: "item list")

definition STATE_LABEL :: "(string \<times> string) list" where
  "STATE_LABEL = [(''ready'', ''ready''), (''in-progress'', ''in production''),
     (''post-production'', ''in post''), (''can-ship'', ''can ship'')]"

definition STATE_COLOR :: "(string \<times> string) list" where
  "STATE_COLOR = [(''ready'', ''#888780''), (''in-progress'', ''#d4954a''),
     (''post-production'', ''#378ADD''), (''can-ship'', ''#3fb97a'')]"

definition STATE_NEXT :: "(string \<times> string) list" where
  "STATE_NEXT = [(''ready'', ''in-progress''), (''in-progress'', ''post-production''),
     (''post-production'', ''can-ship''), (''can-ship'', ''ready'')]"

definition STATE_ORDER :: "(string \<times> nat) list" where
  "STATE_ORDER = [(''ready'', 0), (''in-progress'', 1), (''post-production'', 2), (''can-ship'', 3)]"

definition STATE_PILL :: "(string \<times> string) list" where
  "STATE_PILL = [(''ready'', ''p-ready''), (''in-progress'', ''p-prog''), (''post-production'', ''p-post''),
     (''can-ship'', ''p-ship'')]"

section \<open>Numbering\<close>

text \<open>\<open>parseInt(s)\<close>: blanks, a sign, then the longest run of digits, of hexadecimal ones after \<open>0x\<close>.\<close>

definition js_blank :: "char \<Rightarrow> bool" where
  "js_blank c \<longleftrightarrow> is_ws c \<or> c = CHR 0x0B \<or> c = CHR 0x0C"

fun hex_digits_val :: "nat \<Rightarrow> string \<Rightarrow> nat option" where
  "hex_digits_val a [] = Some a"
| "hex_digits_val a (c # cs) = (case hex_val c of None \<Rightarrow> Some a | Some d \<Rightarrow> hex_digits_val (16 * a + d) cs)"

definition parse_magnitude :: "string \<Rightarrow> nat option" where
  "parse_magnitude s =
     (if length s \<ge> 2 \<and> s ! 0 = CHR ''0'' \<and> s ! 1 \<in> {CHR ''x'', CHR ''X''}
      then (case drop 2 s of [] \<Rightarrow> None | c # cs \<Rightarrow> if hex_val c = None then None else hex_digits_val 0 (c # cs))
      else (let ds = takeWhile is_digit s in if ds = [] then None else Some (digits_val 0 ds)))"

definition parseInt :: "string \<Rightarrow> int option" where
  "parseInt s =
     (case dropWhile js_blank s of
        [] \<Rightarrow> None
      | c # cs \<Rightarrow>
          if c = CHR ''-'' then map_option (\<lambda>n. - int n) (parse_magnitude cs)
          else if c = CHR ''+'' then map_option int (parse_magnitude cs)
          else map_option int (parse_magnitude (c # cs)))"

text \<open>The counter \<open>_nextId\<close> is passed along.\<close>

definition newId :: "int \<Rightarrow> string \<times> int" where
  "newId k = (int_str k, k + 1)"

definition bump :: "string \<Rightarrow> int \<Rightarrow> int" where
  "bump i k = (case parseInt i of None \<Rightarrow> k | Some n \<Rightarrow> max k (n + 1))"

definition makeItem :: "string \<Rightarrow> int \<Rightarrow> item \<times> int" where
  "makeItem nm k = (let (i, k') = newId k in (Item i nm ''ready'' 8 0 [] [] [], k'))"

section \<open>The tree\<close>

fun allLeaves :: "item \<Rightarrow> item list" where
  "allLeaves (Item i n s b u a d cs) =
     (if cs = [] then [Item i n s b u a d cs] else concat (map allLeaves cs))"

text \<open>Budget and used hours.\<close>

fun rollup :: "item \<Rightarrow> int \<times> int" where
  "rollup (Item i n s b u a d cs) =
     (if cs = [] then (b, u)
      else (let kids = map rollup cs
            in (foldl (\<lambda>t k. t + fst k) 0 kids, foldl (\<lambda>t k. t + snd k) 0 kids)))"

definition order_of :: "string \<Rightarrow> nat" where
  "order_of s = or_else (map_get STATE_ORDER s) 0"

definition rolledState :: "item \<Rightarrow> string" where
  "rolledState it =
     (if it_children it = [] then it_state it
      else (let orders = set (map (\<lambda>l. order_of (it_state l)) (allLeaves it)); lo = Min orders; hi = Max orders
            in if lo = order_of ''can-ship'' then ''can-ship''
               else if lo \<ge> order_of ''post-production'' then ''post-production''
               else if hi \<ge> order_of ''in-progress'' then ''in-progress''
               else ''ready''))"

text \<open>
  A list of siblings is named by the position of the item that owns it, [] for the top level: the list that
  \<open>findParentList\<close> returns is changed in place.
\<close>

primrec parent_of :: "item \<Rightarrow> string \<Rightarrow> nat list option"
  and findParentList :: "item list \<Rightarrow> string \<Rightarrow> nat \<Rightarrow> nat list option" where
  "parent_of (Item i n s b u a d cs) x =
     (if list_ex (\<lambda>c. it_id c = x) cs then Some [] else findParentList cs x 0)"
| "findParentList [] x k = None"
| "findParentList (t # ts) x k =
     (case parent_of t x of Some p \<Rightarrow> Some (k # p) | None \<Rightarrow> findParentList ts x (Suc k))"

text \<open>The first of the list with the id is taken out, else the first of each subtree in turn.\<close>

fun remove_first :: "item list \<Rightarrow> string \<Rightarrow> item list" where
  "remove_first [] x = []"
| "remove_first (t # ts) x = (if it_id t = x then ts else t # remove_first ts x)"

primrec remove_below :: "item \<Rightarrow> string \<Rightarrow> item \<times> bool" and remove_some :: "item list \<Rightarrow> string \<Rightarrow> item list \<times> bool" where
  "remove_below (Item i n s b u a d cs) x =
     (if list_ex (\<lambda>c. it_id c = x) cs then (Item i n s b u a d (remove_first cs x), True)
      else (let (cs', r) = remove_some cs x in (Item i n s b u a d cs', r)))"
| "remove_some [] x = ([], False)"
| "remove_some (t # ts) x =
     (let (t', r) = remove_below t x in
      if r then (t' # ts, True) else (let (ts', r') = remove_some ts x in (t # ts', r')))"

definition removeFromTree :: "item list \<Rightarrow> string \<Rightarrow> item list \<times> bool" where
  "removeFromTree ts x =
     (if list_ex (\<lambda>c. it_id c = x) ts then (remove_first ts x, True) else remove_some ts x)"

primrec find_at :: "item \<Rightarrow> string \<Rightarrow> item option" and findInTree :: "item list \<Rightarrow> string \<Rightarrow> item option" where
  "find_at (Item i n s b u a d cs) x = (if i = x then Some (Item i n s b u a d cs) else findInTree cs x)"
| "findInTree [] x = None"
| "findInTree (t # ts) x = (case find_at t x of Some f \<Rightarrow> Some f | None \<Rightarrow> findInTree ts x)"

section \<open>The document\<close>

text \<open>The fields in the order in which \<open>makeItem\<close> has them.\<close>

fun item_json :: "item \<Rightarrow> jsv" where
  "item_json (Item i n s b u a d cs) =
     JObj [(''id'', JStr i), (''name'', JStr n), (''state'', JStr s), (''budget'', JNum b), (''used'', JNum u),
           (''assignee'', JStr a), (''desc'', JStr d), (''children'', JArr (map item_json cs))]"

definition project_json :: "string \<times> item list \<Rightarrow> jsv" where
  "project_json p = JObj [(''name'', JStr (fst p)), (''items'', JArr (map item_json (snd p)))]"

fun text_field :: "jsv \<Rightarrow> string option" where
  "text_field (JStr s) = (if s = [] then None else Some s)"
| "text_field v = (if truthy v then Some (js_string v) else None)"

fun num_field :: "jsv \<Rightarrow> int option" where
  "num_field (JNum n) = Some n"
| "num_field v = None"

definition children_of :: "jsv \<Rightarrow> jsv list option" where
  "children_of v =
     (let kids = js_prop v ''children'' in
      if \<not> truthy kids then Some [] else (case kids of JArr vs \<Rightarrow> Some vs | _ \<Rightarrow> None))"

definition fixed_item :: "jsv \<Rightarrow> string \<Rightarrow> item list \<Rightarrow> item" where
  "fixed_item v x cs =
     Item x (or_else (text_field (js_prop v ''name'')) []) (or_else (text_field (js_prop v ''state'')) ''ready'')
       (or_else (num_field (js_prop v ''budget'')) 8) (or_else (num_field (js_prop v ''used'')) 0)
       (or_else (text_field (js_prop v ''assignee'')) []) (or_else (text_field (js_prop v ''desc'')) []) cs"

text \<open>
  \<open>fixIds\<close> on the value of an array: it throws on null, on a primitive when it sets its id (after the number was
  taken, in strict mode), and where \<open>children\<close> has no \<open>forEach\<close>. The result is the item as the widget sees it
  afterwards, with the counter.
\<close>

definition the_id :: "jsv \<Rightarrow> int \<Rightarrow> string \<times> int" where
  "the_id v k = (case text_field (js_prop v ''id'') of Some x \<Rightarrow> (x, k) | None \<Rightarrow> newId k)"

lemma js_prop_size: "js_prop v k = JArr vs \<Longrightarrow> size_list size vs < size v"
proof (cases v)
  case (JObj kvs)
  assume "js_prop v k = JArr vs"
  then have "(k, JArr vs) \<in> set kvs" by (auto simp: JObj split: option.splits dest: map_of_SomeD)
  then have "size_prod (\<lambda>_. 0) size (k, JArr vs) \<le> size_list (size_prod (\<lambda>_. 0) size) kvs"
    by (rule size_list_estimation') simp
  then show ?thesis by (simp add: JObj)
qed simp_all

lemma children_of_size: "children_of v = Some vs \<Longrightarrow> vs = [] \<or> size_list size vs < size v"
  by (auto simp: children_of_def Let_def js_prop_size split: if_splits jsv.splits)

function (sequential) fixIds :: "jsv \<Rightarrow> int \<Rightarrow> (err + item) \<times> int"
  and fixIds_list :: "jsv list \<Rightarrow> int \<Rightarrow> (err + item list) \<times> int"
where
  "fixIds v k =
     (case v of
        JNull \<Rightarrow> (Inl (Err_Type ''Cannot read properties of null''), k)
      | JUndef \<Rightarrow> (Inl (Err_Type ''Cannot read properties of undefined''), k)
      | JBool b \<Rightarrow> (Inl (Err_Type ''Cannot create property''), k + 1)
      | JNum n \<Rightarrow> (Inl (Err_Type ''Cannot create property''), k + 1)
      | JStr s \<Rightarrow> (Inl (Err_Type ''Cannot create property''), k + 1)
      | _ \<Rightarrow>
          (let (x, k1) = the_id v k; k2 = bump x k1 in
           case children_of v of
             None \<Rightarrow> (Inl (Err_Type ''item.children.forEach is not a function''), k2)
           | Some [] \<Rightarrow> (Inr (fixed_item v x []), k2)
           | Some (c # cs) \<Rightarrow>
               (case fixIds_list (c # cs) k2 of
                  (Inl e, k3) \<Rightarrow> (Inl e, k3)
                | (Inr kids, k3) \<Rightarrow> (Inr (fixed_item v x kids), k3))))"
| "fixIds_list [] k = (Inr [], k)"
| "fixIds_list (v # vs) k =
     (case fixIds v k of
        (Inl e, k1) \<Rightarrow> (Inl e, k1)
      | (Inr x, k1) \<Rightarrow>
          (case fixIds_list vs k1 of
             (Inl e, k2) \<Rightarrow> (Inl e, k2)
           | (Inr xs, k2) \<Rightarrow> (Inr (x # xs), k2)))"
  by pat_completeness auto
termination
  by (relation "measure (case_sum (\<lambda>(v, k). size v) (\<lambda>(vs, k). size_list size vs))")
    (auto dest!: children_of_size)

text \<open>
  \<open>JSON.parse\<close> of the text, the items put in when missing, and their numbering. An array or a document without
  a name keeps what it has; its name is taken as empty here.
\<close>

definition load_project :: "string \<Rightarrow> int \<Rightarrow> (err + string \<times> item list) \<times> int" where
  "load_project t k =
     (case json_parse t of
        None \<Rightarrow> (Inl (Err_Syntax ''Unexpected token in JSON''), k)
      | Some v \<Rightarrow>
          (case js_prop_strict v ''items'' of
             Inl e \<Rightarrow> (Inl e, k)
           | Inr items \<Rightarrow>
               (if \<not> truthy items
                then (case v of
                        JObj kvs \<Rightarrow> (Inr (or_else (text_field (js_prop v ''name'')) [], []), k)
                      | JArr vs \<Rightarrow> (Inr ([], []), k)
                      | _ \<Rightarrow> (Inl (Err_Type ''Cannot create property items''), k))
                else (case items of
                        JArr vs \<Rightarrow>
                          (case fixIds_list vs k of
                             (Inl e, k') \<Rightarrow> (Inl e, k')
                           | (Inr its, k') \<Rightarrow> (Inr (or_else (text_field (js_prop v ''name'')) [], its), k'))
                      | _ \<Rightarrow> (Inl (Err_Type ''project.items.forEach is not a function''), k)))))"

section \<open>The items of a tree\<close>

fun all_items :: "item \<Rightarrow> item list" where
  "all_items (Item i n s b u a d cs) = Item i n s b u a d cs # concat (map all_items cs)"

definition forest_items :: "item list \<Rightarrow> item list" where
  "forest_items ts = concat (map all_items ts)"

definition forest_ids :: "item list \<Rightarrow> string list" where
  "forest_ids ts = map it_id (forest_items ts)"

abbreviation tree_ids :: "item \<Rightarrow> string list" where
  "tree_ids t \<equiv> map it_id (all_items t)"

lemma forest_simps [simp]:
  "forest_items [] = []" "forest_items (t # ts) = all_items t @ forest_items ts"
  "forest_ids [] = []" "forest_ids (t # ts) = tree_ids t @ forest_ids ts"
  by (simp_all add: forest_items_def forest_ids_def)

lemma all_items_forest: "all_items (Item i n s b u a d cs) = Item i n s b u a d cs # forest_items cs"
  by (simp add: forest_items_def)

lemma tree_ids_forest: "tree_ids (Item i n s b u a d cs) = i # forest_ids cs"
  by (simp add: all_items_forest forest_ids_def forest_items_def)

lemma head_in_ids: "it_id t \<in> set (tree_ids t)"
  by (cases t) simp

declare all_items.simps [simp del]

section \<open>Hours and states\<close>

lemma sum_list_concat_map: "sum_list (map f (concat (map g cs))) = (\<Sum>c\<leftarrow>cs. sum_list (map f (g c)) :: int)"
  by (induction cs) simp_all

lemma foldl_plus: "foldl (\<lambda>t k. t + f k) (z::int) ks = z + sum_list (map f ks)"
  by (induction ks arbitrary: z) simp_all

text \<open>
  The hours shown for an item are the sums of the budgets and of the used hours of the leaves below it.
\<close>

theorem rollup_leaves:
  "rollup it = (sum_list (map it_budget (allLeaves it)), sum_list (map it_used (allLeaves it)))"
proof (induction it rule: rollup.induct)
  case (1 i n s b u a d cs)
  show ?case
  proof (cases "cs = []")
    case False
    then have "rollup c = (sum_list (map it_budget (allLeaves c)), sum_list (map it_used (allLeaves c)))" if "c \<in> set cs" for c
      using "1.IH" that by blast
    then have "map rollup cs = map (\<lambda>c. (sum_list (map it_budget (allLeaves c)), sum_list (map it_used (allLeaves c)))) cs"
      by simp
    then show ?thesis
      using False by (simp only: rollup.simps allLeaves.simps if_False Let_def foldl_plus sum_list_concat_map) (simp add: comp_def)
  qed simp
qed

definition known_state :: "string \<Rightarrow> bool" where
  "known_state s \<longleftrightarrow> s \<in> {''ready'', ''in-progress'', ''post-production'', ''can-ship''}"

lemma order_of_known:
  "order_of ''ready'' = 0" "order_of ''in-progress'' = 1" "order_of ''post-production'' = 2"
  "order_of ''can-ship'' = 3"
  by (simp_all add: order_of_def STATE_ORDER_def)

lemma known_cases:
  assumes "known_state s"
  obtains "s = ''ready''" | "s = ''in-progress''" | "s = ''post-production''" | "s = ''can-ship''"
  using assms unfolding known_state_def by blast

lemma order_steps:
  assumes "known_state s"
  shows "3 \<le> order_of s \<longleftrightarrow> s = ''can-ship''"
    and "2 \<le> order_of s \<longleftrightarrow> s = ''post-production'' \<or> s = ''can-ship''"
    and "1 \<le> order_of s \<longleftrightarrow> s \<noteq> ''ready''"
    and "order_of s \<le> 3"
  using assms by (cases rule: known_cases; simp add: order_of_known)+

lemma allLeaves_nonempty: "allLeaves it \<noteq> []"
  by (induction it rule: allLeaves.induct) auto

lemma allLeaves_leaf: "it_children it = [] \<Longrightarrow> allLeaves it = [it]"
  by (cases it) simp

text \<open>
  The state shown for an item is that of its leaves: \<open>can-ship\<close> when all can ship, \<open>post-production\<close> when all are
  that far, \<open>in-progress\<close> when at least one has been started, \<open>ready\<close> when none has.
\<close>

theorem rolledState_correct:
  assumes "\<forall>l \<in> set (allLeaves it). known_state (it_state l)"
  shows "rolledState it =
    (let states = it_state ` set (allLeaves it) in
     if states \<subseteq> {''can-ship''} then ''can-ship''
     else if states \<subseteq> {''post-production'', ''can-ship''} then ''post-production''
     else if states \<subseteq> {''ready''} then ''ready'' else ''in-progress'')"
proof (cases "it_children it = []")
  case True
  then show ?thesis using assms by (auto simp: rolledState_def allLeaves_leaf known_state_def)
next
  case False
  define S where "S = it_state ` set (allLeaves it)"
  define os where "os = order_of ` S"
  have fin: "finite os" "os \<noteq> {}" by (simp_all add: os_def S_def allLeaves_nonempty)
  have ks: "known_state s" if "s \<in> S" for s using that assms by (auto simp: S_def)
  have lo: "m \<le> Min os \<longleftrightarrow> (\<forall>s \<in> S. m \<le> order_of s)" for m using fin by (auto simp: os_def)
  have hi: "m \<le> Max os \<longleftrightarrow> (\<exists>s \<in> S. m \<le> order_of s)" for m using fin by (auto simp: os_def Max_ge_iff)
  have "Min os \<le> 3" using Min_in [OF fin] order_steps(4) [OF ks] by (auto simp: os_def)
  then have ship: "Min os = 3 \<longleftrightarrow> S \<subseteq> {''can-ship''}"
    using lo [of 3] order_steps(1) [OF ks] by auto
  have post: "2 \<le> Min os \<longleftrightarrow> S \<subseteq> {''post-production'', ''can-ship''}"
    using lo [of 2] order_steps(2) [OF ks] by auto
  have prog: "1 \<le> Max os \<longleftrightarrow> \<not> S \<subseteq> {''ready''}"
    using hi [of 1] order_steps(3) [OF ks] by auto
  have os: "set (map (\<lambda>l. order_of (it_state l)) (allLeaves it)) = os" by (auto simp: os_def S_def)
  have "rolledState it = (if Min os = 3 then ''can-ship'' else if 2 \<le> Min os then ''post-production''
      else if 1 \<le> Max os then ''in-progress'' else ''ready'')"
    by (simp only: rolledState_def os False Let_def if_False order_of_known)
  also have "\<dots> = (if S \<subseteq> {''can-ship''} then ''can-ship''
     else if S \<subseteq> {''post-production'', ''can-ship''} then ''post-production''
     else if S \<subseteq> {''ready''} then ''ready'' else ''in-progress'')"
    by (simp only: ship post prog) simp
  finally show ?thesis by (simp only: S_def Let_def)
qed

definition leaf :: "string \<Rightarrow> string \<Rightarrow> item" where
  "leaf i s = Item i ''x'' s 8 0 [] [] []"

theorem rolledState_correct_witness:
  "rolledState (Item ''1'' ''p'' ''ready'' 8 0 [] [] [leaf ''2'' ''can-ship'', leaf ''3'' ''in-progress'']) = ''in-progress''"
  using rolledState_correct [of "Item ''1'' ''p'' ''ready'' 8 0 [] [] [leaf ''2'' ''can-ship'', leaf ''3'' ''in-progress'']"]
  by (simp add: leaf_def known_state_def)

section \<open>Search and removal\<close>

lemma find_in_items:
  "find_at t x = Some f \<Longrightarrow> f \<in> set (all_items t) \<and> it_id f = x"
  "findInTree ts x = Some f \<Longrightarrow> f \<in> set (forest_items ts) \<and> it_id f = x"
  by (induct t and ts rule: find_at.induct findInTree.induct)
    (auto simp: all_items_forest split: if_splits option.splits)

lemma find_none:
  "find_at t x = None \<longleftrightarrow> x \<notin> set (tree_ids t)"
  "findInTree ts x = None \<longleftrightarrow> x \<notin> set (forest_ids ts)"
  by (induct t and ts rule: find_at.induct findInTree.induct)
    (auto simp: tree_ids_forest split: if_splits option.splits)

text \<open>\<open>cuts ts x ts'\<close>: one subtree with the id \<open>x\<close> at its root is gone, nothing else.\<close>

definition cuts :: "item list \<Rightarrow> string \<Rightarrow> item list \<Rightarrow> bool" where
  "cuts ts x ts' \<longleftrightarrow>
     (\<exists>f \<in> set (forest_items ts). it_id f = x \<and> mset (forest_ids ts) = mset (forest_ids ts') + mset (tree_ids f))"

lemma item_in_own: "t \<in> set (all_items t)"
  by (cases t) (simp add: all_items_forest)

lemma cuts_here: "it_id t = x \<Longrightarrow> cuts (t # ts) x ts"
  unfolding cuts_def by (rule bexI [of _ t]) (simp_all add: item_in_own)

lemma cuts_later: "cuts ts x ts' \<Longrightarrow> cuts (t # ts) x (t # ts')"
  unfolding cuts_def by (auto simp: ac_simps)

lemma cuts_below:
  "cuts cs x cs' \<Longrightarrow> cuts (Item i n s b u a d cs # ts) x (Item i n s b u a d cs' # ts)"
  unfolding cuts_def by (auto simp: all_items_forest forest_ids_def)

lemma remove_first_cuts: "list_ex (\<lambda>c. it_id c = x) ts \<Longrightarrow> cuts ts x (remove_first ts x)"
  by (induction ts) (auto intro: cuts_here cuts_later)

lemma remove_cuts:
  "(snd (remove_below t x) \<longrightarrow> cuts [t] x [fst (remove_below t x)])
    \<and> (\<not> snd (remove_below t x) \<longrightarrow> fst (remove_below t x) = t \<and> x \<notin> set (forest_ids (it_children t)))"
  "(snd (remove_some ts x) \<longrightarrow> cuts ts x (fst (remove_some ts x)))
    \<and> (\<not> snd (remove_some ts x) \<longrightarrow> fst (remove_some ts x) = ts \<and> (\<forall>t \<in> set ts. x \<notin> set (forest_ids (it_children t))))"
proof (induct t and ts rule: remove_below.induct remove_some.induct)
  case (Item i n s b u a d cs)
  have top: "x \<in> set (forest_ids cs) \<longleftrightarrow> list_ex (\<lambda>c. it_id c = x) cs \<or> (\<exists>t \<in> set cs. x \<in> set (forest_ids (it_children t)))"
  proof (induction cs)
    case (Cons t ts)
    then show ?case by (cases t) (auto simp: tree_ids_forest)
  qed simp
  show ?case
    using Item top by (auto intro: cuts_below remove_first_cuts split: prod.splits)
next
  case (Cons_item t ts)
  have one: "cuts [t] x [t'] \<Longrightarrow> cuts (t # ts) x (t' # ts)" for t' by (auto simp: cuts_def)
  show ?case using Cons_item by (auto intro: one cuts_later split: prod.splits)
qed simp

lemma removeFromTree_cuts:
  "(snd (removeFromTree ts x) \<longrightarrow> cuts ts x (fst (removeFromTree ts x)))
    \<and> (\<not> snd (removeFromTree ts x) \<longrightarrow> fst (removeFromTree ts x) = ts \<and> x \<notin> set (forest_ids ts))"
proof -
  have top: "x \<in> set (forest_ids ts) \<Longrightarrow> list_ex (\<lambda>c. it_id c = x) ts \<or> (\<exists>t \<in> set ts. x \<in> set (forest_ids (it_children t)))"
  proof (induction ts)
    case (Cons t ts)
    then show ?case by (cases t) (auto simp: tree_ids_forest)
  qed simp
  show ?thesis using remove_cuts(2) [of ts x] remove_first_cuts [of x ts] top by (auto simp: removeFromTree_def)
qed

text \<open>
  In a project whose ids are distinct, removing an id reports whether there is such an item; it takes out
  exactly the ids of that item and of all items below it, so that the id is not found any more.
\<close>

theorem removeFromTree_correct:
  assumes "distinct (forest_ids ts)" and "removeFromTree ts x = (ts', r)"
  shows "(case findInTree ts x of
      None \<Rightarrow> \<not> r \<and> ts' = ts
    | Some it \<Rightarrow> r \<and> mset (forest_ids ts) = mset (forest_ids ts') + mset (tree_ids it)
        \<and> findInTree ts' x = None \<and> distinct (forest_ids ts'))"
proof (cases "findInTree ts x")
  case None
  then have "x \<notin> set (forest_ids ts)" by (simp add: find_none)
  then have "\<not> cuts ts x ts'" by (auto simp: cuts_def forest_ids_def)
  then show ?thesis using None removeFromTree_cuts [of ts x] assms(2) by auto
next
  case (Some it)
  then have it: "it \<in> set (forest_items ts)" "it_id it = x" using find_in_items(2) by blast+
  then have "x \<in> set (forest_ids ts)" by (auto simp: forest_ids_def)
  then have r: r and "cuts ts x ts'" using removeFromTree_cuts [of ts x] assms(2) by auto
  then obtain f where f: "f \<in> set (forest_items ts)" "it_id f = x"
      and m: "mset (forest_ids ts) = mset (forest_ids ts') + mset (tree_ids f)" by (auto simp: cuts_def)
  have "f = it" using assms(1) f it unfolding forest_ids_def distinct_map by (auto dest: inj_onD)
  with m have eq: "mset (forest_ids ts) = mset (forest_ids ts' @ tree_ids it)" by simp
  then have d: "distinct (forest_ids ts' @ tree_ids it)" using assms(1) by (metis mset_eq_imp_distinct_iff)
  have "x \<in> set (tree_ids it)" using it(2) head_in_ids [of it] by simp
  then have "x \<notin> set (forest_ids ts')" using d by auto
  then show ?thesis using Some r eq d by (simp add: find_none)
qed

theorem removeFromTree_correct_witness:
  "findInTree (fst (removeFromTree [leaf ''1'' ''ready'', leaf ''2'' ''ready''] ''1'')) ''1'' = None"
  using removeFromTree_correct [of "[leaf ''1'' ''ready'', leaf ''2'' ''ready'']" "''1''" _ True]
  by (simp add: leaf_def all_items.simps removeFromTree_def)

section \<open>Fresh ids\<close>

lemma digit_not_blank: "is_digit c \<Longrightarrow> \<not> js_blank c"
  by (auto simp: is_digit_def js_blank_def is_ws_def)

lemma parse_magnitude_nat_str: "parse_magnitude (nat_str n) = Some n"
proof -
  have all: "\<forall>c \<in> set (nat_str n). is_digit c" by (rule nat_str_digits)
  have "\<not> is_digit (CHR ''x'')" "\<not> is_digit (CHR ''X'')" by (simp_all add: is_digit_def)
  then have "length (nat_str n) \<ge> 2 \<Longrightarrow> nat_str n ! 1 \<notin> {CHR ''x'', CHR ''X''}"
    using all by (metis Suc_1 Suc_le_lessD empty_iff insert_iff nth_mem)
  moreover have tw: "takeWhile is_digit (nat_str n) = nat_str n" using all by (simp add: takeWhile_eq_all_conv)
  ultimately show ?thesis by (auto simp: parse_magnitude_def Let_def tw)
qed

lemma parseInt_int_str: "0 \<le> k \<Longrightarrow> parseInt (int_str k) = Some k"
proof -
  assume k: "0 \<le> k"
  obtain c cs where s: "nat_str (nat k) = c # cs" by (meson nat_str_nonempty neq_Nil_conv)
  then have d: "is_digit c" using nat_str_digits [of "nat k"] by simp
  then have "c \<noteq> CHR ''-''" "c \<noteq> CHR ''+''" by (auto simp: is_digit_def)
  then show ?thesis
    using k s d parse_magnitude_nat_str [of "nat k"] digit_not_blank [OF d]
    by (simp add: parseInt_def int_str_def)
qed

text \<open>Every id that reads as a number is below the counter.\<close>

definition ids_below :: "string list \<Rightarrow> int \<Rightarrow> bool" where
  "ids_below is k \<longleftrightarrow> 1 \<le> k \<and> (\<forall>i \<in> set is. \<forall>n. parseInt i = Some n \<longrightarrow> n < k)"

lemma below_simps: "ids_below (is @ js) k \<longleftrightarrow> ids_below is k \<and> ids_below js k"
  by (auto simp: ids_below_def)

lemma below_mono: "ids_below is k \<Longrightarrow> set js \<subseteq> set is \<Longrightarrow> k \<le> k' \<Longrightarrow> ids_below js k'"
  by (auto simp: ids_below_def) (meson order_less_le_trans subsetD)

lemma fresh_id: "ids_below is k \<Longrightarrow> newId k = (x, k') \<Longrightarrow> x \<notin> set is \<and> ids_below (x # is) k'"
  by (auto simp: ids_below_def newId_def parseInt_int_str)

lemma below_bump: "ids_below is k \<Longrightarrow> ids_below (x # is) (bump x k)"
  by (auto simp: ids_below_def bump_def split: option.splits)

section \<open>Numbering a document\<close>

declare fixIds.simps [simp del] fixIds_list.simps [simp del]

lemma fixIds_list_simps [simp]:
  "fixIds_list [] k = (Inr [], k)"
  "fixIds_list (v # vs) k =
     (case fixIds v k of
        (Inl e, k1) \<Rightarrow> (Inl e, k1)
      | (Inr x, k1) \<Rightarrow> (case fixIds_list vs k1 of (Inl e, k2) \<Rightarrow> (Inl e, k2) | (Inr xs, k2) \<Rightarrow> (Inr (x # xs), k2)))"
  by (simp_all add: fixIds_list.simps)

lemma fixIds_object:
  "fixIds (JObj kvs) k =
     (let (x, k1) = the_id (JObj kvs) k; k2 = bump x k1 in
      case children_of (JObj kvs) of
        None \<Rightarrow> (Inl (Err_Type ''item.children.forEach is not a function''), k2)
      | Some vs \<Rightarrow>
          (case fixIds_list vs k2 of
             (Inl e, k3) \<Rightarrow> (Inl e, k3)
           | (Inr kids, k3) \<Rightarrow> (Inr (fixed_item (JObj kvs) x kids), k3)))"
  by (subst fixIds.simps) (simp add: Let_def split: prod.split option.split list.split)

primrec item_ok :: "item \<Rightarrow> bool" where
  "item_ok (Item i n s b u a d cs) = (i \<noteq> [] \<and> s \<noteq> [] \<and> list_all id (map item_ok cs))"

lemma item_json_fields:
  "js_prop (item_json (Item i n s b u a d cs)) ''id'' = JStr i"
  "js_prop (item_json (Item i n s b u a d cs)) ''name'' = JStr n"
  "js_prop (item_json (Item i n s b u a d cs)) ''state'' = JStr s"
  "js_prop (item_json (Item i n s b u a d cs)) ''budget'' = JNum b"
  "js_prop (item_json (Item i n s b u a d cs)) ''used'' = JNum u"
  "js_prop (item_json (Item i n s b u a d cs)) ''assignee'' = JStr a"
  "js_prop (item_json (Item i n s b u a d cs)) ''desc'' = JStr d"
  "children_of (item_json (Item i n s b u a d cs)) = Some (map item_json cs)"
  by (simp_all add: children_of_def)

lemma text_field_or [simp]: "or_else (text_field (JStr s)) [] = s"
  by simp

lemma fixIds_item:
  "item_ok it \<Longrightarrow> fixIds (item_json it) k = (Inr it, fold bump (tree_ids it) k)"
proof (induction it arbitrary: k rule: item.induct)
  case (Item i n s b u a d cs)
  have ok: "i \<noteq> []" "s \<noteq> []" "\<forall>c \<in> set cs. item_ok c" using Item.prems by (auto simp: list_all_iff)
  have kids: "fixIds_list (map item_json cs) j = (Inr cs, fold bump (forest_ids cs) j)" for j
    using Item.IH ok(3) by (induction cs arbitrary: j) simp_all
  have the: "the_id (item_json (Item i n s b u a d cs)) k = (i, k)"
    using ok(1) unfolding the_id_def item_json_fields by simp
  have "fixed_item (item_json (Item i n s b u a d cs)) i cs = Item i n s b u a d cs"
    using ok(2) unfolding fixed_item_def item_json_fields by simp
  moreover obtain kvs where kvs: "item_json (Item i n s b u a d cs) = JObj kvs" by simp
  ultimately show ?case
    using the kids [of "bump i k"] item_json_fields(8) [of i n s b u a d cs]
    by (simp only: kvs fixIds_object tree_ids_forest) (simp add: Let_def)
qed

lemma wf_item_json: "wf_jsv (item_json it)"
  by (induction it rule: item_json.induct) (simp add: wf_elems_iff wf_members_iff)

text \<open>
  The document written for a project is read back as the same project: parsing the text and numbering
  its items changes nothing, and the counter ends above every number among the ids.
\<close>

theorem document_round_trip:
  assumes "list_all item_ok items" and "1 \<le> k"
  shows "load_project (json_stringify2 (project_json (name, items))) k
      = (Inr (name, items), fold bump (forest_ids items) k)
    \<and> ids_below (forest_ids items) (fold bump (forest_ids items) k)"
proof -
  let ?doc = "project_json (name, items)"
  have wf: "wf_jsv ?doc" by (auto simp: project_json_def wf_elems_iff wf_members_iff wf_item_json)
  have list: "fixIds_list (map item_json items) k = (Inr items, fold bump (forest_ids items) k)"
    using assms(1) by (induction items arbitrary: k) (simp_all add: fixIds_item)
  have up: "ids_below js j \<Longrightarrow> ids_below (is @ js) (fold bump is j)" for "is" js j
  proof (induction "is" arbitrary: js j)
    case (Cons i "is")
    then show ?case using Cons.IH [OF below_bump [OF Cons.prems, of i]] by (simp add: ids_below_def)
  qed simp
  have "ids_below [] k" using assms(2) by (simp add: ids_below_def)
  from up [OF this, of "forest_ids items"] have "ids_below (forest_ids items) (fold bump (forest_ids items) k)" by simp
  moreover have "load_project (json_stringify2 ?doc) k = (Inr (name, items), fold bump (forest_ids items) k)"
    using list by (simp add: load_project_def wf) (simp add: project_json_def)
  ultimately show ?thesis by simp
qed

interpretation project_text: codec "\<lambda>p. json_stringify2 (project_json p)"
    "\<lambda>t. case fst (load_project t (1 + int n)) of Inl e \<Rightarrow> None | Inr p \<Rightarrow> Some p" "\<lambda>p. list_all item_ok (snd p)" for n
proof
  show "(case fst (load_project (json_stringify2 (project_json p)) (1 + int n)) of Inl e \<Rightarrow> None | Inr q \<Rightarrow> Some q) = Some p"
    if "list_all item_ok (snd p)" for p
    using document_round_trip [of "snd p" "1 + int n" "fst p"] that by simp
qed

text \<open>Two projects with the same document are the same.\<close>

lemma document_inj:
  "list_all item_ok (snd p) \<Longrightarrow> list_all item_ok (snd q)
    \<Longrightarrow> json_stringify2 (project_json p) = json_stringify2 (project_json q) \<longleftrightarrow> p = q"
  by (rule project_text.enc_inj)

theorem document_round_trip_witness:
  "fst (load_project (json_stringify2 (project_json (''p'', [leaf ''7'' ''ready'']))) 1) = Inr (''p'', [leaf ''7'' ''ready''])"
  using document_round_trip [of "[leaf ''7'' ''ready'']" 1 "''p''"] by (simp add: leaf_def)

text \<open>
  Numbering gives an item without an id the next number before it has seen the ids further on, so that an
  item after it that has this number keeps it: two items of the project then share an id.
\<close>

theorem fixIds_collision:
  "(case fixIds_list [JObj [], JObj [(''id'', JStr ''1'')]] 1 of (r, k) \<Rightarrow>
      map_sum id forest_ids r = Inr [''1'', ''1''] \<and> k = 2)"
  by code_simp

end
