(* ===== verification/Project.thy ===== *)
theory Project
  imports Project_Tree Widgets
begin

text \<open>
  project/gwm-widget.js, the widget: its state, opening and saving of \<open>project.json\<close> through the operations of a
  volume, the changes the user makes to the tree, and what is shown. An item of the tree is named by its position:
  the closures of the code hold the item object. Layout, styles and focus are left out.
\<close>

section \<open>State\<close>

record pw =
  pw_path :: string
  pw_project :: "(string \<times> item list) option"
  pw_collapsed :: "string list"
  pw_sel :: "string option"
  pw_detail :: "string option"
  pw_timer :: bool
  pw_status :: "string \<times> string"
  pw_next :: int

text \<open>\<open>next\<close> is the counter of the module, which all widgets of a page share.\<close>

definition new_widget :: "string \<Rightarrow> int \<Rightarrow> pw" where
  "new_widget path k =
     \<lparr>pw_path = path, pw_project = None, pw_collapsed = [], pw_sel = None, pw_detail = None, pw_timer = False,
      pw_status = ([], []), pw_next = k\<rparr>"

text \<open>The ellipsis and the dash of the messages, as code units.\<close>

definition ellipsis :: string where "ellipsis = [CHR 0xE2, CHR 0x80, CHR 0xA6]"
definition not_persisted :: string where
  "not_persisted = ''no filesystem '' @ [CHR 0xE2, CHR 0x80, CHR 0x94] @ '' changes not persisted''"

definition setStatus :: "string \<Rightarrow> string \<Rightarrow> ('s, pw, unit) wprog" where
  "setStatus type msg = on_widget (\<lambda>w. w\<lparr>pw_status := (type, msg)\<rparr>)"

section \<open>Opening and saving\<close>

definition normPath :: "string \<Rightarrow> string" where
  "normPath p = strip_trail (strip_lead p)"

definition projectFilePath :: "pw \<Rightarrow> string" where
  "projectFilePath w = normPath (pw_path w) @ ''/project.json''"

definition project_name :: "string \<Rightarrow> string" where
  "project_name path = (let ps = path_parts path in if ps = [] then ''project'' else last ps)"

text \<open>\<open>save\<close> in two parts: what is stored is taken before the first await, the path it is linked to after it.\<close>

definition save_upload :: "'s vapi \<Rightarrow> string \<Rightarrow> string \<times> item list \<Rightarrow> ('s, pw, string) wprog" where
  "save_upload va key p = on_api (store_file va key (text_encode (json_stringify2 (project_json p))))"

definition save_link :: "'s vapi \<Rightarrow> string \<Rightarrow> string \<Rightarrow> ('s, pw, jsv) wprog" where
  "save_link va key metaCID = with_widget (\<lambda>w. on_api (va_link va key metaCID (projectFilePath w)))"

definition save_failed :: "err \<Rightarrow> ('s, pw, unit) wprog" where
  "save_failed e = setStatus ''error'' (''save failed: '' @ (if err_message e = [] then ''Error'' else err_message e))"

definition save :: "'s vapi \<Rightarrow> string option \<Rightarrow> ('s, pw, unit) wprog" where
  "save va vol = with_widget (\<lambda>w.
     case pw_project w of
       None \<Rightarrow> aret ()
     | Some p \<Rightarrow>
         abind (setStatus ''saving'' (''saving'' @ ellipsis)) (\<lambda>_.
         case vol of
           None \<Rightarrow> setStatus ''idle'' not_persisted
         | Some key \<Rightarrow>
             acatch (abind (save_upload va key p) (\<lambda>metaCID.
                     abind (save_link va key metaCID) (\<lambda>_. setStatus ''saved'' ''saved'')))
               save_failed))"

definition ensureDir :: "'s vapi \<Rightarrow> string option \<Rightarrow> string \<Rightarrow> ('s, pw, unit) wprog" where
  "ensureDir va vol path =
     (case vol of
        None \<Rightarrow> aret ()
      | Some key \<Rightarrow>
          on_api (on_assertion
            (abind (va_mkdir va key []) (\<lambda>metaCID.
             abind (va_multiLink va key [\<lparr>la_path = path, la_addr = Some metaCID, la_prev = Some [], la_assert = Some 1\<rparr>])
               (\<lambda>_. aret ())))
            (aret ())))"

definition set_project :: "string \<times> item list \<Rightarrow> pw \<Rightarrow> pw" where
  "set_project p w = w\<lparr>pw_project := Some p\<rparr>"

text \<open>The \<open>try\<close> block of \<open>openProject\<close>: the numbering moves the counter even where it throws.\<close>

definition load :: "'s vapi \<Rightarrow> string \<Rightarrow> ('s, pw, unit) wprog" where
  "load va key =
     abind (with_widget (\<lambda>w. on_api (va_lookup va key (projectFilePath w)))) (\<lambda>fl.
     abind (on_api (va_text va key fl)) (\<lambda>text.
     abind (\<lambda>(s, w). case load_project text (pw_next w) of (r, k) \<Rightarrow> Some (r, (s, w\<lparr>pw_next := k\<rparr>))) (\<lambda>p.
     abind (on_widget (set_project p)) (\<lambda>_. setStatus ''saved'' ''loaded''))))"

definition openProject :: "'s vapi \<Rightarrow> string option \<Rightarrow> string \<Rightarrow> ('s, pw, unit) wprog" where
  "openProject va vol path =
     (if path = [] then aret ()
      else
        abind (on_widget (\<lambda>w. w\<lparr>pw_path := path\<rparr>)) (\<lambda>_.
        abind (setStatus ''saving'' (''loading'' @ ellipsis)) (\<lambda>_.
        case vol of
          None \<Rightarrow>
            abind (on_widget (set_project (project_name path, [])))
              (\<lambda>_. setStatus ''idle'' not_persisted)
        | Some key \<Rightarrow>
            acatch (load va key) (\<lambda>_.
              abind (on_widget (set_project (project_name path, []))) (\<lambda>_.
              abind (ensureDir va vol (normPath path)) (\<lambda>_. save va vol))))))"

text \<open>The timer fires; \<open>destroy\<close> saves what is pending.\<close>

definition timer_fires :: "'s vapi \<Rightarrow> string option \<Rightarrow> ('s, pw, unit) wprog" where
  "timer_fires va vol = abind (on_widget (\<lambda>w. w\<lparr>pw_timer := False\<rparr>)) (\<lambda>_. save va vol)"

definition destroy :: "'s vapi \<Rightarrow> string option \<Rightarrow> ('s, pw, unit) wprog" where
  "destroy va vol = with_widget (\<lambda>w. if pw_timer w then save va vol else aret ())"

section \<open>Changes of the tree\<close>

fun with_children :: "(item list \<Rightarrow> item list) \<Rightarrow> item \<Rightarrow> item" where
  "with_children f (Item i n s b u a d cs) = Item i n s b u a d (f cs)"

fun item_at :: "item list \<Rightarrow> nat list \<Rightarrow> item option" where
  "item_at ts [] = None"
| "item_at ts [i] = (if i < length ts then Some (ts ! i) else None)"
| "item_at ts (i # p) = (if i < length ts then item_at (it_children (ts ! i)) p else None)"

text \<open>Change the list of siblings at a position, and the item at one.\<close>

fun alter_list :: "nat list \<Rightarrow> (item list \<Rightarrow> item list) \<Rightarrow> item list \<Rightarrow> item list" where
  "alter_list [] f ts = f ts"
| "alter_list (i # p) f ts = (if i < length ts then ts[i := with_children (alter_list p f) (ts ! i)] else ts)"

definition alter_item :: "nat list \<Rightarrow> (item \<Rightarrow> item) \<Rightarrow> item list \<Rightarrow> item list" where
  "alter_item p f ts =
     (if p = [] then ts
      else alter_list (butlast p) (\<lambda>cs. if last p < length cs then cs[last p := f (cs ! last p)] else cs) ts)"

definition scheduleSave :: "pw \<Rightarrow> pw" where
  "scheduleSave w = w\<lparr>pw_timer := True\<rparr>"

definition set_items :: "item list \<Rightarrow> pw \<Rightarrow> pw" where
  "set_items ts w = w\<lparr>pw_project := map_option (\<lambda>(n, _). (n, ts)) (pw_project w)\<rparr>"

text \<open>The handler of the header's button; it takes an id even where it then throws for want of a project.\<close>

definition addTop :: "pw \<Rightarrow> pw" where
  "addTop w =
     (let (new, k) = makeItem ''new item'' (pw_next w); w1 = w\<lparr>pw_next := k\<rparr> in
      case pw_project w of
        None \<Rightarrow> w1
      | Some (n, ts) \<Rightarrow> scheduleSave (set_items (ts @ [new]) w1))"

definition addChild :: "nat list \<Rightarrow> item \<Rightarrow> item list \<Rightarrow> pw \<Rightarrow> pw" where
  "addChild p it ts w =
     (let (new, k) = makeItem ''new item'' (pw_next w) in
      scheduleSave (set_items (alter_list p (\<lambda>cs. cs @ [new]) ts)
        (w\<lparr>pw_next := k, pw_collapsed := removeAll (it_id it) (pw_collapsed w)\<rparr>)))"

text \<open>\<open>indexOf\<close> of the item is -1 in a list that it is not in, so that the new one comes first there.\<close>

definition insert_after :: "nat list \<Rightarrow> nat list \<Rightarrow> item \<Rightarrow> item list \<Rightarrow> item list" where
  "insert_after p q new cs = (let i = (if q = butlast p then last p + 1 else 0) in take i cs @ new # drop i cs)"

definition addSibling :: "nat list \<Rightarrow> item \<Rightarrow> item list \<Rightarrow> pw \<Rightarrow> pw" where
  "addSibling p it ts w =
     (let (new, k) = makeItem ''new item'' (pw_next w);
          q = or_else (findParentList ts (it_id it) 0) []
      in scheduleSave (set_items (alter_list q (insert_after p q new) ts) (w\<lparr>pw_next := k\<rparr>)))"

text \<open>\<open>ok\<close> is the answer to the question that is asked for an item with children.\<close>

definition deleteItem :: "bool \<Rightarrow> string \<Rightarrow> item list \<Rightarrow> pw \<Rightarrow> pw" where
  "deleteItem ok x ts w =
     (case findInTree ts x of
        None \<Rightarrow> w
      | Some it \<Rightarrow>
          if it_children it \<noteq> [] \<and> \<not> ok then w
          else scheduleSave (set_items (fst (removeFromTree ts x))
            (w\<lparr>pw_sel := (if pw_sel w = Some x then None else pw_sel w),
               pw_detail := (if pw_detail w = Some x then None else pw_detail w)\<rparr>)))"

fun set_state :: "string \<Rightarrow> item \<Rightarrow> item" where
  "set_state v (Item i n s b u a d cs) = Item i n v b u a d cs"
fun set_name :: "string \<Rightarrow> item \<Rightarrow> item" where
  "set_name v (Item i n s b u a d cs) = Item i v s b u a d cs"
fun set_budget :: "int \<Rightarrow> item \<Rightarrow> item" where
  "set_budget v (Item i n s b u a d cs) = Item i n s v u a d cs"
fun set_used :: "int \<Rightarrow> item \<Rightarrow> item" where
  "set_used v (Item i n s b u a d cs) = Item i n s b v a d cs"
fun set_assignee :: "string \<Rightarrow> item \<Rightarrow> item" where
  "set_assignee v (Item i n s b u a d cs) = Item i n s b u v d cs"
fun set_desc :: "string \<Rightarrow> item \<Rightarrow> item" where
  "set_desc v (Item i n s b u a d cs) = Item i n s b u a v cs"

definition cycleState :: "nat list \<Rightarrow> item list \<Rightarrow> pw \<Rightarrow> pw" where
  "cycleState p ts w =
     scheduleSave (set_items (alter_item p (\<lambda>it. set_state (or_else (map_get STATE_NEXT (it_state it)) ''ready'') it) ts) w)"

definition commit :: "nat list \<Rightarrow> string \<Rightarrow> item \<Rightarrow> item list \<Rightarrow> pw \<Rightarrow> pw" where
  "commit p text it ts w =
     (let v = trim text in
      if v \<noteq> [] \<and> v \<noteq> it_name it then scheduleSave (set_items (alter_item p (set_name v) ts) w) else w)"

text \<open>A click on a row.\<close>

definition rowClick :: "item \<Rightarrow> pw \<Rightarrow> pw" where
  "rowClick it w =
     (let x = it_id it; wasSel = (pw_sel w = Some x); w1 = w\<lparr>pw_sel := Some x\<rparr> in
      if it_children it \<noteq> []
      then w1\<lparr>pw_collapsed := (if x \<in> set (pw_collapsed w) then removeAll x (pw_collapsed w) else pw_collapsed w @ [x]),
              pw_detail := (if pw_detail w = Some x then None else pw_detail w)\<rparr>
      else w1\<lparr>pw_detail := (if pw_detail w = Some x \<and> wasSel then None else Some x)\<rparr>)"

text \<open>What the user does; a number field that does not read as a number is None.\<close>

datatype user_event =
    Add_top | Add "nat list" | Delete bool "nat list" | Dot "nat list" | Rename "nat list" string | Click "nat list"
  | Edit_assignee "nat list" string | Edit_budget "nat list" "int option" | Edit_used "nat list" "int option"
  | Edit_state "nat list" string | Edit_desc "nat list" string

definition at_item :: "pw \<Rightarrow> nat list \<Rightarrow> (item \<Rightarrow> item list \<Rightarrow> pw) \<Rightarrow> pw" where
  "at_item w p f =
     (case pw_project w of
        None \<Rightarrow> w
      | Some (n, ts) \<Rightarrow> (case item_at ts p of None \<Rightarrow> w | Some it \<Rightarrow> f it ts))"

definition edit :: "nat list \<Rightarrow> (item \<Rightarrow> item) \<Rightarrow> pw \<Rightarrow> pw" where
  "edit p f w = at_item w p (\<lambda>it ts. scheduleSave (set_items (alter_item p f ts) w))"

definition edit_number :: "nat list \<Rightarrow> int option \<Rightarrow> (int \<Rightarrow> item \<Rightarrow> item) \<Rightarrow> pw \<Rightarrow> pw" where
  "edit_number p v f w = (case v of None \<Rightarrow> w | Some n \<Rightarrow> if n \<ge> 0 then edit p (f n) w else w)"

fun user_step :: "user_event \<Rightarrow> pw \<Rightarrow> pw" where
  "user_step Add_top w = addTop w"
| "user_step (Add p) w =
     at_item w p (\<lambda>it ts. if it_children it \<noteq> [] then addChild p it ts w else addSibling p it ts w)"
| "user_step (Delete ok p) w = at_item w p (\<lambda>it ts. deleteItem ok (it_id it) ts w)"
| "user_step (Dot p) w = at_item w p (\<lambda>it ts. if it_children it = [] then cycleState p ts w else w)"
| "user_step (Rename p v) w = at_item w p (\<lambda>it ts. commit p v it ts w)"
| "user_step (Click p) w = at_item w p (\<lambda>it ts. rowClick it w)"
| "user_step (Edit_assignee p v) w = edit p (set_assignee (trim v)) w"
| "user_step (Edit_budget p v) w = edit_number p v set_budget w"
| "user_step (Edit_used p v) w = edit_number p v set_used w"
| "user_step (Edit_state p v) w = edit p (set_state v) w"
| "user_step (Edit_desc p v) w = edit p (set_desc v) w"

section \<open>What is shown\<close>

record row =
  rw_id :: string
  rw_depth :: nat
  rw_name :: string
  rw_toggle :: "bool option"  \<comment> \<open>open or closed, None on a leaf\<close>
  rw_dot :: string
  rw_hours :: "int \<times> int"    \<comment> \<open>budget and used\<close>
  rw_over :: bool
  rw_selected :: bool
  rw_detail :: bool

definition row_of :: "pw \<Rightarrow> nat \<Rightarrow> item \<Rightarrow> row" where
  "row_of w depth it =
     (let hasKids = (it_children it \<noteq> []); isOpen = (it_id it \<notin> set (pw_collapsed w)); r = rollup it
      in \<lparr>rw_id = it_id it, rw_depth = depth, rw_name = it_name it,
          rw_toggle = (if hasKids then Some isOpen else None),
          rw_dot = (if hasKids then rolledState it else it_state it), rw_hours = r,
          rw_over = (snd r > fst r \<and> fst r > 0), rw_selected = (pw_sel w = Some (it_id it)),
          rw_detail = (\<not> hasKids \<and> pw_detail w = Some (it_id it))\<rparr>)"

fun renderItem :: "pw \<Rightarrow> nat \<Rightarrow> item \<Rightarrow> row list" where
  "renderItem w depth (Item i n s b u a d cs) =
     row_of w depth (Item i n s b u a d cs)
     # (if cs \<noteq> [] \<and> i \<notin> set (pw_collapsed w) then concat (map (renderItem w (Suc depth)) cs) else [])"

text \<open>The counts per state; a state of another name makes a NaN, which is not shown.\<close>

fun countLeaf :: "item \<Rightarrow> (string \<times> nat) list \<Rightarrow> (string \<times> nat) list" where
  "countLeaf (Item i n s b u a d cs) counts =
     (if cs = []
      then (case map_get counts s of None \<Rightarrow> counts | Some c \<Rightarrow> map_set s (c + 1) counts)
      else fold countLeaf cs counts)"

definition pills :: "item list \<Rightarrow> (string \<times> nat) list" where
  "pills ts =
     filter (\<lambda>(s, c). c \<noteq> 0)
       (fold countLeaf ts [(''ready'', 0), (''in-progress'', 0), (''post-production'', 0), (''can-ship'', 0)])"

text \<open>Class, colour and text of a pill.\<close>

definition pill_of :: "string \<times> nat \<Rightarrow> string \<times> string \<times> string" where
  "pill_of = (\<lambda>(s, c). (''gtr-pill '' @ or_else (map_get STATE_PILL s) [], or_else (map_get STATE_COLOR s) [],
     nat_str c @ '' '' @ or_else (map_get STATE_LABEL s) []))"

definition render :: "pw \<Rightarrow> ((string \<times> string \<times> string) list \<times> row list) option" where
  "render w =
     map_option (\<lambda>(n, ts). (map pill_of (pills ts), concat (map (renderItem w 0) ts))) (pw_project w)"

section \<open>Ids stay distinct\<close>

definition ids_ok :: "pw \<Rightarrow> bool" where
  "ids_ok w \<longleftrightarrow> 1 \<le> pw_next w
     \<and> (\<forall>n ts. pw_project w = Some (n, ts) \<longrightarrow> distinct (forest_ids ts) \<and> ids_below (forest_ids ts) (pw_next w))"

lemma forest_ids_append [simp]: "forest_ids (xs @ ys) = forest_ids xs @ forest_ids ys"
  by (induction xs) simp_all

lemma tree_ids_children: "tree_ids t = it_id t # forest_ids (it_children t)"
  by (cases t) (simp only: tree_ids_forest item.sel)

lemma with_children_sel [simp]:
  "it_id (with_children f t) = it_id t" "it_children (with_children f t) = f (it_children t)"
  by (cases t; simp)+

lemma update_ids:
  "i < length ts \<Longrightarrow> mset (tree_ids t) = mset (tree_ids (ts ! i)) + M \<Longrightarrow>
    mset (forest_ids (ts[i := t])) = mset (forest_ids ts) + M"
proof -
  assume i: "i < length ts" and t: "mset (tree_ids t) = mset (tree_ids (ts ! i)) + M"
  have "forest_ids ts = forest_ids (take i ts) @ tree_ids (ts ! i) @ forest_ids (drop (Suc i) ts)"
    by (subst id_take_nth_drop [OF i]) simp
  then show ?thesis using t by (simp add: upd_conv_take_nth_drop [OF i] ac_simps)
qed

lemma alter_list_ids:
  assumes "\<And>cs. mset (forest_ids (f cs)) = mset (forest_ids cs) + M"
  shows "alter_list p f ts = ts \<or> mset (forest_ids (alter_list p f ts)) = mset (forest_ids ts) + M"
proof (induction p arbitrary: ts)
  case (Cons i p)
  show ?case
  proof (cases "i < length ts")
    case True
    have "with_children g t = t" if "g (it_children t) = it_children t" for g t using that by (cases t) simp
    then show ?thesis
      using Cons.IH [of "it_children (ts ! i)"] True update_ids [OF True, of "with_children (alter_list p f) (ts ! i)" M]
      by (auto simp: tree_ids_children)
  qed simp
qed (simp add: assms)

lemma alter_item_ids:
  assumes "\<And>t. tree_ids (f t) = tree_ids t"
  shows "mset (forest_ids (alter_item p f ts)) = mset (forest_ids ts)"
proof -
  have "mset (forest_ids (if j < length cs then cs[j := f (cs ! j)] else cs)) = mset (forest_ids cs) + {#}" for j cs
    using update_ids [of j cs "f (cs ! j)" "{#}"] assms by simp
  from alter_list_ids [OF this, of "butlast p" "\<lambda>_. last p" ts] show ?thesis
    unfolding alter_item_def by (cases "p = []") auto
qed

lemma setters_ids:
  "tree_ids (set_state v t) = tree_ids t" "tree_ids (set_name v t) = tree_ids t"
  "tree_ids (set_budget k t) = tree_ids t" "tree_ids (set_used k t) = tree_ids t"
  "tree_ids (set_assignee v t) = tree_ids t" "tree_ids (set_desc v t) = tree_ids t"
  by (cases t; simp only: set_state.simps set_name.simps set_budget.simps set_used.simps set_assignee.simps
      set_desc.simps tree_ids_forest)+

lemma ids_ok_same:
  assumes "ids_ok w" and "pw_project w = Some (n, ts)" and "mset (forest_ids ts') \<subseteq># mset (forest_ids ts)"
    and "pw_project w' = Some (n, ts')" and "pw_next w' = pw_next w"
  shows "ids_ok w'"
proof -
  have d: "distinct (forest_ids ts)" and b: "ids_below (forest_ids ts) (pw_next w)" and k: "1 \<le> pw_next w"
    using assms(1,2) by (auto simp: ids_ok_def)
  have "set (forest_ids ts') \<subseteq> set (forest_ids ts)" using assms(3) by (metis set_mset_mset set_mset_mono)
  moreover have "distinct (forest_ids ts')"
  proof -
    obtain M where "mset (forest_ids ts) = mset (forest_ids ts') + M" using assms(3) by (auto simp: subset_mset.le_iff_add)
    moreover obtain zs where "M = mset zs" by (metis ex_mset)
    ultimately have "mset (forest_ids ts) = mset (forest_ids ts' @ zs)" by simp
    then show ?thesis using d by (metis distinct_append mset_eq_imp_distinct_iff)
  qed
  ultimately show ?thesis using k below_mono [OF b] assms(4,5) by (auto simp: ids_ok_def)
qed

lemma ids_ok_new:
  assumes "ids_ok w" and "pw_project w = Some (n, ts)" and "newId (pw_next w) = (x, k)"
    and "ts' = ts \<or> mset (forest_ids ts') = mset (forest_ids ts) + {#x#}"
    and "pw_project w' = Some (n, ts')" and "pw_next w' = k"
  shows "ids_ok w'"
proof -
  have d: "distinct (forest_ids ts)" and b: "ids_below (forest_ids ts) (pw_next w)" and "1 \<le> pw_next w"
    using assms(1,2) by (auto simp: ids_ok_def)
  then have f: "x \<notin> set (forest_ids ts)" "ids_below (x # forest_ids ts) k" and k: "1 \<le> k"
    using fresh_id [OF b assms(3)] assms(3) by (auto simp: newId_def)
  have "set (forest_ids ts') \<subseteq> set (x # forest_ids ts) \<and> distinct (forest_ids ts')" using assms(4)
  proof
    assume "mset (forest_ids ts') = mset (forest_ids ts) + {#x#}"
    then have "mset (forest_ids ts') = mset (x # forest_ids ts)" by simp
    then show ?thesis using f d by (metis distinct.simps(2) mset_eq_imp_distinct_iff mset_eq_setD order_refl)
  qed (use d in auto)
  then show ?thesis using k below_mono [OF f(2)] assms(5,6) by (auto simp: ids_ok_def)
qed

lemma cuts_ids: "mset (forest_ids (fst (removeFromTree ts x))) \<subseteq># mset (forest_ids ts)"
  using removeFromTree_cuts [of ts x] by (auto simp: cuts_def)

lemma new_item: "makeItem nm k = (new, k') \<Longrightarrow> \<exists>x. newId k = (x, k') \<and> tree_ids new = [x]"
  by (auto simp: makeItem_def all_items.simps split: prod.splits)

lemma insert_ids: "tree_ids new = [x] \<Longrightarrow> mset (forest_ids (insert_after p q new cs)) = mset (forest_ids cs) + {#x#}"
proof -
  assume x: "tree_ids new = [x]"
  have "mset (forest_ids (take i cs)) + mset (forest_ids (drop i cs)) = mset (forest_ids cs)" for i
    by (metis append_take_drop_id forest_ids_append mset_append)
  then show ?thesis using x by (simp add: insert_after_def Let_def ac_simps)
qed

lemma ids_ok_edit:
  assumes "ids_ok w" and "\<And>t. tree_ids (f t) = tree_ids t" and "pw_project w = Some (n, ts)"
  shows "ids_ok (scheduleSave (set_items (alter_item p f ts) w))"
  using assms(1,3)
  by (rule ids_ok_same [where ts' = "alter_item p f ts"])
    (simp_all add: alter_item_ids [OF assms(2)] scheduleSave_def set_items_def assms(3))

lemma ids_ok_frame: "ids_ok w \<Longrightarrow> pw_project w' = pw_project w \<Longrightarrow> pw_next w' = pw_next w \<Longrightarrow> ids_ok w'"
  by (simp add: ids_ok_def)

lemma at_item_ids:
  assumes "ids_ok w" and "\<And>n ts it. pw_project w = Some (n, ts) \<Longrightarrow> ids_ok (f it ts)"
  shows "ids_ok (at_item w p f)"
  using assms by (auto simp: at_item_def split: option.split)

lemma ids_ok_addTop: "ids_ok w \<Longrightarrow> ids_ok (addTop w)"
proof -
  assume w: "ids_ok w"
  obtain new k where mk: "makeItem ''new item'' (pw_next w) = (new, k)" by fastforce
  obtain x where x: "newId (pw_next w) = (x, k)" "tree_ids new = [x]" using new_item [OF mk] by auto
  show ?thesis
  proof (cases "pw_project w")
    case None
    then show ?thesis using w mk x by (auto simp: addTop_def ids_ok_def newId_def)
  next
    case (Some q)
    then obtain n ts where "pw_project w = Some (n, ts)" by (cases q) auto
    then show ?thesis
      using mk x by (intro ids_ok_new [OF w _ x(1), of n ts "ts @ [new]"])
        (simp_all add: addTop_def scheduleSave_def set_items_def)
  qed
qed

lemma ids_ok_add:
  assumes w: "ids_ok w" and ts: "pw_project w = Some (n, ts)"
  shows "ids_ok (addChild p it ts w)" and "ids_ok (addSibling p it ts w)"
proof -
  obtain new k where mk: "makeItem ''new item'' (pw_next w) = (new, k)" by fastforce
  obtain x where x: "newId (pw_next w) = (x, k)" "tree_ids new = [x]" using new_item [OF mk] by auto
  have child: "mset (forest_ids (cs @ [new])) = mset (forest_ids cs) + {#x#}" for cs using x(2) by simp
  show "ids_ok (addChild p it ts w)"
    using mk by (intro ids_ok_new [OF w ts x(1) alter_list_ids [OF child, of p ts]])
      (simp_all add: addChild_def scheduleSave_def set_items_def ts)
  define q where "q = or_else (findParentList ts (it_id it) 0) []"
  have sib: "mset (forest_ids (insert_after p q new cs)) = mset (forest_ids cs) + {#x#}" for cs
    by (rule insert_ids [OF x(2)])
  show "ids_ok (addSibling p it ts w)"
    using mk by (intro ids_ok_new [OF w ts x(1) alter_list_ids [OF sib, of q ts]])
      (simp_all add: addSibling_def scheduleSave_def set_items_def ts q_def Let_def)
qed

lemma ids_ok_delete: "ids_ok w \<Longrightarrow> pw_project w = Some (n, ts) \<Longrightarrow> ids_ok (deleteItem ok x ts w)"
proof -
  assume w: "ids_ok w" and ts: "pw_project w = Some (n, ts)"
  show ?thesis
  proof (cases "deleteItem ok x ts w = w")
    case False
    then show ?thesis
      by (intro ids_ok_same [OF w ts cuts_ids [of ts x]])
        (auto simp: deleteItem_def scheduleSave_def set_items_def ts split: option.splits if_splits)
  qed (simp add: w)
qed

lemma ids_ok_click: "ids_ok w \<Longrightarrow> ids_ok (rowClick it w)"
  by (erule ids_ok_frame) (simp_all add: rowClick_def Let_def)

lemma ids_ok_edits: "ids_ok w \<Longrightarrow> (\<And>t. tree_ids (f t) = tree_ids t) \<Longrightarrow> ids_ok (edit p f w)"
  unfolding edit_def by (rule at_item_ids) (auto intro: ids_ok_edit)

lemma ids_ok_number:
  "ids_ok w \<Longrightarrow> (\<And>n t. tree_ids (f n t) = tree_ids t) \<Longrightarrow> ids_ok (edit_number p v f w)"
  by (auto simp: edit_number_def split: option.split intro: ids_ok_edits)

lemma ids_ok_dot: "ids_ok w \<Longrightarrow> pw_project w = Some (n, ts) \<Longrightarrow> ids_ok (cycleState p ts w)"
  unfolding cycleState_def by (erule ids_ok_edit) (simp_all add: setters_ids)

lemma ids_ok_commit: "ids_ok w \<Longrightarrow> pw_project w = Some (n, ts) \<Longrightarrow> ids_ok (commit p v it ts w)"
  using ids_ok_edit [of w "set_name (trim v)" n ts p] by (simp add: commit_def Let_def setters_ids)

lemma ids_ok_step: "ids_ok w \<Longrightarrow> ids_ok (user_step e w)"
  by (cases e)
    (auto intro!: at_item_ids ids_ok_edits ids_ok_number intro: ids_ok_addTop ids_ok_add ids_ok_delete ids_ok_click
      ids_ok_dot ids_ok_commit simp: setters_ids)

interpretation tracker_events: event_invariant user_step "\<lambda>_ _. True" ids_ok ids_ok
  by unfold_locales (simp_all add: ids_ok_step)



section \<open>What is shown is the tree\<close>

lemma countLeaf_keys: "map fst (countLeaf it counts) = map fst counts"
proof (induction it arbitrary: counts rule: item.induct)
  case (Item i n st b u a d cs)
  have many: "map fst (fold countLeaf ts counts) = map fst counts" if "set ts \<subseteq> set cs" for ts counts
    using that Item.IH by (induction ts arbitrary: counts) auto
  show ?case
    using many [of cs counts]
    by (auto simp: update_keys dest!: map_of_SomeD split: option.split) (metis fst_conv image_eqI)
qed

lemma forest_keys: "map fst (fold countLeaf ts counts) = map fst counts"
  by (induction ts arbitrary: counts) (simp_all add: countLeaf_keys)

lemma countLeaf_counts:
  "map_get (countLeaf it counts) s =
     map_option (\<lambda>c. c + length (filter (\<lambda>l. it_state l = s) (allLeaves it))) (map_get counts s)"
proof (induction it arbitrary: counts rule: item.induct)
  case (Item i n st b u a d cs)
  have many: "map_get (fold countLeaf ts counts) s =
      map_option (\<lambda>c. c + length (filter (\<lambda>l. it_state l = s) (concat (map allLeaves ts)))) (map_get counts s)"
    if "set ts \<subseteq> set cs" for ts counts
    using that Item.IH by (induction ts arbitrary: counts) (auto simp: option.map_comp option.map_ident comp_def ac_simps)
  show ?case
  proof (cases "cs = []")
    case True
    then show ?thesis by (auto split: option.split)
  next
    case False
    then show ?thesis using many [of cs counts] by simp
  qed
qed

lemma counts_forest:
  "map_get (fold countLeaf ts counts) s =
     map_option (\<lambda>c. c + length (filter (\<lambda>l. it_state l = s) (concat (map allLeaves ts)))) (map_get counts s)"
  by (induction ts arbitrary: counts) (simp_all add: countLeaf_counts option.map_comp option.map_ident comp_def ac_simps)

lemma rows_all: "map rw_id (renderItem (w\<lparr>pw_collapsed := []\<rparr>) k it) = tree_ids it"
proof (induction it arbitrary: k rule: item.induct)
  case (Item i n s b u a d cs)
  have "map rw_id (concat (map (renderItem (w\<lparr>pw_collapsed := []\<rparr>) j) ts)) = forest_ids ts" if "set ts \<subseteq> set cs" for ts j
    using that Item.IH by (induction ts) auto
  from this [of cs "Suc k"] show ?case by (simp add: tree_ids_forest row_of_def Let_def)
qed

lemma rows_some: "subseq (map rw_id (renderItem w k it)) (tree_ids it)"
proof (induction it arbitrary: k rule: item.induct)
  case (Item i n s b u a d cs)
  have "subseq (map rw_id (concat (map (renderItem w j) ts))) (forest_ids ts)" if "set ts \<subseteq> set cs" for ts j
    using that Item.IH by (induction ts) (auto intro: list_emb_append_mono)
  from this [of cs "Suc k"] show ?case by (simp add: tree_ids_forest row_of_def Let_def)
qed

text \<open>
  The tracker shows, for each of the four states, how many leaves of the project are in it when there are any,
  and the items in the order of the tree: all of them when nothing is collapsed, and some of them otherwise.
\<close>

theorem render_shows:
  "pills ts = map (\<lambda>s. (s, length (filter (\<lambda>l. it_state l = s) (concat (map allLeaves ts)))))
     (filter (\<lambda>s. \<exists>t \<in> set ts. \<exists>l \<in> set (allLeaves t). it_state l = s)
       [''ready'', ''in-progress'', ''post-production'', ''can-ship''])
   \<and> map rw_id (concat (map (renderItem (w\<lparr>pw_collapsed := []\<rparr>) 0) ts)) = forest_ids ts
   \<and> subseq (map rw_id (concat (map (renderItem w 0) ts))) (forest_ids ts)"
proof -
  define n where "n s = length (filter (\<lambda>l. it_state l = s) (concat (map allLeaves ts)))" for s
  define start :: "(string \<times> nat) list" where
    "start = [(''ready'', 0), (''in-progress'', 0), (''post-production'', 0), (''can-ship'', 0)]"
  have keys: "map fst (fold countLeaf ts start) = map fst start" by (rule forest_keys)
  have get: "map_get (fold countLeaf ts start) s = map_option (\<lambda>c. c + n s) (map_get start s)" for s
    unfolding n_def by (rule counts_forest)
  have eq: "m = map (\<lambda>k. (k, f k)) ks" if "distinct ks" "map fst m = ks" "\<And>k. k \<in> set ks \<Longrightarrow> map_get m k = Some (f k)"
    for m :: "(string \<times> nat) list" and f ks
  proof -
    have "(k, v) \<in> set m \<Longrightarrow> v = f k" for k v
      using that by (metis fst_conv image_eqI map_of_eq_Some_iff option.inject set_map)
    then have "map (\<lambda>k. (k, f k)) (map fst m) = m" by (auto intro!: map_idI)
    then show ?thesis using that(2) by simp
  qed
  have "fold countLeaf ts start = map (\<lambda>s. (s, n s)) (map fst start)"
  proof (rule eq)
    fix k
    assume "k \<in> set (map fst start)"
    then have "map_get start k = Some 0" by (auto simp: start_def)
    then show "map_get (fold countLeaf ts start) k = Some (n k)" by (simp add: get)
  qed (simp_all add: keys, simp add: start_def)
  moreover have "n s \<noteq> 0 \<longleftrightarrow> (\<exists>t \<in> set ts. \<exists>l \<in> set (allLeaves t). it_state l = s)" for s
    by (auto simp: n_def filter_empty_conv)
  ultimately have "pills ts = map (\<lambda>s. (s, n s))
     (filter (\<lambda>s. \<exists>t \<in> set ts. \<exists>l \<in> set (allLeaves t). it_state l = s)
       [''ready'', ''in-progress'', ''post-production'', ''can-ship''])"
    unfolding pills_def start_def [symmetric] by (simp add: filter_map comp_def) (simp add: start_def)
  moreover have "map rw_id (concat (map (renderItem (w\<lparr>pw_collapsed := []\<rparr>) 0) ts)) = forest_ids ts"
    by (induction ts) (simp_all add: rows_all)
  moreover have "subseq (map rw_id (concat (map (renderItem w 0) ts))) (forest_ids ts)"
    by (induction ts) (auto intro: list_emb_append_mono rows_some)
  ultimately show ?thesis by (simp only: n_def)
qed

section \<open>The document in the volume\<close>

lemmas pw_simps = wprog_simps setStatus_def

text \<open>
  C38. From a sound client, the identifier that saving a project links into place names metadata of bytes that,
  read back as a project document, give the project that was saved.
\<close>

theorem saved_project_reads_back:
  assumes "list_all item_ok items" and "1 \<le> k"
  shows "keeps (\<lambda>(s, w). sound P s) (save_upload (volume_api P url rc rnd) key (name, items))
     (\<lambda>m. \<exists>ts b. names P m (meta_json ''blob'' (int (length b)) (computeCID P b) 420 ts)
        \<and> fst (load_project (text_decode b) k) = Inr (name, items))"
proof -
  let ?text = "json_stringify2 (project_json (name, items))"
  have "fst (load_project (text_decode (text_encode ?text)) k) = Inr (name, items)"
    using document_round_trip [OF assms] by simp
  then show ?thesis
    unfolding save_upload_def
    by (intro keeps_on_api keeps_weaken [OF shell.store_keeps]) blast
qed

theorem saved_project_reads_back_witness:
  "keeps (\<lambda>(s, w). sound offline s)
     (save_upload (volume_api offline ''s'' (\<lambda>_. Slow_first) (\<lambda>_. ''r'')) ''k'' (''p'', [leaf ''7'' ''ready'']))
     (\<lambda>m. \<exists>ts b. names offline m (meta_json ''blob'' (int (length b)) (computeCID offline b) 420 ts)
        \<and> fst (load_project (text_decode b) 1) = Inr (''p'', [leaf ''7'' ''ready'']))"
  by (rule saved_project_reads_back) (simp_all add: leaf_def)

text \<open>
  Opening a project whose document cannot be looked up, whatever the reason (no such file, but also a
  refused or failed request), links an empty project over \<open>project.json\<close> without asking for its old state, when
  the following requests succeed.
\<close>

theorem failed_open_overwrites:
  assumes "path \<noteq> []" and "va_lookup va key (normPath path @ ''/project.json'') s = Some (Inl e, s1)"
    and "on_assertion (abind (va_mkdir va key []) (\<lambda>metaCID.
             abind (va_multiLink va key [\<lparr>la_path = normPath path, la_addr = Some metaCID, la_prev = Some [], la_assert = Some 1\<rparr>])
               (\<lambda>_. aret ()))) (aret ()) s1 = Some (Inr (), s2)"
    and "store_file va key (text_encode (json_stringify2 (project_json (project_name path, [])))) s2 = Some (Inr m, s3)"
    and "va_multiLink va key [\<lparr>la_path = normPath path @ ''/project.json'', la_addr = Some m, la_prev = None,
           la_assert = None\<rparr>] s3 = Some (Inr v, s4)"
  shows "\<exists>w'. openProject va (Some key) path (s, w) = Some (Inr (), (s4, w'))
     \<and> pw_project w' = Some (project_name path, []) \<and> pw_status w' = (''saved'', ''saved'')"
  using assms
  by (simp add: openProject_def load_def projectFilePath_def ensureDir_def save_def save_upload_def save_link_def
      va_link_def link_of_def set_project_def pw_simps)

text \<open>A volume that refuses lookups with \<open>e\<close> and records what is linked.\<close>

definition recorder :: "err \<Rightarrow> link_arg list vapi" where
  "recorder e =
     \<lparr>va_volume = (\<lambda>n. aret n), va_lookup = (\<lambda>k p. athrow e), va_fileForCID = (\<lambda>k c. athrow e), va_get = (\<lambda>k c. athrow e),
      va_json = (\<lambda>k c. athrow e), va_children = (\<lambda>k f. athrow e), va_put = (\<lambda>k b. aret ''c''),
      va_mkfile = (\<lambda>k c n. aret ''m''), va_mkdir = (\<lambda>k es. aret ''d''),
      va_multiLink = (\<lambda>k rs s. Some (Inr JNull, s @ rs)), va_whoami = athrow e, va_login = (\<lambda>u p g q. athrow e),
      va_logout = (\<lambda>u. athrow e), va_now = aret 0, va_random = aret []\<rparr>"

theorem failed_open_overwrites_witness:
  "\<exists>links w'. openProject (recorder (Err_Type ''Failed to fetch'')) (Some ''sys'') ''a/b'' ([], new_widget [] 1)
       = Some (Inr (), (links, w')) \<and> map la_path links = [''a/b'', ''a/b/project.json'']"
proof -
  let ?va = "recorder (Err_Type ''Failed to fetch'')"
  let ?d = "\<lparr>la_path = ''a/b'', la_addr = Some ''d'', la_prev = Some [], la_assert = Some 1\<rparr>"
  let ?m = "\<lparr>la_path = ''a/b/project.json'', la_addr = Some ''m'', la_prev = None, la_assert = None\<rparr>"
  have n: "normPath ''a/b'' = ''a/b''" by code_simp
  have 1: "va_lookup ?va ''sys'' (normPath ''a/b'' @ ''/project.json'') [] = Some (Inl (Err_Type ''Failed to fetch''), [])"
    by (simp add: recorder_def aprog_simps)
  have 2: "on_assertion (abind (va_mkdir ?va ''sys'' []) (\<lambda>metaCID.
             abind (va_multiLink ?va ''sys'' [\<lparr>la_path = normPath ''a/b'', la_addr = Some metaCID, la_prev = Some [], la_assert = Some 1\<rparr>])
               (\<lambda>_. aret ()))) (aret ()) [] = Some (Inr (), [?d])"
    by (simp add: recorder_def on_assertion_def n pw_simps)
  have 3: "store_file ?va ''sys'' bytes [?d] = Some (Inr ''m'', [?d])" for bytes
    by (simp add: store_file_def recorder_def aprog_simps)
  have 4: "va_multiLink ?va ''sys'' [\<lparr>la_path = normPath ''a/b'' @ ''/project.json'', la_addr = Some ''m'', la_prev = None,
           la_assert = None\<rparr>] [?d] = Some (Inr JNull, [?d, ?m])"
    by (simp add: recorder_def n)
  show ?thesis using failed_open_overwrites [OF _ 1 2 3 4, of "new_widget [] 1"] by auto
qed

text \<open>
  A save that has stored the document of one project links it to wherever the widget points by then: a project
  opened meanwhile gets the document of the other one.
\<close>

lemma save_link_current_path:
  "save_link va key metaCID (s, w\<lparr>pw_path := other\<rparr>) =
     on_api (va_link va key metaCID (normPath other @ ''/project.json'')) (s, w\<lparr>pw_path := other\<rparr>)"
  by (simp add: save_link_def with_widget_run projectFilePath_def)

end
