(* ===== verification/Test_Runner.thy ===== *)
theory Test_Runner
  imports Widgets
begin

text \<open>
  The command test (test/main.js): it finds the suites of the library, runs their tests one after the other, each in a
  directory of its own, and reports. The suites themselves are what the dynamic import gives (the argument \<open>imp\<close>):
  a failure, a module without an array of tests, or its tests. The report is the list of lines pushed
  to the stream.
\<close>

section \<open>Options\<close>

record test_opts =
  to_only :: "string list option"
  to_skip :: "string list"
  to_verbose :: bool
  to_failFast :: bool

text \<open>Strings name suites; an object at the end is the options.\<close>

definition test_args :: "gval list \<Rightarrow> err + test_opts" where
  "test_args args =
     (if list_ex (\<lambda>a. \<not> is_str a \<and> \<not> isPlainObject a) args
      then Inl (Err_Error ''test: arguments must be test names (strings) or an options object'')
      else
        (let (rest, opts) = pop_opts args;
             ns = map gval_string (filter is_str rest);
             flag = (\<lambda>k. opt_flag opts k = Inr True)
         in Inr \<lparr>to_only = (if ns \<noteq> [] then Some ns else None),
                  to_skip = (if ns = [] \<and> \<not> flag ''a'' then [''login'', ''logout'', ''whoami''] else []),
                  to_verbose = flag ''v'', to_failFast = flag ''ff''\<rparr>))"

section \<open>Finding the suites\<close>

type_synonym 's test = "string \<times> (string \<Rightarrow> ('s, unit) aprog)"

definition selected :: "test_opts \<Rightarrow> string \<Rightarrow> bool" where
  "selected opts name \<longleftrightarrow>
     (case to_only opts of None \<Rightarrow> True | Some ns \<Rightarrow> name \<in> set ns) \<and> name \<notin> set (to_skip opts)"

fun find_suites :: "(gfile \<Rightarrow> ('s, (string \<times> gfile) list) aprog) \<Rightarrow> test_opts \<Rightarrow> (string \<times> gfile) list \<Rightarrow> ('s, string list) aprog" where
  "find_suites kids_of opts [] = aret []"
| "find_suites kids_of opts ((name, f) # kids) =
     (if \<not> isDir f then find_suites kids_of opts kids
      else
        abind (kids_of f) (\<lambda>toolChildren.
        abind (find_suites kids_of opts kids) (\<lambda>ns.
          aret (if ''test.js'' \<in> fst ` set toolChildren \<and> selected opts name then name # ns else ns))))"

section \<open>Running them\<close>

definition push :: "string \<Rightarrow> ('s, string list, unit) wprog" where
  "push line = on_widget (\<lambda>ls. ls @ [line])"

definition newline :: string where "newline = [CHR 0x0A]"
definition tick_mark :: string where "tick_mark = [CHR 0xE2, CHR 0x9C, CHR 0x93]"
definition cross_mark :: string where "cross_mark = [CHR 0xE2, CHR 0x9C, CHR 0x97]"
definition long_dash :: string where "long_dash = [CHR 0xE2, CHR 0x80, CHR 0x94]"

definition nl_indent :: "string \<Rightarrow> string" where
  "nl_indent stack = js_join newline (map (\<lambda>l. ''    '' @ l) (js_split (CHR 0x0A) stack))"

text \<open>The scratch directory of a test: a random name below \<open>/tmp/gimbal-test\<close>, made with its parents.\<close>

definition make_scratch :: "'s vapi \<Rightarrow> ('s, string) aprog" where
  "make_scratch va =
     abind (va_random va) (\<lambda>randSuffix.
       let scratch = ''/tmp/gimbal-test/'' @ randSuffix
       in abind (mkdir_invoke va (V_path scratch) [V_js (JObj [(''p'', JNum 1)])]) (\<lambda>_. aret scratch))"

text \<open>
  The tests of a suite, with the counts so far and whether the run is to stop. A failure to make the directory is not
  a failure of the test but of the run.
\<close>

fun run_tests :: "'s vapi \<Rightarrow> (err \<Rightarrow> string) \<Rightarrow> test_opts \<Rightarrow> 's test list \<Rightarrow> nat \<Rightarrow> nat \<Rightarrow> ('s, string list, nat \<times> nat \<times> bool) wprog" where
  "run_tests va stack opts [] passed failed = aret (passed, failed, False)"
| "run_tests va stack opts ((label, fn) # tests) passed failed =
     abind (on_api (make_scratch va)) (\<lambda>scratch.
     abind (atry (on_api (fn scratch))) (\<lambda>r.
       case r of
         Inr _ \<Rightarrow>
           abind (push (''  '' @ tick_mark @ '' '' @ label)) (\<lambda>_. run_tests va stack opts tests (passed + 1) failed)
       | Inl e \<Rightarrow>
           abind (push (''  '' @ cross_mark @ '' '' @ label @ '': '' @ err_message e)) (\<lambda>_.
           abind (if to_verbose opts then push (nl_indent (stack e)) else aret ()) (\<lambda>_.
             if to_failFast opts then aret (passed, failed + 1, True)
             else run_tests va stack opts tests passed (failed + 1)))))"

definition count_line :: "nat \<Rightarrow> nat \<Rightarrow> string" where
  "count_line passed failed = nat_str passed @ '' passed, '' @ nat_str failed @ '' failed''"

fun run_suites :: "'s vapi \<Rightarrow> (string \<Rightarrow> err + 's test list option) \<Rightarrow> (err \<Rightarrow> string) \<Rightarrow> test_opts \<Rightarrow> string list
    \<Rightarrow> nat \<Rightarrow> nat \<Rightarrow> ('s, string list, nat \<times> nat) wprog" where
  "run_suites va imp stack opts [] P F = aret (P, F)"
| "run_suites va imp stack opts (name # todo) P F =
     abind (push (newline @ ''['' @ name @ '']'')) (\<lambda>_.
     case imp name of
       Inl e \<Rightarrow>
         abind (push (''  IMPORT ERROR: '' @ err_message e)) (\<lambda>_.
         abind (if to_verbose opts then push (stack e) else aret ()) (\<lambda>_.
           if to_failFast opts then aret (P, F + 1) else run_suites va imp stack opts todo P (F + 1)))
     | Inr None \<Rightarrow> abind (push (''  SKIP '' @ long_dash @ '' no exported tests array'')) (\<lambda>_. run_suites va imp stack opts todo P F)
     | Inr (Some tests) \<Rightarrow>
         abind (run_tests va stack opts tests 0 0) (\<lambda>(passed, failed, bail).
         abind (push (''  '' @ count_line passed failed)) (\<lambda>_.
           if bail then abind (push (newline @ ''(bailed after first failure)'')) (\<lambda>_. aret (P + passed, F + failed))
           else run_suites va imp stack opts todo (P + passed) (F + failed))))"

definition report :: "nat \<times> nat \<Rightarrow> ('s, string list, unit) wprog" where
  "report = (\<lambda>(P, F).
     abind (push (newline @ ''=== '' @ count_line P F @ '' ==='')) (\<lambda>_.
       if F > 0 then push ''SOME TESTS FAILED'' else aret ()))"

text \<open>
  The executor: \<open>here\<close> is what \<open>fromModule\<close> gives for the module. The first argument of
  \<open>run_all\<close> is the path of the library.
\<close>

definition run_all :: "'s vapi \<Rightarrow> (string \<Rightarrow> err + 's test list option) \<Rightarrow> (err \<Rightarrow> string) \<Rightarrow> test_opts \<Rightarrow> string \<Rightarrow> string
    \<Rightarrow> ('s, string list, unit) wprog" where
  "run_all va imp stack opts key basePath =
     abind (on_api (va_lookup va key basePath)) (\<lambda>libDir.
     if \<not> isDir libDir then push ''test: cannot find lib directory''
     else
       abind (on_api (va_children va key libDir)) (\<lambda>children.
       abind (on_api (find_suites (va_children va key) opts children)) (\<lambda>suites.
         if suites = [] then
           push (if to_only opts \<noteq> None then ''test: no matching test suites'' else ''test: no test.js files found in lib/*/'')
         else abind (run_suites va imp stack opts suites 0 0) report)))"

definition test_run :: "'s vapi \<Rightarrow> (string \<Rightarrow> err + 's test list option) \<Rightarrow> (err \<Rightarrow> string) \<Rightarrow> string \<times> string \<Rightarrow> test_opts
    \<Rightarrow> ('s, string list, unit) wprog" where
  "test_run va imp stack here opts =
     acatch
       (abind (on_api (va_volume va (fst here))) (\<lambda>key.
        let parts = js_split slash (snd here) in
        if length parts < 3 \<or> parts ! (length parts - 2) \<noteq> ''test''
        then push ''test: must be located in a test/ directory''
        else run_all va imp stack opts key (js_join ''/'' (take (length parts - 2) parts))))
       (\<lambda>e. push (''INTERNAL ERROR: '' @ err_message e))"

definition test_invoke :: "'s vapi \<Rightarrow> (string \<Rightarrow> err + 's test list option) \<Rightarrow> (err \<Rightarrow> string) \<Rightarrow> string \<times> string
    \<Rightarrow> gval \<Rightarrow> gval list \<Rightarrow> ('s, string list, unit) wprog" where
  "test_invoke va imp stack here prev args =
     (if prev \<noteq> V_client then athrow (Err_Error ''test: must be called on gimbal'')
      else abind (alift (test_args args)) (test_run va imp stack here))"

section \<open>Every test counts once\<close>

text \<open>How many tests the suites have, and how many of the modules cannot be imported.\<close>

definition tests_of :: "(string \<Rightarrow> err + 's test list option) \<Rightarrow> string \<Rightarrow> nat" where
  "tests_of imp name = (case imp name of Inl e \<Rightarrow> 1 | Inr None \<Rightarrow> 0 | Inr (Some ts) \<Rightarrow> length ts)"

lemma push_run [simp]: "push line (s, ls) = Some (Inr (), (s, ls @ [line]))"
  by (simp add: push_def on_widget_def)

text \<open>The steps of a run of a test that goes on.\<close>

lemma run_tests_step:
  assumes "run_tests va stack opts ((label, fn) # tests) p f sl = Some (Inr x, sl2)"
  obtains s3 where "run_tests va stack opts tests (p + 1) f s3 = Some (Inr x, sl2)"
  | s3 where "\<not> to_failFast opts" "run_tests va stack opts tests p (f + 1) s3 = Some (Inr x, sl2)"
  | "to_failFast opts" "x = (p, f + 1, True)"
proof -
  obtain scratch s1 where 1: "on_api (make_scratch va) sl = Some (Inr scratch, s1)"
    using assms by (auto simp: abind_def split: option.splits sum.splits prod.splits)
  then obtain r s2 where 2: "on_api (fn scratch) s1 = Some (r, s2)"
    using assms by (auto simp: abind_def atry_def split: option.splits sum.splits prod.splits)
  show thesis
  proof (cases r)
    case (Inr u)
    then show thesis using assms that(1) by (cases s2) (auto simp: abind_def atry_def 1 2)
  next
    case (Inl e)
    then show thesis using assms that(2,3)
      by (cases s2) (auto simp: abind_def atry_def 1 2 aret_def split: if_splits)
  qed
qed

lemma run_tests_count:
  assumes "run_tests va stack opts tests p f sl = Some (Inr (p', f', bail), sl2)"
  shows "if to_failFast opts then f' \<le> f + (if bail then 1 else 0)
    else \<not> bail \<and> p' + f' = p + f + length tests"
  using assms
proof (induction tests arbitrary: p f sl)
  case Nil
  then show ?case by (simp add: aret_def)
next
  case (Cons t tests)
  obtain label fn where t: "t = (label, fn)" by (cases t)
  from Cons.prems [unfolded t] show ?case
    by (cases rule: run_tests_step) (auto dest: Cons.IH split: if_splits)
qed

lemma run_suites_count:
  assumes "run_suites va imp stack opts suites P F sl = Some (Inr (P', F'), sl2)"
  shows "if to_failFast opts then F' \<le> F + 1 else P' + F' = P + F + sum_list (map (tests_of imp) suites)"
  using assms
proof (induction suites arbitrary: P F sl)
  case Nil
  then show ?case by (simp add: aret_def)
next
  case (Cons name suites)
  show ?case
  proof (cases "imp name")
    case (Inl e)
    then have "if to_failFast opts then P' = P \<and> F' = F + 1
        else \<exists>s3. run_suites va imp stack opts suites P (F + 1) s3 = Some (Inr (P', F'), sl2)"
      using Cons.prems by (cases sl) (auto simp: abind_def aret_def split: if_splits)
    moreover have "tests_of imp name = 1" using Inl by (simp add: tests_of_def)
    ultimately show ?thesis using Cons.IH by (fastforce split: if_splits)
  next
    case (Inr found)
    show ?thesis
    proof (cases found)
      case None
      then obtain s3 where "run_suites va imp stack opts suites P F s3 = Some (Inr (P', F'), sl2)"
        using Cons.prems Inr by (cases sl) (auto simp: abind_def)
      moreover have "tests_of imp name = 0" using Inr None by (simp add: tests_of_def)
      ultimately show ?thesis using Cons.IH by (fastforce split: if_splits)
    next
      case (Some tests)
      obtain s0 ls where sl: "sl = (s0, ls)" by (cases sl)
      let ?s1 = "(s0, ls @ [newline @ ''['' @ name @ '']''])"
      obtain p f bail s2 where r: "run_tests va stack opts tests 0 0 ?s1 = Some (Inr (p, f, bail), s2)"
        using Cons.prems Inr Some by (auto simp: sl abind_def split: option.splits sum.splits prod.splits)
      have "if bail then P' = P + p \<and> F' = F + f
          else \<exists>s3. run_suites va imp stack opts suites (P + p) (F + f) s3 = Some (Inr (P', F'), sl2)"
        using Cons.prems Inr Some by (cases s2) (auto simp: sl abind_def r [simplified] aret_def split: if_splits)
      moreover have "tests_of imp name = length tests" using Inr Some by (simp add: tests_of_def)
      ultimately show ?thesis using run_tests_count [OF r] Cons.IH by (fastforce split: if_splits)
    qed
  qed
qed

text \<open>
  A run that goes through counts every test of every suite once, as passed or failed, and a module that cannot be
  imported as one failure, whatever the tests do to the state; told to fail fast it counts at
  most one failure. The last lines report the counts, and say that tests failed exactly when some did.
\<close>

theorem every_test_counted:
  assumes "abind (run_suites va imp stack opts suites 0 0) report sl = Some (Inr (), (t, lines))"
  shows "\<exists>P F before. (if to_failFast opts then F \<le> 1 else P + F = sum_list (map (tests_of imp) suites))
    \<and> lines = before @ [newline @ ''=== '' @ count_line P F @ '' ===''] @ (if F > 0 then [''SOME TESTS FAILED''] else [])"
proof -
  obtain P F s ls where r: "run_suites va imp stack opts suites 0 0 sl = Some (Inr (P, F), (s, ls))"
    using assms by (auto simp: abind_def split: option.splits sum.splits prod.splits)
  have "lines = ls @ [newline @ ''=== '' @ count_line P F @ '' ===''] @ (if F > 0 then [''SOME TESTS FAILED''] else [])"
    using assms by (auto simp: abind_def r report_def aret_def split: if_splits)
  moreover have "if to_failFast opts then F \<le> 1 else P + F = sum_list (map (tests_of imp) suites)"
    using run_suites_count [OF r] by (auto split: if_splits)
  ultimately show ?thesis by blast
qed

text \<open>The suites that run: the directories with a file \<open>test.js\<close> that are selected, in the order of the listing.\<close>

lemma find_suites_gives:
  "find_suites kids_of opts kids s = Some (Inr ns, t) \<Longrightarrow> subseq ns (map fst (filter (\<lambda>(n, f). isDir f \<and> selected opts n) kids))"
proof (induction kids arbitrary: ns s)
  case Nil
  then show ?case by (simp add: aret_def)
next
  case (Cons k kids)
  obtain n f where k: "k = (n, f)" by (cases k)
  show ?case
  proof (cases "isDir f")
    case False
    then show ?thesis using Cons by (simp add: k)
  next
    case True
    then obtain tc :: "(string \<times> gfile) list" and ns' s1 where "find_suites kids_of opts kids s1 = Some (Inr ns', t)"
      "ns = (if ''test.js'' \<in> fst ` set tc \<and> selected opts n then n # ns' else ns')"
      using Cons.prems by (auto simp: k abind_def aret_def split: option.splits sum.splits prod.splits)
    then show ?thesis using Cons.IH True by (auto simp: k intro: list_emb_Cons)
  qed
qed

definition two_tests :: "string \<Rightarrow> err + unit test list option" where
  "two_tests name = Inr (Some [(''good'', \<lambda>_. aret ()), (''bad'', \<lambda>_. athrow (Err_Error ''no''))])"

theorem every_test_counted_witness:
  "\<exists>before. [newline @ ''[t]'', ''  '' @ tick_mark @ '' good'', ''  '' @ cross_mark @ '' bad: no'', ''  1 passed, 1 failed'',
      newline @ ''=== 1 passed, 1 failed ==='', ''SOME TESTS FAILED'']
    = before @ [newline @ ''=== '' @ count_line 1 1 @ '' ===''] @ [''SOME TESTS FAILED'']"
proof -
  let ?o = "\<lparr>to_only = None, to_skip = [], to_verbose = False, to_failFast = False\<rparr>"
  let ?lines = "[newline @ ''[t]'', ''  '' @ tick_mark @ '' good'', ''  '' @ cross_mark @ '' bad: no'', ''  1 passed, 1 failed'',
      newline @ ''=== 1 passed, 1 failed ==='', ''SOME TESTS FAILED'']"
  have run: "abind (run_suites still_api two_tests err_message ?o [''t''] 0 0) report ((), []) = Some (Inr (), ((), ?lines))"
    by code_simp
  obtain P F before where pf: "if to_failFast ?o then F \<le> 1 else P + F = sum_list (map (tests_of two_tests) [''t''])"
    "?lines = before @ [newline @ ''=== '' @ count_line P F @ '' ===''] @ (if F > 0 then [''SOME TESTS FAILED''] else [])"
    using every_test_counted [OF run] by blast
  have "P + F = 2" using pf(1) by (simp add: tests_of_def two_tests_def)
  then consider "P = 0" "F = 2" | "P = 1" "F = 1" | "P = 2" "F = 0" by linarith
  then show ?thesis
  proof cases
    case 1
    have "count_line 0 2 \<noteq> ''1 passed, 1 failed''" by code_simp
    then show ?thesis using pf(2) 1 by (auto simp: append_eq_append_conv2)
  next
    case 2
    then show ?thesis using pf(2) by auto
  next
    case 3
    then show ?thesis using pf(2) by (auto simp: append_eq_append_conv2)
  qed
qed

end
