(* ===== verification/Desktop.thy ===== *)
theory Desktop
  imports Inbox Files_Widget Editor Compose Markdown Project Test_Runner
begin

text \<open>
  The widgets and the shell together, on the volumes of one client. Every handler of a widget and every command reaches
  the volumes through the operations of \<open>vapi\<close> only, so that the contract \<open>content_api\<close> of Tools_Volume is
  all they need; here their programs are shown to keep its invariant, also when, at each await, any
  other program that keeps it runs in between.
\<close>

section \<open>Other handlers in between\<close>

text \<open>
  While a handler awaits an operation, before it starts and after it has settled, other handlers may run: \<open>env\<close> is
  what they do, depending on the state as it is then. What they throw ends in handlers of their own.
\<close>

definition awaited :: "('s, unit) aprog \<Rightarrow> ('s, 'a) aprog \<Rightarrow> ('s, 'a) aprog" where
  "awaited env m =
     abind (atry env) (\<lambda>_. abind (atry m) (\<lambda>r. abind (atry env) (\<lambda>_. alift r)))"

definition busy_api :: "('s, unit) aprog \<Rightarrow> 's vapi \<Rightarrow> 's vapi" where
  "busy_api env va =
     \<lparr>va_volume = \<lambda>v. awaited env (va_volume va v), va_lookup = \<lambda>key p. awaited env (va_lookup va key p),
      va_fileForCID = \<lambda>key c. awaited env (va_fileForCID va key c), va_get = \<lambda>key c. awaited env (va_get va key c),
      va_json = \<lambda>key c. awaited env (va_json va key c), va_children = \<lambda>key f. awaited env (va_children va key f),
      va_put = \<lambda>key b. awaited env (va_put va key b), va_mkfile = \<lambda>key c n. awaited env (va_mkfile va key c n),
      va_mkdir = \<lambda>key es. awaited env (va_mkdir va key es), va_multiLink = \<lambda>key ls. awaited env (va_multiLink va key ls),
      va_whoami = awaited env (va_whoami va), va_login = \<lambda>u p a b. awaited env (va_login va u p a b),
      va_logout = \<lambda>u. awaited env (va_logout va u), va_now = awaited env (va_now va), va_random = awaited env (va_random va)\<rparr>"

lemma awaited_keeps:
  assumes "keeps I env any" and "keeps I m Q"
  shows "keeps I (awaited env m) Q"
  unfolding awaited_def
  by (rule keeps_bind [OF keeps_atry_any [OF assms(1)]], rule keeps_bind [OF keeps_atry [OF assms(2)]],
      rule keeps_bind [OF keeps_atry_any [OF assms(1)]]) (auto intro: keeps_alift)

lemma awaited_quiet: "awaited (aret ()) m = m"
proof
  fix s
  show "awaited (aret ()) m s = m s"
    by (auto simp: awaited_def abind_def atry_def aret_def alift_def split: option.split sum.split)
qed

lemma busy_quiet: "busy_api (aret ()) va = va"
  by (simp add: busy_api_def awaited_quiet)

text \<open>Whatever keeps the invariant may run in between: the operations fulfil the contract as before.\<close>

context content_api
begin

lemma busy_contract:
  assumes "keeps I env any"
  shows "content_api (busy_api env va) I cid_of named"
  by unfold_locales
    (auto simp: busy_api_def intro!: awaited_keeps [OF assms] volume_keeps lookup_keeps file_keeps get_keeps json_keeps
      children_keeps put_keeps mkfile_keeps mkdir_keeps multiLink_keeps session_keeps)

end

section \<open>Handlers of the widgets\<close>

text \<open>The invariant of the client, whatever the widget holds.\<close>

definition beside :: "('s \<Rightarrow> bool) \<Rightarrow> 's \<times> 'w \<Rightarrow> bool" where
  "beside I = (\<lambda>(s, w). I s)"

lemma keeps_on_api_any: "keeps I m any \<Longrightarrow> keeps (beside I) (on_api m) any"
  unfolding beside_def by (rule keeps_on_api)

lemma keeps_on_widget: "Q () \<Longrightarrow> keeps (beside I) (on_widget f) Q"
  by (auto simp: keeps_def on_widget_def beside_def)

lemma keeps_with_widget: "(\<And>w. keeps (beside I) (f w) Q) \<Longrightarrow> keeps (beside I) (with_widget f) Q"
  by (auto simp: keeps_def with_widget_def beside_def)

lemma keeps_change_widget: "keeps (beside I) (change_widget f) any"
  by (auto simp: keeps_def change_widget_def beside_def split: prod.splits)

text \<open>A handler of one widget of several.\<close>

definition on_part :: "('w \<Rightarrow> 'p) \<Rightarrow> ('p \<Rightarrow> 'w \<Rightarrow> 'w) \<Rightarrow> ('s, 'p, 'a) wprog \<Rightarrow> ('s, 'w, 'a) wprog" where
  "on_part part back m = (\<lambda>(s, w). map_option (\<lambda>(r, (s', p)). (r, (s', back p w))) (m (s, part w)))"

lemma keeps_on_part: "keeps (beside I) m any \<Longrightarrow> keeps (beside I) (on_part part back m) any"
  unfolding keeps_def on_part_def beside_def by fastforce

lemmas widget_keeps = keeps_bind_any keeps_catch keeps_atry_any keeps_athrow keeps_aret keeps_alift keeps_if
  keeps_on_api_any keeps_on_widget keeps_with_widget keeps_change_widget

context content_api
begin

lemma loadRoot_keeps: "keeps (beside I) (loadRoot va le key) any"
  unfolding loadRoot_def by (auto intro!: widget_keeps op_keeps)

lemma toggle_node_keeps: "keeps (beside I) (toggle_node va le key p) any"
  unfolding toggle_node_def Let_def case_prod_beta
  by (auto intro!: widget_keeps op_keeps split: option.split bool.split)

lemma collect_new_keeps:
  assumes "\<And>f. keeps I (kids_of f) any" and "\<And>x n rec q pp new. (x, (n, rec)) \<in> set olds \<Longrightarrow> keeps I (rec q pp new) any"
  shows "keeps I (collect_new kids_of olds p pp new) any"
proof (induction new)
  case (Cons k new)
  obtain name g where k: "k = (name, g)" by (cases k)
  show ?case
  proof (cases "map_get olds name")
    case None
    then show ?thesis using Cons by (simp add: k keeps_bind_any keeps_aret)
  next
    case (Some nr)
    obtain n rec where nr: "nr = (n, rec)" by (cases nr)
    have "(name, (n, rec)) \<in> set olds" using Some nr by (simp add: map_of_SomeD)
    then have "keeps I (rec q qq xs) any" for q qq xs by (rule assms(2))
    then show ?thesis using Some Cons nr
      by (auto simp: k intro!: keeps_bind_any keeps_aret assms(1))
  qed
qed (simp add: keeps_aret)

lemma collectChanges_keeps:
  assumes "\<And>f. keeps I (kids_of f) any"
  shows "keeps I (collectChanges kids_of n p pp new) any"
proof (induction n arbitrary: p pp new)
  case (FNode a cs d)
  show ?case
  proof (cases cs)
    case None
    then show ?thesis by (simp add: keeps_athrow)
  next
    case (Some xs)
    have "keeps I (rec q qq new) any" if "(x, (n, rec)) \<in> set (map (map_prod id (\<lambda>n. (n, collectChanges kids_of n))) xs)"
      for x n rec q qq new
      using that FNode Some by fastforce
    then have "keeps I (collect_new kids_of (map (map_prod id (\<lambda>n. (n, collectChanges kids_of n))) xs) p pp new) any"
      by (rule collect_new_keeps [OF assms])
    then show ?thesis using Some by (simp add: keeps_bind_any keeps_aret)
  qed
qed

lemma sync_root_keeps: "keeps (beside I) (sync_root va key busy f) any"
  unfolding sync_root_def by (auto intro!: widget_keeps op_keeps collectChanges_keeps split: option.split)

lemma files_keep:
  "keeps (beside I) (goToParent va le key) any" "keeps (beside I) (row_click va le key p) any"
  "keeps (beside I) (Files_Widget.refreshTick va key busy) any" "keeps (beside I) (reload va le key busy) any"
  unfolding goToParent_def row_click_def Files_Widget.refreshTick_def reload_def Let_def
  by (auto intro!: widget_keeps op_keeps loadRoot_keeps toggle_node_keeps sync_root_keeps split: option.split sum.split)

lemma load_messages_keeps: "keeps (beside I) (load_messages va le dir) any"
  unfolding load_messages_def inbox_note_def by (auto intro!: widget_keeps op_keeps split: sum.split)

lemma inbox_keeps:
  "keeps (beside I) (load_inbox va le) any" "keeps (beside I) (loadMessagePreview va key ck now i) any"
  "keeps (beside I) (Inbox.refreshTick va ck now) any" "keeps (beside I) (trash va i) any"
  unfolding load_inbox_def loadMessagePreview_def Inbox.refreshTick_def trash_def inbox_note_def Let_def
  by (auto intro!: widget_keeps op_keeps load_messages_keeps split: option.split sum.split)

lemma store_text_keeps: "keeps I (store_text va p t) any"
  unfolding store_text_def by (auto intro!: run_keeps keeps_aret)

lemma file_text_keeps: "keeps I (file_text va p) any"
  unfolding file_text_def by (auto intro!: run_keeps)

lemma editor_keeps:
  "keeps (beside I) (load_editor va cm has payload) any" "keeps (beside I) (Editor.save va during) any"
  "keeps (beside I) (saveAs va answer during) any"
  unfolding load_editor_def Editor.save_def saveAs_def
  by (auto intro!: widget_keeps store_text_keeps file_text_keeps split: option.split sum.split)

lemma compose_keeps: "keeps (beside I) (press_send va during) any"
  unfolding press_send_def by (auto intro!: widget_keeps op_keeps send_keeps split: prod.split)

lemma document_keeps: "keeps I (load_document va d payload p) any"
  unfolding load_document_def read_document_def Let_def
  by (auto intro!: run_keeps keeps_alift keeps_aret split: option.split gval.split)

lemma ensureDir_keeps: "keeps (beside I) (ensureDir va vol path) any"
  unfolding ensureDir_def by (auto intro!: widget_keeps run_keeps keeps_aret split: option.split)

lemma save_keeps: "keeps (beside I) (Project.save va vol) any"
  unfolding Project.save_def save_upload_def save_link_def save_failed_def setStatus_def
  by (auto intro!: widget_keeps link_keeps store_keeps_any split: option.split)

lemma load_keeps: "keeps (beside I) (load va key) any"
proof -
  have "keeps (beside I) (\<lambda>(s, w). case load_project t (pw_next w) of (r, k) \<Rightarrow> Some (r, (s, w\<lparr>pw_next := k\<rparr>))) any" for t
    by (auto simp: keeps_def beside_def split: prod.splits)
  then show ?thesis unfolding load_def setStatus_def
    by (auto intro!: widget_keeps op_keeps keeps_any [OF text_keeps])
qed

lemma project_keeps:
  "keeps (beside I) (openProject va vol path) any" "keeps (beside I) (timer_fires va vol) any"
  "keeps (beside I) (Project.destroy va vol) any"
  unfolding openProject_def timer_fires_def Project.destroy_def setStatus_def
  by (auto intro!: widget_keeps load_keeps save_keeps ensureDir_keeps split: option.split)

end

text \<open>Suites of tests that keep the invariant.\<close>

definition suites_keep :: "('s \<Rightarrow> bool) \<Rightarrow> (string \<Rightarrow> err + 's test list option) \<Rightarrow> bool" where
  "suites_keep I imp \<longleftrightarrow>
     (\<forall>n ts. imp n = Inr (Some ts) \<longrightarrow> list_all (\<lambda>(label, fn). \<forall>d. keeps I (fn d) any) ts)"

context content_api
begin

lemma make_scratch_keeps: "keeps I (make_scratch va) any"
  unfolding make_scratch_def Let_def mkdir_invoke_def
  by (auto intro!: invoke_keeps)

lemma run_tests_keeps:
  assumes "list_all (\<lambda>(label, fn). \<forall>d. keeps I (fn d) any) tests"
  shows "keeps (beside I) (run_tests va stack opts tests p f) any"
  using assms
proof (induction tests arbitrary: p f)
  case (Cons t tests)
  obtain label fn where t: "t = (label, fn)" by (cases t)
  have "keeps I (fn d) any" for d using Cons.prems by (simp add: t)
  then show ?case using Cons
    by (auto simp: t push_def intro!: widget_keeps make_scratch_keeps split: sum.split)
qed (simp add: keeps_aret)

lemma run_suites_keeps:
  assumes "suites_keep I imp"
  shows "keeps (beside I) (run_suites va imp stack opts suites P F) any"
proof (induction suites arbitrary: P F)
  case (Cons name suites)
  have "keeps (beside I) (run_tests va stack opts ts 0 0) any" if "imp name = Inr (Some ts)" for ts
    using assms that by (auto simp: suites_keep_def intro: run_tests_keeps)
  then show ?case using Cons
    by (auto simp: push_def intro!: widget_keeps split: sum.split option.split prod.split)
qed (simp add: keeps_aret)

lemma find_suites_keeps: "keeps I (find_suites (va_children va key) opts kids) any"
proof (induction kids)
  case (Cons k kids)
  then show ?case by (cases k) (auto intro!: keeps_bind_any keeps_aret op_keeps)
qed (simp add: keeps_aret)

lemma test_keeps:
  assumes "suites_keep I imp"
  shows "keeps (beside I) (test_invoke va imp stack here prev args) any"
  unfolding test_invoke_def test_run_def run_all_def report_def push_def Let_def
  by (auto intro!: widget_keeps op_keeps find_suites_keeps run_suites_keeps assms split: prod.split)

end

section \<open>The desk\<close>

text \<open>
  A page with one widget of each kind and the commands imported so far. What the widgets take from outside:
  the comparison of names, the clock, the editor component, what commands take from the page, and the
  suites of the command test.
\<close>

record widgets =
  wi_files :: files
  wi_inbox :: inbox
  wi_editor :: editor
  wi_compose :: compose
  wi_project :: pw
  wi_document :: document
  wi_lines :: "string list"

record 's desk_env =
  de_locale :: "string \<Rightarrow> string \<Rightarrow> bool"
  de_clock :: clock
  de_cm :: "string \<Rightarrow> string"
  de_has :: "string \<Rightarrow> bool"
  de_page :: "'s page"
  de_depth :: nat
  de_url :: string
  de_suites :: "string \<Rightarrow> err + 's test list option"
  de_stack :: "err \<Rightarrow> string"

type_synonym 's desk = "(string \<times> 's tool) list \<times> widgets"

text \<open>
  What happens: a command, a handler of a widget, or the user changing widgets without the help of a volume (typing,
  selecting, opening another one).
\<close>

datatype desk_event =
    Command gval string "gval list"
  | User "widgets \<Rightarrow> widgets"
  | Files_load string | Files_parent string | Files_click string "string list" | Files_tick string nat | Files_reload string nat
  | Inbox_load | Inbox_preview string int nat | Inbox_tick int | Inbox_trash nat
  | Editor_load "response option" | Editor_save "editor \<Rightarrow> editor" | Editor_saveAs "string option" "editor \<Rightarrow> editor"
  | Compose_send "compose \<Rightarrow> compose"
  | Project_open "string option" string | Project_timer "string option" | Project_destroy "string option"
  | Document_load "gval option" "string option"
  | Run_tests "string \<times> string" gval "gval list"

definition on_desk :: "(widgets \<Rightarrow> 'p) \<Rightarrow> (('p \<Rightarrow> 'p) \<Rightarrow> widgets \<Rightarrow> widgets) \<Rightarrow> ('s, 'p, unit) wprog \<Rightarrow> ('s, 's desk, unit) wprog" where
  "on_desk part upd = on_part (part \<circ> snd) (\<lambda>p. map_prod id (upd (\<lambda>_. p)))"

definition tool_call :: "(string \<Rightarrow> err + 's tool) \<Rightarrow> gval \<Rightarrow> string \<Rightarrow> gval list \<Rightarrow> ('s, 's desk, unit) wprog" where
  "tool_call imp prev name args = (\<lambda>(s, (cache, ws)).
     map_option (\<lambda>(r, (cache', s')). (map_sum id (\<lambda>_. ()) r, (s', (cache', ws)))) (execute imp prev name args (cache, s)))"

definition load_into :: "'s vapi \<Rightarrow> gval option \<Rightarrow> string option \<Rightarrow> ('s, document, unit) wprog" where
  "load_into va payload p = with_widget (\<lambda>d. abind (on_api (load_document va d payload p)) (\<lambda>d'. on_widget (\<lambda>_. d')))"

fun desk_handler :: "'s desk_env \<Rightarrow> 's vapi \<Rightarrow> desk_event \<Rightarrow> ('s, 's desk, unit) wprog" where
  "desk_handler de va (Command prev name args) =
     tool_call (repo_import (commands (de_depth de) (de_page de) (de_url de) va)) prev name args"
| "desk_handler de va (User f) = on_widget (map_prod id f)"
| "desk_handler de va (Files_load key) = on_desk wi_files wi_files_update (loadRoot va (de_locale de) key)"
| "desk_handler de va (Files_parent key) = on_desk wi_files wi_files_update (goToParent va (de_locale de) key)"
| "desk_handler de va (Files_click key p) = on_desk wi_files wi_files_update (row_click va (de_locale de) key p)"
| "desk_handler de va (Files_tick key busy) = on_desk wi_files wi_files_update (Files_Widget.refreshTick va key busy)"
| "desk_handler de va (Files_reload key busy) = on_desk wi_files wi_files_update (reload va (de_locale de) key busy)"
| "desk_handler de va Inbox_load = on_desk wi_inbox wi_inbox_update (load_inbox va (de_locale de))"
| "desk_handler de va (Inbox_preview key now i) = on_desk wi_inbox wi_inbox_update (loadMessagePreview va key (de_clock de) now i)"
| "desk_handler de va (Inbox_tick now) = on_desk wi_inbox wi_inbox_update (Inbox.refreshTick va (de_clock de) now)"
| "desk_handler de va (Inbox_trash i) = on_desk wi_inbox wi_inbox_update (trash va i)"
| "desk_handler de va (Editor_load payload) = on_desk wi_editor wi_editor_update (load_editor va (de_cm de) (de_has de) payload)"
| "desk_handler de va (Editor_save during) = on_desk wi_editor wi_editor_update (Editor.save va during)"
| "desk_handler de va (Editor_saveAs answer during) = on_desk wi_editor wi_editor_update (saveAs va answer during)"
| "desk_handler de va (Compose_send during) = on_desk wi_compose wi_compose_update (press_send va during)"
| "desk_handler de va (Project_open vol p) = on_desk wi_project wi_project_update (openProject va vol p)"
| "desk_handler de va (Project_timer vol) = on_desk wi_project wi_project_update (timer_fires va vol)"
| "desk_handler de va (Project_destroy vol) = on_desk wi_project wi_project_update (Project.destroy va vol)"
| "desk_handler de va (Document_load payload p) = on_desk wi_document wi_document_update (load_into va payload p)"
| "desk_handler de va (Run_tests here prev args) =
     on_desk wi_lines wi_lines_update (test_invoke va (de_suites de) (de_stack de) here prev args)"

text \<open>One thing after the other, whatever each returns or throws.\<close>

definition desk_run :: "'s desk_env \<Rightarrow> 's vapi \<Rightarrow> desk_event list \<Rightarrow> ('s, 's desk, unit) wprog" where
  "desk_run de va es = afor es (\<lambda>e. abind (atry (desk_handler de va e)) (\<lambda>_. aret ()))"

section \<open>The caches stay sound\<close>

definition desk_ok :: "('s \<Rightarrow> bool) \<Rightarrow> (string \<times> (gval \<Rightarrow> gval list \<Rightarrow> ('s, gval) aprog)) list \<Rightarrow> 's \<times> 's desk \<Rightarrow> bool" where
  "desk_ok I cmds = (\<lambda>(s, (cache, ws)). shell_ok I cmds (cache, s))"

lemma keeps_on_desk: "keeps (beside I) m any \<Longrightarrow> keeps (desk_ok I cmds) (on_desk part upd m) any"
  unfolding keeps_def on_desk_def on_part_def beside_def desk_ok_def shell_ok_def by fastforce

lemma keeps_tool_call:
  assumes "\<And>n call prev args. (n, call) \<in> set cmds \<Longrightarrow> keeps I (call prev args) any"
  shows "keeps (desk_ok I cmds) (tool_call (repo_import cmds) prev name args) any"
proof -
  have "keeps (shell_ok I cmds) (execute (repo_import cmds) prev name args) any"
    by (rule execute_keeps, erule assms)
  then show ?thesis unfolding keeps_def tool_call_def desk_ok_def by fastforce
qed

lemma keeps_user: "keeps (desk_ok I cmds) (on_widget (map_prod id f)) any"
  by (auto simp: keeps_def on_widget_def desk_ok_def)

context content_api
begin

lemma load_into_keeps: "keeps (beside I) (load_into va payload p) any"
  unfolding load_into_def by (auto intro!: widget_keeps document_keeps)

lemma desk_handler_keeps:
  assumes "page_keeps I (de_page de)" and "suites_keep I (de_suites de)"
  shows "keeps (desk_ok I (commands (de_depth de) (de_page de) (de_url de) va)) (desk_handler de va e) any"
  by (cases e)
    (auto intro!: keeps_on_desk keeps_tool_call keeps_user commands_keep [OF assms(1)] test_keeps [OF assms(2)] loadRoot_keeps
      files_keep inbox_keeps editor_keeps compose_keeps project_keeps load_into_keeps)

lemma desk_run_keeps:
  assumes "page_keeps I (de_page de)" and "suites_keep I (de_suites de)"
  shows "keeps (desk_ok I (commands (de_depth de) (de_page de) (de_url de) va)) (desk_run de va es) any"
  unfolding desk_run_def
  by (rule keeps_for) (auto intro!: keeps_bind_any keeps_atry_any keeps_aret desk_handler_keeps assms)

end


definition blank_desk :: "'s desk_env" where
  "blank_desk = \<lparr>de_locale = (\<lambda>a b. length a \<le> length b),
     de_clock = plain_clock,
     de_cm = id, de_has = \<lambda>_. True, de_page = blank_page, de_depth = 0, de_url = ''s'',
     de_suites = \<lambda>_. Inr None, de_stack = \<lambda>_. []\<rparr>"

definition blank_widgets :: widgets where
  "blank_widgets = \<lparr>wi_files = new_files None, wi_inbox = new_inbox, wi_editor = new_editor ''e'' None True,
     wi_compose = new_compose [] [], wi_project = new_widget [] 1,
     wi_document = \<lparr>dc_content = [], dc_dir = None, dc_name = []\<rparr>, wi_lines = []\<rparr>"

definition opens_sys :: "unit cl vapi \<Rightarrow> (unit cl, unit) aprog" where
  "opens_sys va = abind (va_volume va ''sys'') (\<lambda>_. aret ())"


end
