(* ===== verification/Terminal.thy ===== *)
theory Terminal
  imports Shell
begin

text \<open>
  The terminal widget (gterm/gwm-widget.js) with \<open>GimbalClient.eval\<close> of gimbal/client.js: the queue of
  commands and their execution one at a time, the letters under which results are kept, what each
  entry shows, and the walk through the history of the input line.

  Evaluating a command is a call recorded in the state and, later, an event with its outcome. Values are those
  of a pipeline; the layout of an object (a package outside the sources) and the value to which a
  function compiles are parameters. Scrolling, which depends on measurements, is not modelled.
\<close>

section \<open>The text that is compiled: \<open>GimbalClient.eval\<close>\<close>

text \<open>\<open>/^\s*function\s+([a-zA-Z_$][a-zA-Z0-9_$]*)\s*\(/\<close>: the name of a function definition.\<close>

definition ident_char :: "char \<Rightarrow> bool" where
  "ident_char c \<longleftrightarrow> (let n = (of_char c :: nat) in
     97 \<le> n \<and> n \<le> 122 \<or> 65 \<le> n \<and> n \<le> 90 \<or> 48 \<le> n \<and> n \<le> 57 \<or> n = 95 \<or> n = 36)"

definition fn_name :: "string \<Rightarrow> string option" where
  "fn_name src =
     (let s1 = dropWhile is_ws src; s2 = drop 8 s1; s3 = dropWhile is_ws s2;
          n = takeWhile ident_char s3; s4 = dropWhile is_ws (dropWhile ident_char s3)
      in if take 8 s1 = ''function'' \<and> s2 \<noteq> s3 \<and> n \<noteq> [] \<and> \<not> is_digit (hd n) \<and> take 1 s4 = ''(''
         then Some n else None)"

definition eval_source :: "string \<Rightarrow> string" where
  "eval_source src = (case fn_name src of Some n \<Rightarrow> n @ '' = '' @ src | None \<Rightarrow> src)"

text \<open>
  The body given to \<open>new Function\<close> for parameters \<open>gimbal\<close> and the extra names: as an
  expression if that compiles, as statements otherwise.
\<close>

definition eval_body :: "(string list \<Rightarrow> string \<Rightarrow> bool) \<Rightarrow> string list \<Rightarrow> string \<Rightarrow> err + string" where
  "eval_body compiles extra src0 =
     (let src = eval_source src0; ps = ''gimbal'' # extra;
          expr = ''return (async () => ('' @ src @ ''))();'';
          stmts = ''return (async () => { '' @ src @ '' })();''
      in if compiles ps expr then Inr expr
         else if compiles ps stmts then Inr stmts
         else Inl (Err_Syntax ''Unexpected token''))"

section \<open>State\<close>

datatype status = Queued | Running | Done | Failed

text \<open>\<open>rec.display\<close>: a text with its flag, or the body of a response to be read.\<close>

datatype display = Shown "string option" bool | Body_stream

text \<open>The status cell of an entry, and the result element below it: its class and its text.\<close>

datatype cell = Hourglass | Blank | Spinner | Cross | Letter string

datatype tone = Plain | Response_tone | Error_tone

record entry =
  re_src :: string
  re_status :: status
  re_display :: "display option"
  re_refIndex :: "nat option"
  re_dimmed :: bool
  re_cell :: cell
  re_timer :: bool
  re_result :: "(tone \<times> string) option"
  re_attached :: bool

text \<open>
  \<open>tm_pending\<close> is the entry whose evaluation the loop awaits, \<open>tm_evals\<close> what \<open>gimbal.eval\<close>
  has been called with.
\<close>

record terminal =
  tm_history :: "entry list"
  tm_refResults :: "gval list"
  tm_running :: bool
  tm_pending :: "nat option"
  tm_evals :: "(string \<times> (string \<times> gval) list) list"

definition new_terminal :: terminal where
  "new_terminal = \<lparr>tm_history = [], tm_refResults = [], tm_running = False, tm_pending = None, tm_evals = []\<rparr>"

definition resultLetter :: "nat \<Rightarrow> string" where
  "resultLetter refIndex = [CHR 0x5F, char_of (97 + refIndex mod 26)]"

definition buildExtraVars :: "gval list \<Rightarrow> (string \<times> gval) list" where
  "buildExtraVars refs = map (\<lambda>i. (resultLetter i, refs ! i)) [0..<min (length refs) 26]"

section \<open>What an entry shows\<close>

definition set_entry :: "nat \<Rightarrow> (entry \<Rightarrow> entry) \<Rightarrow> terminal \<Rightarrow> terminal" where
  "set_entry i f t = t\<lparr>tm_history := (tm_history t)[i := f (tm_history t ! i)]\<rparr>"

definition new_entry :: "string \<Rightarrow> entry" where
  "new_entry src = \<lparr>re_src = src, re_status = Queued, re_display = None, re_refIndex = None, re_dimmed = True,
     re_cell = Hourglass, re_timer = False, re_result = None, re_attached = True\<rparr>"

definition applyRunning :: "entry \<Rightarrow> entry" where
  "applyRunning r = r\<lparr>re_dimmed := False, re_cell := Blank, re_timer := True\<rparr>"

definition applyFinished :: "entry \<Rightarrow> entry" where
  "applyFinished r = r\<lparr>re_timer := False,
     re_cell := (if re_status r = Failed then Cross
                 else case re_refIndex r of Some k \<Rightarrow> Letter (resultLetter k) | None \<Rightarrow> Blank)\<rparr>"

text \<open>\<open>applyDone\<close>; the reading of a body goes on in the background, below.\<close>

definition applyDone :: "entry \<Rightarrow> entry" where
  "applyDone r =
     (case re_display r of
        Some Body_stream \<Rightarrow> r\<lparr>re_result := Some (Response_tone, [])\<rparr>
      | Some (Shown (Some text) isResponse) \<Rightarrow>
          (applyFinished r)\<lparr>re_result := Some (if re_status r = Failed then Error_tone
                                              else if isResponse then Response_tone else Plain, text)\<rparr>
      | _ \<Rightarrow> applyFinished r)"

text \<open>A chunk of the body arrives, the body ends, reading it fails; the timer of the spinner fires.\<close>

definition stream_chunk :: "string \<Rightarrow> entry \<Rightarrow> entry" where
  "stream_chunk chunk r = r\<lparr>re_result := map_option (\<lambda>(c, text). (c, text @ chunk)) (re_result r)\<rparr>"

definition stream_fails :: "err \<Rightarrow> entry \<Rightarrow> entry" where
  "stream_fails e r = applyFinished (r\<lparr>re_status := Failed,
     re_result := map_option (\<lambda>(c, text). (Error_tone, text @ [CHR 0x0A] @ ''[stream error: '' @ err_message e @ '']''))
       (re_result r)\<rparr>)"

definition spinner_fires :: "entry \<Rightarrow> entry" where
  "spinner_fires r = (if re_timer r then r\<lparr>re_cell := Spinner, re_timer := False\<rparr> else r)"

section \<open>The execution loop\<close>

text \<open>\<open>_display\<close>\<close>

definition display_of :: "(gval \<Rightarrow> nat \<Rightarrow> err + string) \<Rightarrow> gval \<Rightarrow> err + string" where
  "display_of stringify v =
     (case v of
        V_path p \<Rightarrow> Inr (''p('' @ p @ '')'')
      | V_response r \<Rightarrow> Inr (''Response('' @ nat_str (rs_status r) @ '')'')
      | V_js (JStr s) \<Rightarrow> Inr s
      | V_uint8 b \<Rightarrow> Inr (''['' @ nat_str (length b) @ '' bytes]'')
      | V_buffer b \<Rightarrow> Inr (''['' @ nat_str (length b) @ '' bytes]'')
      | _ \<Rightarrow> if is_obj v then stringify v 80 else Inr (gval_string v))"

text \<open>What an evaluation can throw: an error object, or any value of the language.\<close>

datatype thrown = Error_thrown err | Value_thrown jsv

text \<open>\<open>e.message ?? String(e)\<close>: throws on null and undefined.\<close>

definition thrown_text :: "thrown \<Rightarrow> err + string" where
  "thrown_text e =
     (case e of
        Error_thrown x \<Rightarrow> Inr (err_message x)
      | Value_thrown v \<Rightarrow>
          (case js_prop_strict v ''message'' of
             Inl x \<Rightarrow> Inl x
           | Inr m \<Rightarrow> Inr (if m = JUndef \<or> m = JNull then js_string v else js_string m)))"

text \<open>\<open>runNext\<close> up to its first await.\<close>

fun next_queued :: "entry list \<Rightarrow> nat option" where
  "next_queued [] = None"
| "next_queued (r # rs) = (if re_status r = Queued then Some 0 else map_option Suc (next_queued rs))"

definition runNext :: "terminal \<Rightarrow> terminal" where
  "runNext t =
     (if tm_running t then t
      else case next_queued (tm_history t) of
        None \<Rightarrow> t
      | Some i \<Rightarrow>
          set_entry i (\<lambda>r. applyRunning (r\<lparr>re_status := Running\<rparr>))
            (t\<lparr>tm_running := True, tm_pending := Some i,
               tm_evals := tm_evals t @ [(re_src (tm_history t ! i), buildExtraVars (tm_refResults t))]\<rparr>))"

text \<open>The \<open>catch\<close> of the loop; what it throws itself ends the loop with \<open>running\<close> still set.\<close>

definition run_failed :: "nat \<Rightarrow> thrown \<Rightarrow> terminal \<Rightarrow> terminal" where
  "run_failed i e t =
     (let t1 = set_entry i (\<lambda>r. r\<lparr>re_status := Failed\<rparr>) (t\<lparr>tm_pending := None\<rparr>)
      in case thrown_text e of
           Inl _ \<Rightarrow> t1
         | Inr text \<Rightarrow>
             runNext ((set_entry i (\<lambda>r. applyDone (r\<lparr>re_display := Some (Shown (Some text) False), re_refIndex := None\<rparr>)) t1)
               \<lparr>tm_running := False\<rparr>))"

definition run_done :: "nat \<Rightarrow> (entry \<Rightarrow> entry) \<Rightarrow> terminal \<Rightarrow> terminal" where
  "run_done i f t = runNext ((set_entry i (\<lambda>r. applyDone (f (r\<lparr>re_status := Done\<rparr>))) (t\<lparr>tm_pending := None\<rparr>))\<lparr>tm_running := False\<rparr>)"

fun is_response :: "gval \<Rightarrow> bool" where
  "is_response (V_response r) = True"
| "is_response v = False"

text \<open>
  The rest of \<open>runNext\<close> for the outcome of the evaluation; \<open>used\<close> says that the body of a response
  has been read before, so that \<open>clone\<close> throws.
\<close>

definition settle :: "(gval \<Rightarrow> nat \<Rightarrow> err + string) \<Rightarrow> thrown + gval \<Rightarrow> bool \<Rightarrow> terminal \<Rightarrow> terminal" where
  "settle stringify outcome used t =
     (case tm_pending t of
        None \<Rightarrow> t
      | Some i \<Rightarrow>
          (case outcome of
             Inl e \<Rightarrow> run_failed i e t
           | Inr v \<Rightarrow>
               (let t1 = t\<lparr>tm_refResults := tm_refResults t @ [v]\<rparr>; ref = Some (length (tm_refResults t))
                in if is_response v then
                     (if used then run_failed i (Error_thrown (Err_Type ''Response.clone: Body has already been consumed.'')) t1
                      else run_done i (\<lambda>r. r\<lparr>re_refIndex := ref, re_display := Some Body_stream\<rparr>) t1)
                   else if v \<noteq> V_js JNull \<and> v \<noteq> V_js JUndef then
                     (case display_of stringify v of
                        Inl x \<Rightarrow> run_failed i (Error_thrown x) t1
                      | Inr text \<Rightarrow> run_done i (\<lambda>r. r\<lparr>re_display := Some (Shown (Some text) False), re_refIndex := ref\<rparr>) t1)
                   else run_done i (\<lambda>r. r\<lparr>re_display := Some (Shown None False), re_refIndex := None\<rparr>) t1)))"

definition enqueue_command :: "string \<Rightarrow> terminal \<Rightarrow> terminal" where
  "enqueue_command src t = runNext (t\<lparr>tm_history := tm_history t @ [new_entry src]\<rparr>)"

text \<open>Ctrl-L removes the elements shown, not the entries.\<close>

definition clear_output :: "terminal \<Rightarrow> terminal" where
  "clear_output t = t\<lparr>tm_history := map (\<lambda>r. r\<lparr>re_attached := False\<rparr>) (tm_history t)\<rparr>"

section \<open>What happens to a terminal\<close>

text \<open>Bodies are read only in entries that show one, as long as they have not failed.\<close>

datatype tevent =
    Enter string | Settle "thrown + gval" bool | Spin nat | Chunk nat string | Body_end nat | Body_error nat err | Clear

definition in_stream :: "nat \<Rightarrow> (entry \<Rightarrow> entry) \<Rightarrow> terminal \<Rightarrow> terminal" where
  "in_stream i f t =
     (if i < length (tm_history t) \<and> re_display (tm_history t ! i) = Some Body_stream
         \<and> re_status (tm_history t ! i) = Done
      then set_entry i f t else t)"

fun terminal_step :: "(gval \<Rightarrow> nat \<Rightarrow> err + string) \<Rightarrow> tevent \<Rightarrow> terminal \<Rightarrow> terminal" where
  "terminal_step stringify (Enter src) t = enqueue_command src t"
| "terminal_step stringify (Settle outcome used) t = settle stringify outcome used t"
| "terminal_step stringify (Spin i) t = (if i < length (tm_history t) then set_entry i spinner_fires t else t)"
| "terminal_step stringify (Chunk i c) t = in_stream i (stream_chunk c) t"
| "terminal_step stringify (Body_end i) t = in_stream i applyFinished t"
| "terminal_step stringify (Body_error i e) t = in_stream i (stream_fails e) t"
| "terminal_step stringify Clear t = clear_output t"

section \<open>The loop runs the commands one at a time, in order\<close>

text \<open>
  The entries run so far are the first ones, as many as evaluations; at most the last of them is running,
  and commands wait only while the loop is busy.
\<close>

definition tm_inv :: "terminal \<Rightarrow> bool" where
  "tm_inv t \<longleftrightarrow>
     (let h = tm_history t; n = length (tm_evals t) in
      n \<le> length h \<and> map fst (tm_evals t) = map re_src (take n h)
      \<and> (\<forall>i < length h. re_status (h ! i) = Queued \<longleftrightarrow> n \<le> i)
      \<and> (\<forall>i < length h. re_status (h ! i) = Running \<longleftrightarrow> tm_pending t = Some i)
      \<and> (\<forall>i. tm_pending t = Some i \<longrightarrow> n = Suc i \<and> tm_running t)
      \<and> (tm_running t \<or> n = length h)
      \<and> (\<forall>i < length h. \<forall>k. re_refIndex (h ! i) = Some k \<longrightarrow> k < length (tm_refResults t)))"

lemma entry_fields [simp]:
  "re_src (applyFinished r) = re_src r" "re_status (applyFinished r) = re_status r"
  "re_refIndex (applyFinished r) = re_refIndex r"
  "re_src (applyDone r) = re_src r" "re_status (applyDone r) = re_status r" "re_refIndex (applyDone r) = re_refIndex r"
  "re_src (applyRunning r) = re_src r" "re_status (applyRunning r) = re_status r"
  "re_refIndex (applyRunning r) = re_refIndex r"
  "re_src (stream_chunk c r) = re_src r" "re_status (stream_chunk c r) = re_status r"
  "re_refIndex (stream_chunk c r) = re_refIndex r"
  "re_src (spinner_fires r) = re_src r" "re_status (spinner_fires r) = re_status r"
  "re_refIndex (spinner_fires r) = re_refIndex r"
  "re_src (stream_fails e r) = re_src r" "re_status (stream_fails e r) = Failed"
  "re_refIndex (stream_fails e r) = re_refIndex r"
  by (simp_all add: applyFinished_def applyDone_def applyRunning_def stream_chunk_def spinner_fires_def stream_fails_def
      split: option.split display.split)

lemma set_entry_sel [simp]:
  "tm_evals (set_entry i f t) = tm_evals t" "tm_running (set_entry i f t) = tm_running t"
  "tm_pending (set_entry i f t) = tm_pending t" "tm_refResults (set_entry i f t) = tm_refResults t"
  "tm_history (set_entry i f t) = (tm_history t)[i := f (tm_history t ! i)]"
  by (simp_all add: set_entry_def)

lemma src_update: "re_src x = re_src (h ! i) \<Longrightarrow> map re_src (take n (h[i := x])) = map re_src (take n h)"
proof -
  assume x: "re_src x = re_src (h ! i)"
  have "map re_src (take n (h[i := x])) = (map re_src (take n h))[i := re_src x]"
    by (simp add: take_update_swap map_update)
  also have "\<dots> = map re_src (take n h)" using x
    by (cases "i < n \<and> i < length h") (auto simp: list_update_same_conv intro: list_update_beyond)
  finally show ?thesis .
qed

lemma inv_set_entry:
  assumes "tm_inv t" and "i < length (tm_history t)" and "\<And>r. re_src (f r) = re_src r" and "\<And>r. re_refIndex (f r) = re_refIndex r"
    and "re_status (f (tm_history t ! i)) = re_status (tm_history t ! i)
       \<or> re_status (tm_history t ! i) = Done \<and> re_status (f (tm_history t ! i)) = Failed"
  shows "tm_inv (set_entry i f t)"
  using assms unfolding tm_inv_def Let_def by (auto simp: nth_list_update src_update)

lemma inv_in_stream:
  "tm_inv t \<Longrightarrow> (\<And>r. re_src (f r) = re_src r) \<Longrightarrow> (\<And>r. re_refIndex (f r) = re_refIndex r)
   \<Longrightarrow> (\<And>r. re_status r = Done \<Longrightarrow> re_status (f r) = Done \<or> re_status (f r) = Failed) \<Longrightarrow> tm_inv (in_stream i f t)"
  unfolding in_stream_def by (auto intro!: inv_set_entry) blast

lemma next_queued_first:
  assumes "\<forall>i < length h. re_status (h ! i) = Queued \<longleftrightarrow> n \<le> i"
  shows "next_queued h = (if n < length h then Some n else None)"
  using assms
proof (induction h arbitrary: n)
  case (Cons r rs)
  have "\<forall>i < length rs. re_status (rs ! i) = Queued \<longleftrightarrow> n - 1 \<le> i" using Cons.prems by force
  then have IH: "next_queued rs = (if n - 1 < length rs then Some (n - 1) else None)" by (rule Cons.IH)
  have "re_status r = Queued \<longleftrightarrow> n = 0" using Cons.prems by force
  then show ?case using IH by auto
qed simp

lemma inv_clear: "tm_inv t \<Longrightarrow> tm_inv (clear_output t)"
  unfolding tm_inv_def Let_def clear_output_def by (auto simp: take_map comp_def)

text \<open>What the loop finds when it looks for the next command, and what it leaves.\<close>

definition idle_inv :: "terminal \<Rightarrow> bool" where
  "idle_inv t \<longleftrightarrow>
     (let h = tm_history t; n = length (tm_evals t) in
      n \<le> length h \<and> map fst (tm_evals t) = map re_src (take n h)
      \<and> (\<forall>i < length h. re_status (h ! i) = Queued \<longleftrightarrow> n \<le> i)
      \<and> (\<forall>i < length h. re_status (h ! i) \<noteq> Running)
      \<and> tm_pending t = None \<and> \<not> tm_running t
      \<and> (\<forall>i < length h. \<forall>k. re_refIndex (h ! i) = Some k \<longrightarrow> k < length (tm_refResults t)))"

lemma inv_runNext:
  assumes "idle_inv t"
  shows "tm_inv (runNext t)"
proof -
  define n where "n = length (tm_evals t)"
  have q: "next_queued (tm_history t) = (if n < length (tm_history t) then Some n else None)"
    using assms by (intro next_queued_first) (auto simp: idle_inv_def Let_def n_def)
  show ?thesis
  proof (cases "n < length (tm_history t)")
    case False
    then show ?thesis using assms q by (auto simp: runNext_def idle_inv_def tm_inv_def Let_def n_def)
  next
    case True
    then have "runNext t = set_entry n (\<lambda>r. applyRunning (r\<lparr>re_status := Running\<rparr>))
        (t\<lparr>tm_running := True, tm_pending := Some n,
           tm_evals := tm_evals t @ [(re_src (tm_history t ! n), buildExtraVars (tm_refResults t))]\<rparr>)"
      using q assms by (simp add: runNext_def idle_inv_def Let_def)
    then show ?thesis using True assms
      unfolding tm_inv_def idle_inv_def Let_def n_def [symmetric]
      by (auto simp: nth_list_update src_update take_Suc_conv_app_nth n_def)
  qed
qed

lemma pending_in:
  assumes "tm_inv t" and "tm_pending t = Some i"
  shows "i < length (tm_history t)" and "re_refIndex (tm_history t ! i) = Some k \<Longrightarrow> k < length (tm_refResults t)"
  using assms unfolding tm_inv_def Let_def by (metis Suc_le_eq)+

lemma idle_after:
  assumes "tm_inv t" and "tm_pending t = Some i" and "refs = tm_refResults t \<or> refs = tm_refResults t @ [v]"
    and "re_src r = re_src (tm_history t ! i)" and "re_status r = Done \<or> re_status r = Failed"
    and "\<forall>k. re_refIndex r = Some k \<longrightarrow> k < length refs"
    and "tm_history s = (tm_history t)[i := r]" and "tm_refResults s = refs" and "tm_pending s = None"
    and "\<not> tm_running s" and "tm_evals s = tm_evals t"
  shows "idle_inv s"
  using assms unfolding tm_inv_def idle_inv_def Let_def
  by (auto simp: nth_list_update src_update less_Suc_eq)

lemma set_entry_twice [simp]: "i < length (tm_history t) \<Longrightarrow>
    set_entry i g (set_entry i f t) = set_entry i (\<lambda>r. g (f (tm_history t ! i))) t"
  by (simp add: set_entry_def)

text \<open>Both ends of a command lead back to the search for the next one, unless the handler throws.\<close>

definition back_to_idle :: "terminal \<Rightarrow> terminal \<Rightarrow> bool" where
  "back_to_idle t t' \<longleftrightarrow> (\<exists>s. t' = runNext s \<and> idle_inv s \<and> length (tm_history s) = length (tm_history t)
     \<and> tm_evals s = tm_evals t)"

lemma inv_back: "back_to_idle t t' \<Longrightarrow> tm_inv t'"
  by (auto simp: back_to_idle_def inv_runNext)

lemma run_done_back:
  assumes "tm_inv t" and "tm_pending t = Some i" and "\<And>r. re_src (f r) = re_src r" and "\<And>r. re_status (f r) = re_status r"
    and "\<And>r k. re_refIndex (f r) = Some k \<Longrightarrow> k = length (tm_refResults t)"
  shows "back_to_idle t (run_done i f (t\<lparr>tm_refResults := tm_refResults t @ [v]\<rparr>))"
  unfolding run_done_def back_to_idle_def
  by (rule exI, rule conjI [OF refl], rule conjI, rule idle_after [OF assms(1,2), where refs = "tm_refResults t @ [v]"
      and r = "applyDone (f ((tm_history t ! i)\<lparr>re_status := Done\<rparr>))"]) (use assms in auto)

lemma run_failed_back:
  assumes "tm_inv t" and "tm_pending t = Some i" and "refs = tm_refResults t \<or> refs = tm_refResults t @ [v]"
    and "thrown_text e = Inr m"
  shows "back_to_idle t (run_failed i e (t\<lparr>tm_refResults := refs\<rparr>))"
proof -
  let ?r = "applyDone ((tm_history t ! i)\<lparr>re_status := Failed, re_display := Some (Shown (Some m) False), re_refIndex := None\<rparr>)"
  have "back_to_idle t (runNext s)" if "tm_history s = (tm_history t)[i := ?r]" "tm_refResults s = refs" "tm_pending s = None"
    "\<not> tm_running s" "tm_evals s = tm_evals t" for s
    using that idle_after [OF assms(1-3), of ?r s] by (auto simp: back_to_idle_def)
  then show ?thesis using assms(4) pending_in(1) [OF assms(1,2)] by (simp add: run_failed_def)
qed

lemma inv_run_failed:
  assumes "tm_inv t" and "tm_pending t = Some i" and refs: "refs = tm_refResults t \<or> refs = tm_refResults t @ [v]"
  shows "tm_inv (run_failed i e (t\<lparr>tm_refResults := refs\<rparr>))"
proof (cases "thrown_text e")
  case (Inl x)
  have "k < length refs" if "re_refIndex (tm_history t ! i) = Some k" for k
    using pending_in(2) [OF assms(1,2) that] refs by auto
  then show ?thesis
    using Inl assms pending_in(1) [OF assms(1,2)] unfolding run_failed_def tm_inv_def Let_def
    by (auto simp: nth_list_update src_update)
qed (use inv_back run_failed_back [OF assms] in blast)

lemma inv_settle: "tm_inv t \<Longrightarrow> tm_inv (settle stringify outcome used t)"
  using inv_run_failed [where v = "V_js JNull" and refs = "tm_refResults t" and t = t]
  by (auto simp: settle_def Let_def split: option.split sum.split intro!: inv_back [OF run_done_back] inv_run_failed)

lemma tm_inv_enqueue: "tm_inv t \<Longrightarrow> tm_inv (enqueue_command src t)"
proof (cases "tm_running t")
  case True
  assume "tm_inv t"
  then show ?thesis using True
    unfolding enqueue_command_def runNext_def tm_inv_def Let_def
    by (auto simp: nth_append new_entry_def less_Suc_eq)
next
  case False
  assume "tm_inv t"
  then have "idle_inv (t\<lparr>tm_history := tm_history t @ [new_entry src]\<rparr>)" using False
    unfolding tm_inv_def idle_inv_def Let_def by (auto simp: nth_append new_entry_def less_Suc_eq)
  then show ?thesis unfolding enqueue_command_def by (rule inv_runNext)
qed

lemma tm_inv_step: "tm_inv t \<Longrightarrow> tm_inv (terminal_step stringify ev t)"
  by (cases ev)
    (auto intro!: tm_inv_enqueue inv_settle inv_set_entry inv_in_stream inv_clear)

lemma tm_inv_new: "tm_inv new_terminal"
  by (simp add: tm_inv_def new_terminal_def)

definition ran :: "(gval \<Rightarrow> nat \<Rightarrow> err + string) \<Rightarrow> tevent list \<Rightarrow> terminal \<Rightarrow> terminal" where
  "ran stringify es t = fold (terminal_step stringify) es t"

fun entered :: "tevent list \<Rightarrow> string list" where
  "entered [] = []"
| "entered (Enter src # es) = src # entered es"
| "entered (e # es) = entered es"

interpretation loop: event_invariant "terminal_step stringify" "\<lambda>_ _. True" "\<lambda>t. t = new_terminal" tm_inv for stringify
  by unfold_locales (simp_all add: tm_inv_new tm_inv_step)

lemma inv_ran: "tm_inv t \<Longrightarrow> tm_inv (ran stringify es t)"
  unfolding ran_def by (rule loop.runs_from) simp_all

lemma srcs_set_entry: "(\<And>r. re_src (f r) = re_src r) \<Longrightarrow> map re_src (tm_history (set_entry i f t)) = map re_src (tm_history t)"
  using src_update [of "f (tm_history t ! i)" "tm_history t" i "length (tm_history t)"] by simp

lemma srcs_runNext: "map re_src (tm_history (runNext t)) = map re_src (tm_history t)"
  unfolding runNext_def by (auto simp: srcs_set_entry simp del: set_entry_sel split: option.split)

lemma srcs_run:
  "map re_src (tm_history (run_failed i e t)) = map re_src (tm_history t)"
  "(\<And>r. re_src (f r) = re_src r) \<Longrightarrow> map re_src (tm_history (run_done i f t)) = map re_src (tm_history t)"
  unfolding run_failed_def run_done_def Let_def
  by (auto simp: srcs_runNext srcs_set_entry simp del: set_entry_sel set_entry_twice split: sum.split)

lemma srcs_step:
  "map re_src (tm_history (terminal_step stringify ev t)) = map re_src (tm_history t) @ entered [ev]"
  by (cases ev)
    (auto simp: enqueue_command_def srcs_runNext new_entry_def settle_def srcs_run srcs_set_entry in_stream_def
      clear_output_def comp_def Let_def simp del: set_entry_sel split: option.split sum.split)

lemma entered_Cons: "entered (e # es) = entered [e] @ entered es"
  by (cases e) simp_all

lemma srcs_ran: "map re_src (tm_history (ran stringify es t)) = map re_src (tm_history t) @ entered es"
  unfolding ran_def
proof (induction es arbitrary: t)
  case (Cons e es)
  show ?case using Cons [of "terminal_step stringify e t"] entered_Cons [of e es] by (simp add: srcs_step)
qed simp

lemma one_running:
  assumes "tm_inv t"
  shows "length (filter (\<lambda>r. re_status r = Running) (tm_history t)) \<le> 1"
proof -
  let ?S = "{i. i < length (tm_history t) \<and> re_status (tm_history t ! i) = Running}"
  have "?S \<subseteq> (case tm_pending t of None \<Rightarrow> {} | Some i \<Rightarrow> {i})"
    using assms by (auto simp: tm_inv_def Let_def split: option.split)
  then have "card ?S \<le> card (case tm_pending t of None \<Rightarrow> {} | Some i \<Rightarrow> {i})"
    by (rule card_mono [rotated]) (simp split: option.split)
  also have "\<dots> \<le> 1" by (simp split: option.split)
  finally show ?thesis by (simp add: length_filter_conv_card)
qed

lemma letters_differ: "i < 26 \<Longrightarrow> j < 26 \<Longrightarrow> resultLetter i = resultLetter j \<Longrightarrow> i = j"
proof -
  assume ij: "i < 26" "j < 26" "resultLetter i = resultLetter j"
  then have "(char_of (97 + i) :: char) = char_of (97 + j)" by (simp add: resultLetter_def)
  then have "(of_char (char_of (97 + i) :: char) :: nat) = of_char (char_of (97 + j) :: char)" by (rule arg_cong)
  then show "i = j" using ij by (simp only: of_char_char_of_small)
qed

lemma letter_mod: "resultLetter (k mod 26) = resultLetter k"
  by (simp add: resultLetter_def)

lemma bound_letter:
  assumes "k < length refs"
  shows "map_get (buildExtraVars refs) (resultLetter k) = Some (refs ! (k mod 26))"
proof -
  let ?n = "min (length refs) 26"
  have "distinct (map fst (buildExtraVars refs))"
    by (auto simp: buildExtraVars_def comp_def distinct_map inj_on_def intro: letters_differ)
  moreover have "k mod 26 \<le> k" by simp
  then have "k mod 26 < ?n" using assms by (simp only: min_less_iff_conj) (simp add: le_less_trans)
  then have "(resultLetter (k mod 26), refs ! (k mod 26)) \<in> set (buildExtraVars refs)"
    by (auto simp: buildExtraVars_def)
  ultimately show ?thesis by (simp only: letter_mod map_of_eq_Some_iff)
qed

text \<open>
  C30. Whatever is entered and whatever the evaluations give, the terminal evaluates the commands in the order in
  which they were entered, each once, and never two at a time; while the loop is idle, all of them have been.
\<close>

theorem commands_in_order:
  "let t = ran stringify es new_terminal in
     map re_src (tm_history t) = entered es
     \<and> map fst (tm_evals t) = take (length (tm_evals t)) (entered es)
     \<and> length (filter (\<lambda>r. re_status r = Running) (tm_history t)) \<le> 1
     \<and> (tm_running t \<or> length (tm_evals t) = length (entered es))"
proof -
  let ?t = "ran stringify es new_terminal"
  have inv: "tm_inv ?t" by (rule inv_ran [OF tm_inv_new])
  have srcs: "map re_src (tm_history ?t) = entered es" by (simp add: srcs_ran new_terminal_def)
  then have "map re_src (take (length (tm_evals ?t)) (tm_history ?t)) = take (length (tm_evals ?t)) (entered es)"
    by (simp flip: take_map)
  moreover have "length (entered es) = length (tm_history ?t)" by (simp flip: srcs)
  ultimately show ?thesis using inv srcs one_running [OF inv] by (auto simp: tm_inv_def Let_def)
qed

text \<open>
  The letter that an entry shows is bound, for the commands that follow, to a result the terminal has: the
  entry's own among the first twenty-six, and after that an older one, since only those are ever bound.
\<close>

theorem result_letters:
  assumes "i < length (tm_history (ran stringify es new_terminal))"
    and "re_refIndex (tm_history (ran stringify es new_terminal) ! i) = Some k"
  shows "k < length (tm_refResults (ran stringify es new_terminal))
    \<and> map_get (buildExtraVars (tm_refResults (ran stringify es new_terminal))) (resultLetter k)
      = Some (tm_refResults (ran stringify es new_terminal) ! (k mod 26))"
proof -
  have "k < length (tm_refResults (ran stringify es new_terminal))"
    using assms inv_ran [OF tm_inv_new, of stringify es] by (simp add: tm_inv_def Let_def)
  then show ?thesis using bound_letter by blast
qed

theorem result_letters_witness:
  "let t = ran (\<lambda>v n. Inr []) [Enter ''1 + 1'', Enter ''f()'', Settle (Inr (V_js (JNum 2))) False] new_terminal in
     re_cell (tm_history t ! 0) = Letter ''_a'' \<and> map_get (buildExtraVars (tm_refResults t)) ''_a'' = Some (V_js (JNum 2))"
proof -
  let ?es = "[Enter ''1 + 1'', Enter ''f()'', Settle (Inr (V_js (JNum 2))) False]"
  let ?t = "ran (\<lambda>v n. Inr []) ?es new_terminal"
  have "0 < length (tm_history ?t)" and "re_refIndex (tm_history ?t ! 0) = Some 0" by code_simp+
  then have "map_get (buildExtraVars (tm_refResults ?t)) (resultLetter 0) = Some (tm_refResults ?t ! (0 mod 26))"
    using result_letters by blast
  moreover have "re_cell (tm_history ?t ! 0) = Letter ''_a''" and "tm_refResults ?t = [V_js (JNum 2)]"
    and "resultLetter 0 = ''_a''"
    by code_simp+
  ultimately show ?thesis by (simp only: Let_def) simp
qed

text \<open>The entry of the twenty-seventh result is labelled with the letter of the first.\<close>

lemma letters_recycle: "length refs = 27 \<Longrightarrow> map_get (buildExtraVars refs) (resultLetter 26) = Some (refs ! 0)"
  using bound_letter [of 26 refs] by simp

section \<open>A loop that is stuck, and a loop that ends\<close>

definition usable :: "thrown + gval \<Rightarrow> bool" where
  "usable outcome = (case outcome of Inl e \<Rightarrow> (case thrown_text e of Inl _ \<Rightarrow> False | Inr _ \<Rightarrow> True) | Inr _ \<Rightarrow> True)"

lemma stuck_step:
  assumes "tm_pending t = None" and "tm_running t"
  shows "tm_pending (terminal_step stringify ev t) = None \<and> tm_running (terminal_step stringify ev t)
    \<and> tm_evals (terminal_step stringify ev t) = tm_evals t"
  using assms
  by (cases ev) (simp_all add: enqueue_command_def runNext_def settle_def in_stream_def clear_output_def)

lemma stuck_ran:
  assumes "tm_pending t = None" and "tm_running t"
  shows "tm_evals (ran stringify es t) = tm_evals t"
  using assms unfolding ran_def
proof (induction es arbitrary: t)
  case (Cons e es)
  then show ?case using stuck_step [OF Cons.prems, of stringify e] by simp
qed simp

lemma unusable_settle:
  assumes "tm_inv t" and "tm_pending t = Some i" and "\<not> usable outcome"
  shows "tm_pending (settle stringify outcome used t) = None \<and> tm_running (settle stringify outcome used t)
    \<and> tm_evals (settle stringify outcome used t) = tm_evals t"
  using assms by (auto simp: settle_def usable_def run_failed_def tm_inv_def Let_def split: sum.splits)

text \<open>
  A command that throws null or undefined stops the terminal for good: whatever happens afterwards, nothing is
  evaluated any more, and what is entered stays queued.
\<close>

theorem null_throw_hangs:
  assumes "tm_pending (ran stringify es new_terminal) = Some i" and "v = JNull \<or> v = JUndef"
  shows "let t = ran stringify (es @ Settle (Inl (Value_thrown v)) used # later) new_terminal in
     tm_evals t = tm_evals (ran stringify es new_terminal)
     \<and> list_all (\<lambda>r. re_status r = Queued) (drop (length (tm_evals t)) (tm_history t))
     \<and> map re_src (tm_history t) = entered es @ entered later"
proof -
  let ?before = "ran stringify es new_terminal"
  let ?t = "ran stringify (es @ Settle (Inl (Value_thrown v)) used # later) new_terminal"
  define t1 where "t1 = settle stringify (Inl (Value_thrown v)) used ?before"
  have t: "?t = ran stringify later t1" by (simp add: ran_def t1_def)
  have "\<not> usable (Inl (Value_thrown v))" using assms(2) by (auto simp: usable_def thrown_text_def)
  then have "tm_pending t1 = None \<and> tm_running t1 \<and> tm_evals t1 = tm_evals ?before"
    unfolding t1_def by (rule unusable_settle [OF inv_ran [OF tm_inv_new] assms(1)])
  then have "tm_evals ?t = tm_evals ?before" unfolding t by (simp add: stuck_ran)
  moreover have "\<forall>i < length (tm_history ?t). re_status (tm_history ?t ! i) = Queued \<longleftrightarrow> length (tm_evals ?t) \<le> i"
    using inv_ran [OF tm_inv_new, of stringify "es @ Settle (Inl (Value_thrown v)) used # later"]
    unfolding tm_inv_def Let_def by blast
  then have "list_all (\<lambda>r. re_status r = Queued) (drop (length (tm_evals ?t)) (tm_history ?t))"
    by (auto simp: list_all_length)
  moreover have "entered (es @ Settle (Inl (Value_thrown v)) used # later) = entered es @ entered later"
  proof (induction es)
    case (Cons e es)
    then show ?case using entered_Cons [of e es] entered_Cons [of e "es @ Settle (Inl (Value_thrown v)) used # later"]
      by simp
  qed simp
  then have "map re_src (tm_history ?t) = entered es @ entered later" by (simp only: srcs_ran) (simp add: new_terminal_def)
  ultimately show ?thesis by (simp only: Let_def)
qed

theorem null_throw_hangs_witness:
  "let t = ran (\<lambda>v n. Inr []) [Enter ''throw null'', Settle (Inl (Value_thrown JNull)) False, Enter ''1''] new_terminal in
     length (tm_evals t) = 1 \<and> re_status (tm_history t ! 1) = Queued"
proof -
  let ?p = "\<lambda>(v::gval) (n::nat). Inr [] :: err + string"
  have "tm_pending (ran ?p [Enter ''throw null''] new_terminal) = Some 0" by code_simp
  from null_throw_hangs [OF this, of JNull False "[Enter ''1'']"]
  have "let t = ran ?p [Enter ''throw null'', Settle (Inl (Value_thrown JNull)) False, Enter ''1''] new_terminal in
      tm_evals t = tm_evals (ran ?p [Enter ''throw null''] new_terminal)
      \<and> list_all (\<lambda>r. re_status r = Queued) (drop (length (tm_evals t)) (tm_history t))
      \<and> map re_src (tm_history t) = [''throw null'', ''1'']"
    by simp
  moreover have "length (tm_evals (ran ?p [Enter ''throw null''] new_terminal)) = 1" by code_simp
  ultimately show ?thesis
    by (auto simp: Let_def list_all_length dest!: arg_cong [where f = length] spec [where x = 0])
qed

text \<open>What is left to do: the commands not evaluated yet and the one that is.\<close>

definition left :: "terminal \<Rightarrow> nat" where
  "left t = length (tm_history t) - length (tm_evals t) + (if tm_running t then 1 else 0)"

lemma left_runNext: "idle_inv s \<Longrightarrow> left (runNext s) \<le> length (tm_history s) - length (tm_evals s)"
proof -
  assume s: "idle_inv s"
  have q: "next_queued (tm_history s) = (if length (tm_evals s) < length (tm_history s) then Some (length (tm_evals s)) else None)"
    using s by (intro next_queued_first) (auto simp: idle_inv_def Let_def)
  show ?thesis using s by (auto simp: left_def runNext_def q idle_inv_def Let_def)
qed

lemma pending_runNext: "idle_inv s \<Longrightarrow> tm_running (runNext s) \<Longrightarrow> tm_pending (runNext s) \<noteq> None"
  by (auto simp: runNext_def idle_inv_def Let_def split: option.splits)

lemma settle_back:
  assumes "tm_inv t" and "tm_pending t = Some i" and "usable outcome"
  shows "back_to_idle t (settle stringify outcome used t)"
proof -
  have err: "thrown_text (Error_thrown e) = Inr (err_message e)" for e by (simp add: thrown_text_def)
  note rules = run_done_back [OF assms(1,2)] run_failed_back [OF assms(1,2)]
  show ?thesis
  proof (cases outcome)
    case (Inl e)
    then obtain m where "thrown_text e = Inr m" using assms(3) by (auto simp: usable_def split: sum.splits)
    then show ?thesis using rules(2) [of "tm_refResults t", OF _ \<open>thrown_text e = Inr m\<close>] assms(2) Inl
      by (simp add: settle_def)
  next
    case (Inr v)
    then show ?thesis using assms(2)
      by (auto simp: settle_def Let_def err split: sum.split intro!: rules)
  qed
qed

text \<open>
  C31. A terminal that is not stuck gets through all that has been entered: as many outcomes as commands are left, none of
  them a thrown null or undefined, leave the loop idle with every command evaluated.
\<close>

theorem terminal_drains:
  assumes "tm_inv t" and "tm_running t \<longrightarrow> tm_pending t \<noteq> None"
    and "list_all (\<lambda>(outcome, used). usable outcome) outs" and "left t \<le> length outs"
  shows "let u = ran stringify (map (\<lambda>(outcome, used). Settle outcome used) outs) t in
     \<not> tm_running u \<and> tm_pending u = None \<and> length (tm_evals u) = length (tm_history t)"
  using assms
proof (induction outs arbitrary: t)
  case Nil
  then show ?case by (auto simp: ran_def left_def tm_inv_def Let_def split: if_splits)
next
  case (Cons p outs)
  obtain outcome used where p: "p = (outcome, used)" by (cases p)
  let ?v = "settle stringify outcome used t"
  show ?case
  proof (cases "tm_pending t")
    case None
    then have "?v = t" and "left t = 0" using Cons.prems by (auto simp: settle_def left_def tm_inv_def Let_def)
    then show ?thesis using Cons.IH [of t] Cons.prems p by (simp add: ran_def Let_def)
  next
    case (Some i)
    have "usable outcome" using Cons.prems(3) p by simp
    then obtain s where s: "?v = runNext s" "idle_inv s" "length (tm_history s) = length (tm_history t)"
      "tm_evals s = tm_evals t"
      using settle_back [OF Cons.prems(1) Some] unfolding back_to_idle_def by blast
    have run: "tm_running t" using Cons.prems(1) Some by (auto simp: tm_inv_def Let_def)
    have "left ?v \<le> length outs" using left_runNext [OF s(2)] s run Cons.prems(4) by (simp add: left_def)
    moreover have "length (tm_history ?v) = length (tm_history t)"
      using s srcs_runNext [of s] by (metis length_map)
    moreover have "tm_inv ?v" by (rule inv_settle [OF Cons.prems(1)])
    moreover have "tm_running ?v \<longrightarrow> tm_pending ?v \<noteq> None" using s(1) pending_runNext [OF s(2)] by simp
    ultimately show ?thesis
      using Cons.IH [of ?v] Cons.prems(3) p by (simp add: ran_def Let_def)
  qed
qed

theorem terminal_drains_witness:
  "let u = ran (\<lambda>v n. Inr []) [Settle (Inr (V_js JNull)) False, Settle (Inl (Error_thrown (Err_Error ''no''))) False]
      (ran (\<lambda>v n. Inr []) [Enter ''f()'', Enter ''g()''] new_terminal)
   in \<not> tm_running u \<and> tm_pending u = None \<and> length (tm_evals u) = 2"
proof -
  let ?p = "\<lambda>(v::gval) (n::nat). Inr [] :: err + string"
  define t where "t = ran ?p [Enter ''f()'', Enter ''g()''] new_terminal"
  have "tm_running t \<longrightarrow> tm_pending t \<noteq> None" and n: "length (tm_history t) = 2" and "left t = 2"
    unfolding t_def by code_simp+
  moreover have "tm_inv t" unfolding t_def by (rule inv_ran [OF tm_inv_new])
  moreover have "list_all (\<lambda>(outcome, used). usable outcome)
      [(Inr (V_js JNull), False), (Inl (Error_thrown (Err_Error ''no'')), False)]"
    by code_simp
  ultimately show ?thesis
    using terminal_drains [of t "[(Inr (V_js JNull), False), (Inl (Error_thrown (Err_Error ''no'')), False)]" ?p]
    unfolding t_def [symmetric] by simp
qed

section \<open>The history of the input line\<close>

text \<open>
  The text area with its selection, \<open>historyIdx\<close>, and the copy of the history in which the user moves and
  edits; the keys read the sources of the entries, \<open>hs\<close>.
\<close>

record input_line =
  il_value :: string
  il_start :: nat
  il_end :: nat
  il_idx :: int
  il_clone :: "string list option"

definition newline :: char where "newline = CHR 0x0A"

definition select_at :: "nat \<Rightarrow> string \<Rightarrow> input_line \<Rightarrow> input_line" where
  "select_at k v l = l\<lparr>il_value := v, il_start := k, il_end := k\<rparr>"

text \<open>\<open>historyClone[historyClone.length - 1 - historyIdx]\<close>\<close>

definition clone_at :: "string list \<Rightarrow> int \<Rightarrow> nat" where
  "clone_at c i = nat (int (length c) - 1 - i)"

definition keep_edit :: "string list \<Rightarrow> input_line \<Rightarrow> string list" where
  "keep_edit c l = c[clone_at c (il_idx l) := il_value l]"

definition first_line_end :: "string \<Rightarrow> nat" where
  "first_line_end v = length (takeWhile (\<lambda>x. x \<noteq> newline) v)"

definition arrow_up :: "string list \<Rightarrow> input_line \<Rightarrow> input_line" where
  "arrow_up hs l =
     (if newline \<in> set (take (il_start l) (il_value l)) \<or> hs = [] then l
      else
        let (c, i) = (if il_idx l = -1 then (hs @ [il_value l], 1)
                      else (let c = keep_edit (or_else (il_clone l) []) l in (c, min (il_idx l + 1) (int (length c) - 1))));
            v = c ! clone_at c i
        in select_at (first_line_end v) v (l\<lparr>il_clone := Some c, il_idx := i\<rparr>))"

definition arrow_down :: "string list \<Rightarrow> input_line \<Rightarrow> input_line" where
  "arrow_down hs l =
     (if newline \<in> set (drop (il_end l) (il_value l)) then l
      else if il_idx l = -1 then (if hs = [] then l else l\<lparr>il_clone := Some (hs @ [il_value l])\<rparr>)
      else
        let c = keep_edit (or_else (il_clone l) []) l; l1 = l\<lparr>il_clone := Some c\<rparr>
        in if il_idx l = 0 then l1
           else let i = il_idx l - 1; v = c ! clone_at c i
                in select_at (length v) v (l1\<lparr>il_idx := i\<rparr>))"

text \<open>Enter: the command, trimmed, if there is one.\<close>

definition press_enter :: "input_line \<Rightarrow> input_line \<times> string option" where
  "press_enter l =
     (let src = trim (il_value l) in
      if src = [] then (l, None)
      else (\<lparr>il_value = [], il_start = 0, il_end = 0, il_idx = -1, il_clone = None\<rparr>, Some src))"

datatype key = Up | Down | Return | Typed string nat nat

text \<open>A key, with the queue behind the input line.\<close>

fun press :: "key \<Rightarrow> input_line \<times> terminal \<Rightarrow> input_line \<times> terminal" where
  "press Up (l, t) = (arrow_up (map re_src (tm_history t)) l, t)"
| "press Down (l, t) = (arrow_down (map re_src (tm_history t)) l, t)"
| "press Return (l, t) = (case press_enter l of (l', None) \<Rightarrow> (l', t) | (l', Some src) \<Rightarrow> (l', enqueue_command src t))"
| "press (Typed v a b) (l, t) = (l\<lparr>il_value := v, il_start := a, il_end := b\<rparr>, t)"

text \<open>The position is a valid index of the copy of the history whenever it is used.\<close>

definition line_ok :: "input_line \<Rightarrow> bool" where
  "line_ok l \<longleftrightarrow> il_idx l = -1 \<or> (0 \<le> il_idx l \<and> il_idx l < int (length (or_else (il_clone l) [])))"

definition new_line :: input_line where
  "new_line = \<lparr>il_value = [], il_start = 0, il_end = 0, il_idx = -1, il_clone = None\<rparr>"

lemma line_ok_press: "line_ok l \<Longrightarrow> line_ok (fst (press k (l, t)))"
  by (cases k)
    (auto simp: line_ok_def arrow_up_def arrow_down_def press_enter_def select_at_def keep_edit_def Let_def
      or_else_def min_def split: option.splits)

text \<open>
  Whatever keys are pressed, the position in the history stays within the copy it indexes, so the element that
  the arrow keys read and overwrite exists.
\<close>

theorem history_index_in_range:
  "let l = fst (fold press ks (new_line, t)) in
     il_idx l = -1 \<or> (0 \<le> il_idx l \<and> clone_at (or_else (il_clone l) []) (il_idx l) < length (or_else (il_clone l) []))"
proof -
  have "line_ok (fst (fold press ks (l, t)))" if "line_ok l" for l
    using that
  proof (induction ks arbitrary: l t)
    case (Cons k ks)
    obtain l' t' where "press k (l, t) = (l', t')" by (cases "press k (l, t)")
    then show ?case using Cons.IH [of l' t'] line_ok_press [OF Cons.prems, of k t] by simp
  qed simp
  then have "line_ok (fst (fold press ks (new_line, t)))" by (simp add: line_ok_def new_line_def)
  then show ?thesis by (auto simp: line_ok_def clone_at_def Let_def)
qed

text \<open>The line \<open>k\<close> steps up in the history \<open>hs\<close> from the draft \<open>d\<close>.\<close>

definition at_step :: "string list \<Rightarrow> string \<Rightarrow> nat \<Rightarrow> input_line \<Rightarrow> bool" where
  "at_step hs d k l \<longleftrightarrow> il_value l = (hs @ [d]) ! (length hs - k) \<and> il_idx l = int k \<and> il_clone l = Some (hs @ [d])
     \<and> k \<le> length hs"

lemma plain_at: "list_all (\<lambda>v. newline \<notin> set v) (hs @ [d]) \<Longrightarrow> newline \<notin> set ((hs @ [d]) ! (length hs - k))"
  by (simp add: list_all_length)

lemma clone_index: "clone_at (hs @ [d]) (int k) = length hs - k"
  by (simp add: clone_at_def)

lemma keep_same: "at_step hs d k l \<Longrightarrow> keep_edit (hs @ [d]) l = hs @ [d]"
  by (simp add: keep_edit_def at_step_def clone_index)

lemma up_first:
  assumes "il_idx l = -1" and "newline \<notin> set (il_value l)" and "hs \<noteq> []"
  shows "at_step hs (il_value l) (Suc 0) (arrow_up hs l)"
  using assms clone_index [of hs "il_value l" 1]
  by (auto simp: arrow_up_def at_step_def select_at_def Suc_le_eq Let_def dest: in_set_takeD)

lemma up_step:
  assumes "at_step hs d k l" and "k < length hs" and "list_all (\<lambda>v. newline \<notin> set v) (hs @ [d])"
  shows "at_step hs d (Suc k) (arrow_up hs l)"
proof -
  have "newline \<notin> set (take n (il_value l))" for n
    using plain_at [OF assms(3), of k] assms(1) by (auto simp: at_step_def dest: in_set_takeD)
  moreover have "min (il_idx l + 1) (int (length (hs @ [d])) - 1) = int (Suc k)" using assms(1,2) by (simp add: at_step_def)
  moreover have "il_idx l \<noteq> -1" "hs \<noteq> []" "il_clone l = Some (hs @ [d])" using assms(1,2) by (auto simp: at_step_def)
  ultimately show ?thesis
    using keep_same [OF assms(1)] clone_index [of hs d "Suc k"] assms(2)
    by (simp add: arrow_up_def Let_def or_else_def at_step_def select_at_def)
qed

lemma down_step:
  assumes "at_step hs d (Suc k) l" and "list_all (\<lambda>v. newline \<notin> set v) (hs @ [d])"
  shows "at_step hs d k (arrow_down hs l)"
proof -
  have "newline \<notin> set (drop n (il_value l))" for n
    using plain_at [OF assms(2), of "Suc k"] assms(1) by (auto simp: at_step_def dest: in_set_dropD)
  moreover have "il_idx l - 1 = int k" "il_idx l \<noteq> -1" "il_idx l \<noteq> 0" "il_clone l = Some (hs @ [d])"
    using assms(1) by (auto simp: at_step_def)
  ultimately show ?thesis
    using keep_same [OF assms(1)] clone_index [of hs d k] assms(1)
    by (simp add: arrow_down_def Let_def or_else_def at_step_def select_at_def)
qed

text \<open>
  With commands and a draft of one line each, pressing Up \<open>k\<close> times shows the \<open>k\<close>-th last command, and
  pressing Down \<open>k\<close> times after that brings back the draft.
\<close>

theorem history_round_trip:
  assumes "il_idx l = -1" and "list_all (\<lambda>v. newline \<notin> set v) (hs @ [il_value l])" and "0 < k" and "k \<le> length hs"
  shows "il_value ((arrow_up hs ^^ k) l) = hs ! (length hs - k)
    \<and> il_value ((arrow_down hs ^^ k) ((arrow_up hs ^^ k) l)) = il_value l"
proof -
  have up: "0 < j \<Longrightarrow> j \<le> length hs \<Longrightarrow> at_step hs (il_value l) j ((arrow_up hs ^^ j) l)" for j
  proof (induction j)
    case (Suc j)
    show ?case
    proof (cases "j = 0")
      case True
      have "hs \<noteq> []" using assms(3,4) by auto
      then show ?thesis using up_first [OF assms(1), of hs] assms(2) True by simp
    next
      case False
      then show ?thesis using Suc up_step [OF _ _ assms(2)] by simp
    qed
  qed simp
  have down: "at_step hs (il_value l) (i + j) m \<Longrightarrow> at_step hs (il_value l) j ((arrow_down hs ^^ i) m)" for i j m
  proof (induction i arbitrary: j)
    case (Suc i)
    then show ?case using down_step [OF _ assms(2)] by simp
  qed simp
  have "at_step hs (il_value l) 0 ((arrow_down hs ^^ k) ((arrow_up hs ^^ k) l))"
    by (rule down) (use up assms(3,4) in simp)
  then show ?thesis using up [OF assms(3,4)] assms(3,4) by (auto simp: at_step_def nth_append)
qed

theorem history_round_trip_witness:
  "let l = new_line\<lparr>il_value := ''dra''\<rparr>; hs = [''ls()'', ''1 + 1''] in
     il_value ((arrow_up hs ^^ 2) l) = ''ls()'' \<and> il_value ((arrow_down hs ^^ 2) ((arrow_up hs ^^ 2) l)) = ''dra''"
  using history_round_trip [of "new_line\<lparr>il_value := ''dra''\<rparr>" "[''ls()'', ''1 + 1'']" 2]
  by (simp add: new_line_def newline_def Let_def)

end
