(* ===== verification/Jq_Terminal.thy ===== *)
theory Jq_Terminal
  imports Terminal
begin

text \<open>
  The console built on jquery.terminal (jqterminal/terminal.js): how values are printed, the scope of the commands,
  evaluation as an expression or as statements, numbered results and completion.

  The window is the list of its enumerable properties.

  Compiling a text is an argument: it gives a syntax error or a program over the scope. A value can be printed only to
  three levels, so that it is a tree here; a promise inside another value is an object without keys. \<open>esc\<close> is
  \<open>escape_brackets\<close> of the terminal package.
\<close>

section \<open>Printing a value\<close>

datatype cval =
    CUndef
  | CNull
  | CBool bool
  | CNum int
  | CStr string
  | CFun string
  | CArr "cval list"
  | CObj "(string \<times> cval) list"

definition grey :: "string \<Rightarrow> string" where
  "grey t = ''[[;#6b7080;]'' @ t @ '']''"

definition dots :: string where "dots = [CHR 0xE2, CHR 0x80, CHR 0xA6]"
definition hook_f :: string where "hook_f = [CHR 0xC6, CHR 0x92]"
definition left_arrow :: string where "left_arrow = [CHR 0xE2, CHR 0x86, CHR 0x90]"

definition pad :: "nat \<Rightarrow> string" where
  "pad n = concat (replicate n ''  '')"

definition arr_preview :: "nat \<Rightarrow> string" where
  "arr_preview n = ''['' @ nat_str n @ '' item'' @ (if n > 1 then ''s'' else []) @ '']''"

definition obj_preview :: "string list \<Rightarrow> string" where
  "obj_preview ks = ''{'' @ js_join '', '' (take 3 ks) @ (if length ks > 3 then '', '' @ dots else []) @ ''}''"

text \<open>A comma after every entry but the last.\<close>

fun with_commas :: "string list \<Rightarrow> string list" where
  "with_commas [] = []"
| "with_commas [x] = [x]"
| "with_commas (x # y # ys) = (x @ '','') # with_commas (y # ys)"

definition block_text :: "nat \<Rightarrow> string \<Rightarrow> string \<Rightarrow> string list \<Rightarrow> string" where
  "block_text depth ob cb parts =
     js_join [CHR 0x0A] (ob # with_commas (map (\<lambda>e. pad (depth + 1) @ e) parts) @ [pad depth @ cb])"

fun prettyFormat :: "(string \<Rightarrow> string) \<Rightarrow> nat \<Rightarrow> cval \<Rightarrow> string" where
  "prettyFormat esc depth CUndef = grey ''undefined''"
| "prettyFormat esc depth CNull = grey ''null''"
| "prettyFormat esc depth (CStr s) = ''[[;#7ec8a0;]'' @ esc (json_quote s) @ '']''"
| "prettyFormat esc depth (CNum n) = ''[[;#d4b866;]'' @ int_str n @ '']''"
| "prettyFormat esc depth (CBool b) = ''[[;#a07ec8;]'' @ (if b then ''true'' else ''false'') @ '']''"
| "prettyFormat esc depth (CFun name) = ''[[i;#6b7080;][Function: '' @ (if name = [] then hook_f else name) @ '']]''"
| "prettyFormat esc depth (CArr vs) =
     (if vs = [] then grey ''[]''
      else if depth \<ge> 2 then grey (esc (arr_preview (length vs)))
      else block_text depth ''['' '']'' (map (prettyFormat esc (depth + 1)) vs))"
| "prettyFormat esc depth (CObj kvs) =
     (if kvs = [] then grey ''{}''
      else if depth \<ge> 2 then grey (esc (obj_preview (map fst kvs)))
      else block_text depth ''{'' ''}''
        (map (\<lambda>(k, v). ''[[;#5bc8c8;]'' @ k @ '']: '' @ prettyFormat esc (depth + 1) v) kvs))"

text \<open>The first \<open>n\<close> levels of a value: below them only the number of items and the keys are left.\<close>

fun levels :: "nat \<Rightarrow> cval \<Rightarrow> cval" where
  "levels n (CArr vs) = CArr (map (\<lambda>v. case n of 0 \<Rightarrow> CUndef | Suc m \<Rightarrow> levels m v) vs)"
| "levels n (CObj kvs) = CObj (map (\<lambda>(k, v). (k, case n of 0 \<Rightarrow> CUndef | Suc m \<Rightarrow> levels m v)) kvs)"
| "levels n v = v"

text \<open>
  Printing looks at three levels only, so that it ends on a value that contains itself: what is below the third
  level makes no difference but for the number of items and the first keys.
\<close>

theorem pretty_looks_three_deep:
  "prettyFormat esc depth (levels (2 - depth) v) = prettyFormat esc depth v"
proof (induction v arbitrary: depth)
  case (CArr vs)
  show ?case
  proof (cases "depth < 2")
    case True
    then have d: "2 - depth = Suc (2 - Suc depth)" by simp
    have "prettyFormat esc (Suc depth) (levels (Suc 0 - depth) x) = prettyFormat esc (Suc depth) x" if "x \<in> set vs" for x
      using CArr [OF that, of "Suc depth"] by simp
    then show ?thesis using True by (simp add: d comp_def cong: map_cong)
  qed (simp add: comp_def)
next
  case (CObj kvs)
  show ?case
  proof (cases "depth < 2")
    case True
    then have d: "2 - depth = Suc (2 - Suc depth)" by simp
    have "prettyFormat esc (Suc depth) (levels (Suc 0 - depth) (snd kv)) = prettyFormat esc (Suc depth) (snd kv)"
      if "kv \<in> set kvs" for kv
      using CObj [of kv "snd kv" "Suc depth"] that by (cases kv) simp
    then show ?thesis using True by (simp add: d comp_def case_prod_beta cong: map_cong)
  qed (simp add: comp_def case_prod_beta)
qed simp_all

section \<open>The scope\<close>

text \<open>
  An own property of the store is a value, or the array of the results itself. \<open>Object.assign\<close> reads the getters of its
  source once: it copies the array, and as the last result the value \<open>results[-1]\<close>, which is undefined.
\<close>

datatype sval = SVal cval | SResults

record jscope =
  js_store :: "(string \<times> sval) list"
  js_window :: "(string \<times> cval) list"
  js_results :: "cval list"

definition initial_store :: "cval \<Rightarrow> cval \<Rightarrow> cval \<Rightarrow> (string \<times> sval) list" where
  "initial_store fs shell gwm =
     [(''fs'', SVal fs), (''shell'', SVal shell), (''gwm'', SVal gwm), (''$'', SResults), (''$$'', SVal CUndef)]"

definition new_scope :: "cval \<Rightarrow> cval \<Rightarrow> cval \<Rightarrow> (string \<times> cval) list \<Rightarrow> jscope" where
  "new_scope fs shell gwm window = \<lparr>js_store = initial_store fs shell gwm, js_window = window, js_results = []\<rparr>"

text \<open>The handlers \<open>get\<close> and \<open>set\<close> of the proxy.\<close>

definition scope_get :: "string \<Rightarrow> jscope \<Rightarrow> cval" where
  "scope_get k s =
     (case map_get (js_store s) k of
        Some (SVal v) \<Rightarrow> v
      | Some SResults \<Rightarrow> CArr (js_results s)
      | None \<Rightarrow> or_else (map_get (js_window s) k) CUndef)"

definition scope_set :: "string \<Rightarrow> cval \<Rightarrow> jscope \<Rightarrow> jscope" where
  "scope_set k v s = s\<lparr>js_store := map_set k (SVal v) (js_store s)\<rparr>"

section \<open>Evaluation\<close>

text \<open>A result is a value or a promise: what awaiting it does and gives.\<close>

datatype jresult = Now cval | Later "jscope \<Rightarrow> (thrown + cval) \<times> jscope"

type_synonym jprog = "jscope \<Rightarrow> (thrown + jresult) \<times> jscope"

definition as_expression :: "string \<Rightarrow> string" where
  "as_expression code = ''with(__s__) { return ('' @ code @ '') }''"

definition as_statements :: "string \<Rightarrow> string" where
  "as_statements code = ''with(__s__) { '' @ code @ '' }''"

fun is_syntax_error :: "thrown \<Rightarrow> bool" where
  "is_syntax_error (Error_thrown (Err_Syntax m)) = True"
| "is_syntax_error e = False"

definition run_text :: "(string \<Rightarrow> err + jprog) \<Rightarrow> string \<Rightarrow> jprog" where
  "run_text compile t = (case compile t of Inl e \<Rightarrow> (\<lambda>s. (Inl (Error_thrown e), s)) | Inr p \<Rightarrow> p)"

text \<open>What a command adds to the window moves into the store.\<close>

definition adopt :: "string list \<Rightarrow> jscope \<Rightarrow> jscope" where
  "adopt before s =
     s\<lparr>js_store := fold (\<lambda>(k, v) st. if k \<in> set before then st else map_set k (SVal v) st) (js_window s) (js_store s)\<rparr>"

definition evalInContext :: "(string \<Rightarrow> err + jprog) \<Rightarrow> string \<Rightarrow> jprog" where
  "evalInContext compile code s =
     (let before = map fst (js_window s) in
      case run_text compile (as_expression code) s of
        (Inr r, s1) \<Rightarrow> (Inr r, adopt before s1)
      | (Inl e, s1) \<Rightarrow>
          (if \<not> is_syntax_error e then (Inl e, s1)
           else case run_text compile (as_statements code) s1 of
             (Inl e2, s2) \<Rightarrow> (Inl e2, s2)
           | (Inr _, s2) \<Rightarrow> (Inr (Now CUndef), adopt before s2)))"

section \<open>The console\<close>

datatype echo = Echo string | Echo_error string

record console =
  cs_scope :: jscope
  cs_out :: "echo list"
  cs_paused :: bool

definition new_console :: "cval \<Rightarrow> cval \<Rightarrow> cval \<Rightarrow> (string \<times> cval) list \<Rightarrow> console" where
  "new_console fs shell gwm window = \<lparr>cs_scope = new_scope fs shell gwm window, cs_out = [], cs_paused = False\<rparr>"

definition result_line :: "(string \<Rightarrow> string) \<Rightarrow> nat \<Rightarrow> cval \<Rightarrow> string" where
  "result_line esc i v = ''[[;#3d4150;]'' @ left_arrow @ '' $'' @ nat_str i @ '']  '' @ prettyFormat esc 0 v"

definition pause :: "console \<Rightarrow> console" where "pause c = c\<lparr>cs_paused := True\<rparr>"
definition resume :: "console \<Rightarrow> console" where "resume c = c\<lparr>cs_paused := False\<rparr>"

definition settled :: "jresult \<Rightarrow> console \<Rightarrow> (thrown + cval) \<times> console" where
  "settled r c =
     (case r of
        Now v \<Rightarrow> (Inr v, c)
      | Later m \<Rightarrow> (case m (cs_scope c) of (x, s) \<Rightarrow> (x, resume ((pause c)\<lparr>cs_scope := s\<rparr>))))"

definition keep_result :: "(string \<Rightarrow> string) \<Rightarrow> cval \<Rightarrow> console \<Rightarrow> console" where
  "keep_result esc v c =
     (if v = CUndef then c
      else c\<lparr>cs_scope := (cs_scope c)\<lparr>js_results := js_results (cs_scope c) @ [v]\<rparr>,
             cs_out := cs_out c @ [Echo (result_line esc (length (js_results (cs_scope c))) v)]\<rparr>)"

text \<open>What the handler itself throws, from a thrown null or undefined, goes to the terminal package.\<close>

definition show_error :: "thrown \<Rightarrow> console \<Rightarrow> (err + unit) \<times> console" where
  "show_error e c =
     (case thrown_text e of
        Inl x \<Rightarrow> (Inl x, c)
      | Inr m \<Rightarrow> (Inr (), c\<lparr>cs_out := cs_out c @ [Echo_error m]\<rparr>))"

definition on_command :: "(string \<Rightarrow> string) \<Rightarrow> (string \<Rightarrow> err + jprog) \<Rightarrow> string \<Rightarrow> console \<Rightarrow> (err + unit) \<times> console" where
  "on_command esc compile code c =
     (if trim code = [] then (Inr (), c)
      else case evalInContext compile code (cs_scope c) of
        (Inl e, s) \<Rightarrow> show_error e (c\<lparr>cs_scope := s\<rparr>)
      | (Inr r, s) \<Rightarrow>
          (case settled r (c\<lparr>cs_scope := s\<rparr>) of
             (Inl e, c1) \<Rightarrow> show_error e c1
           | (Inr v, c1) \<Rightarrow> (Inr (), keep_result esc v c1)))"

section \<open>Completion\<close>

text \<open>
  \<open>props_of\<close> are the names of the properties of a value and of its prototypes, once each; None for null and undefined.
  The list given back, and the scope after it: the part before the last dot is evaluated.
\<close>

definition all_keys :: "jscope \<Rightarrow> string list" where
  "all_keys s = rev (remdups (rev (map fst (js_store s) @ filter (\<lambda>k. length k > 1) (map fst (js_window s)))))"

definition object_path :: "string \<Rightarrow> (string \<times> string) option" where
  "object_path str =
     (let ps = js_split (CHR ''.'') str in
      if length ps < 2 then None else Some (js_join ''.'' (butlast ps), last ps))"

definition completion :: "(jresult \<Rightarrow> string list option) \<Rightarrow> (string \<Rightarrow> err + jprog) \<Rightarrow> string \<Rightarrow> jscope \<Rightarrow> string list \<times> jscope" where
  "completion props_of compile str s =
     (let plain = filter (starts_with str) (all_keys s) in
      case object_path str of
        None \<Rightarrow> (plain, s)
      | Some (objPath, pre) \<Rightarrow>
          (case evalInContext compile objPath s of
             (Inl e, s1) \<Rightarrow> (plain, s1)
           | (Inr r, s1) \<Rightarrow>
               (case props_of r of
                  None \<Rightarrow> (plain, s1)
                | Some ks \<Rightarrow> (map (\<lambda>k. objPath @ ''.'' @ k) (filter (starts_with pre) ks), s1))))"

section \<open>What the console keeps\<close>

text \<open>A program that leaves the results alone, also when it is awaited.\<close>

definition leaves_results :: "(string \<Rightarrow> err + jprog) \<Rightarrow> bool" where
  "leaves_results compile \<longleftrightarrow>
     (\<forall>t p s r s'. compile t = Inr p \<and> p s = (r, s') \<longrightarrow> js_results s' = js_results s
        \<and> (\<forall>m u. r = Inr (Later m) \<longrightarrow> js_results (snd (m u)) = js_results u))"

definition commands_run :: "(string \<Rightarrow> string) \<Rightarrow> (string \<Rightarrow> err + jprog) \<Rightarrow> string list \<Rightarrow> console \<Rightarrow> console" where
  "commands_run esc compile codes c = fold (\<lambda>code c. snd (on_command esc compile code c)) codes c"

definition echoes :: "echo list \<Rightarrow> string list" where
  "echoes es = concat (map (\<lambda>x. case x of Echo t \<Rightarrow> [t] | Echo_error m \<Rightarrow> []) es)"

definition numbered :: "(string \<Rightarrow> string) \<Rightarrow> console \<Rightarrow> bool" where
  "numbered esc c \<longleftrightarrow>
     echoes (cs_out c) = map (\<lambda>(i, v). result_line esc i v) (List.enumerate 0 (js_results (cs_scope c)))"

lemma adopt_results [simp]: "js_results (adopt before s) = js_results s"
  by (simp add: adopt_def)

lemma run_text_results:
  "leaves_results compile \<Longrightarrow> run_text compile t s = (r, s')
    \<Longrightarrow> js_results s' = js_results s \<and> (\<forall>m u. r = Inr (Later m) \<longrightarrow> js_results (snd (m u)) = js_results u)"
  unfolding leaves_results_def run_text_def by (cases "compile t") auto

lemma eval_results:
  assumes "leaves_results compile" and "evalInContext compile code s = (r, s')"
  shows "js_results s' = js_results s \<and> (\<forall>m u. r = Inr (Later m) \<longrightarrow> js_results (snd (m u)) = js_results u)"
proof -
  obtain r1 s1 where 1: "run_text compile (as_expression code) s = (r1, s1)" by fastforce
  obtain r2 s2 where 2: "run_text compile (as_statements code) s1 = (r2, s2)" by fastforce
  show ?thesis using assms(2) run_text_results [OF assms(1) 1] run_text_results [OF assms(1) 2]
    by (auto simp: evalInContext_def 1 2 Let_def split: sum.splits if_splits)
qed

lemma show_error_scope:
  "cs_scope (snd (show_error e c)) = cs_scope c" "echoes (cs_out (snd (show_error e c))) = echoes (cs_out c)"
  by (simp_all add: show_error_def echoes_def split: sum.split)

lemma numbered_step:
  assumes "leaves_results compile" and "numbered esc c"
  shows "numbered esc (snd (on_command esc compile code c))"
proof (cases "trim code = []")
  case False
  obtain r s where ev: "evalInContext compile code (cs_scope c) = (r, s)" by fastforce
  note res = eval_results [OF assms(1) ev]
  have later: "js_results u' = js_results u" if "r = Inr (Later m)" "m u = (y, u')" for m u y u'
    using res that by (metis snd_conv)
  show ?thesis
  proof (cases r)
    case (Inl e)
    then show ?thesis using False ev res assms(2) by (simp add: on_command_def numbered_def show_error_scope)
  next
    case (Inr q)
    obtain x c1 where st: "settled q (c\<lparr>cs_scope := s\<rparr>) = (x, c1)" by fastforce
    have "js_results (cs_scope c1) = js_results (cs_scope c)" and "cs_out c1 = cs_out c"
      using st conjunct1 [OF res] Inr later by (auto simp: settled_def resume_def pause_def split: jresult.splits prod.splits)
    then have n1: "numbered esc c1" using assms(2) by (simp add: numbered_def)
    show ?thesis
    proof (cases x)
      case (Inl e)
      then show ?thesis using False ev Inr st n1 by (simp add: on_command_def numbered_def show_error_scope)
    next
      case (Inr v)
      have "numbered esc (keep_result esc v c1)"
        using n1 by (simp add: keep_result_def numbered_def echoes_def enumerate_append_eq)
      then show ?thesis using False ev \<open>r = Inr q\<close> st Inr by (simp add: on_command_def)
    qed
  qed
qed (use assms(2) in \<open>simp add: on_command_def\<close>)

text \<open>
  The number printed with a result is its index: \<open>$\<close> is the array of the results itself, so \<open>$[i]\<close> is what was
  printed under that number, as long as no command changes the array.
\<close>

theorem results_numbered:
  assumes "leaves_results compile"
  shows "numbered esc (commands_run esc compile codes (new_console fs shell gwm window))"
proof -
  have "numbered esc c \<Longrightarrow> numbered esc (commands_run esc compile codes c)" for c
    unfolding commands_run_def by (induction codes arbitrary: c) (simp_all add: numbered_step [OF assms])
  then show ?thesis by (simp add: numbered_def new_console_def new_scope_def echoes_def)
qed

text \<open>
  The name \<open>$$\<close>, which the help calls the last result, is undefined from the start: the getter was read once,
  when there was no result yet.
\<close>

definition three :: "string \<Rightarrow> err + jprog" where
  "three t = (if t = as_expression ''3'' then Inr (\<lambda>s. (Inr (Now (CNum 3)), s))
     else if t = as_expression ''$$'' then Inr (\<lambda>s. (Inr (Now (scope_get ''$$'' s)), s))
     else if t = as_expression ''$'' then Inr (\<lambda>s. (Inr (Now (scope_get ''$'' s)), s)) else Inl (Err_Syntax ''Unexpected token''))"

theorem last_result_never_there:
  "scope_get ''$$'' (cs_scope (commands_run id three [''3''] (new_console CNull CNull CNull []))) = CUndef
   \<and> scope_get ''$'' (cs_scope (commands_run id three [''3''] (new_console CNull CNull CNull []))) = CArr [CNum 3]
   \<and> cs_out (commands_run id three [''3'', ''$$''] (new_console CNull CNull CNull []))
       = cs_out (commands_run id three [''3''] (new_console CNull CNull CNull []))"
  by code_simp

text \<open>
  A syntax error that an expression throws while it runs, as \<open>JSON.parse\<close> does, is taken for one of compiling it:
  the command runs a second time, as statements, with what the first run has done still done.
\<close>

theorem runtime_syntax_error_runs_again:
  assumes "compile (as_expression code) = Inr p" and "p s = (Inl (Error_thrown (Err_Syntax m)), s1)"
    and "compile (as_statements code) = Inr q"
  shows "fst (evalInContext compile code s) = (case q s1 of (Inl e, _) \<Rightarrow> Inl e | (Inr _, _) \<Rightarrow> Inr (Now CUndef))"
    and "js_results (snd (evalInContext compile code s)) = js_results (snd (q s1))"
  using assms by (auto simp: evalInContext_def run_text_def split: sum.split prod.split)

text \<open>Asking for completions behind a dot evaluates what is before it, with its effects.\<close>

theorem completion_evaluates:
  assumes "object_path str = Some (objPath, pre)"
  shows "snd (completion props_of compile str s) = snd (evalInContext compile objPath s)"
  using assms by (cases "evalInContext compile objPath s") (auto simp: completion_def Let_def split: sum.split option.split)

end
