(* ===== verification/Overlay.thy ===== *)
theory Overlay
  imports Contracts
begin

text \<open>
  gimbal/overlay.js, the overlay window manager: the list of widget instances of which one is shown, the window they
  are shown in, and the mouse gestures that move and resize it. Opening a widget awaits its constructor, so it is two
  steps with others possibly in between. Pixels are integers; markup and styles are left out.
\<close>

section \<open>State\<close>

datatype icon = Named string | Svg string

text \<open>The \<open>decoration\<close> of an instance; an entry is known by the number its opening had.\<close>

record decoration =
  dec_title :: "string option"
  dec_icon :: "icon option"
  dec_dirty :: bool

record entry =
  en_id :: nat
  en_name :: string
  en_icon :: icon
  en_visible :: bool
  en_dec :: "decoration option"

record overlay =
  ov_built :: bool                          \<comment> \<open>\<open>_overlayEl\<close> exists\<close>
  ov_mounted :: bool                        \<comment> \<open>it is in the document\<close>
  ov_body :: "nat option"                   \<comment> \<open>the entry whose element is in the body\<close>
  ov_title :: "string \<times> icon \<times> bool"       \<comment> \<open>name, icon and dirty mark shown\<close>
  ov_instances :: "entry list"
  ov_opening :: "(nat \<times> string \<times> icon) list" \<comment> \<open>constructors awaited\<close>
  ov_opens :: nat
  ov_destroyed :: "nat list"
  ov_size :: "int \<times> int"
  ov_right :: "int option"
  ov_bottom :: "int option"

definition MIN_W :: int where "MIN_W = 320"
definition MIN_H :: int where "MIN_H = 200"
definition DEFAULT_W :: int where "DEFAULT_W = 600"
definition DEFAULT_H :: int where "DEFAULT_H = 400"
definition EDGE_OFFSET :: int where "EDGE_OFFSET = 16"

definition new_overlay :: overlay where
  "new_overlay =
     \<lparr>ov_built = False, ov_mounted = False, ov_body = None, ov_title = ([], Named ''gterm'', False), ov_instances = [],
      ov_opening = [], ov_opens = 0, ov_destroyed = [], ov_size = (DEFAULT_W, DEFAULT_H), ov_right = None, ov_bottom = None\<rparr>"

definition ensureDOM :: "overlay \<Rightarrow> overlay" where
  "ensureDOM o' = o'\<lparr>ov_built := True\<rparr>"

section \<open>The instances\<close>

definition currentVisible :: "overlay \<Rightarrow> entry option" where
  "currentVisible o' = find en_visible (ov_instances o')"

definition dec_of :: "entry \<Rightarrow> decoration" where
  "dec_of en = or_else (en_dec en) \<lparr>dec_title = None, dec_icon = None, dec_dirty = False\<rparr>"

definition syncDecoration :: "entry \<Rightarrow> overlay \<Rightarrow> overlay" where
  "syncDecoration en o' =
     o'\<lparr>ov_title := (or_else (dec_title (dec_of en)) (en_name en), or_else (dec_icon (dec_of en)) (en_icon en),
                     dec_dirty (dec_of en))\<rparr>"

definition attachToBody :: "entry \<Rightarrow> overlay \<Rightarrow> overlay" where
  "attachToBody en o' = syncDecoration en (o'\<lparr>ov_body := Some (en_id en)\<rparr>)"

definition update_entry :: "nat \<Rightarrow> (entry \<Rightarrow> entry) \<Rightarrow> overlay \<Rightarrow> overlay" where
  "update_entry i f o' = o'\<lparr>ov_instances := map (\<lambda>en. if en_id en = i then f en else en) (ov_instances o')\<rparr>"

text \<open>\<open>openWidget\<close> up to the constructor, and after it: with the instance's decoration, or when it threw.\<close>

definition hide_current :: "overlay \<Rightarrow> overlay" where
  "hide_current o' =
     (case currentVisible o' of
        None \<Rightarrow> o'
      | Some cur \<Rightarrow> update_entry (en_id cur) (\<lambda>en. en\<lparr>en_visible := False\<rparr>) o')"

definition openWidget :: "string \<Rightarrow> icon \<Rightarrow> overlay \<Rightarrow> overlay" where
  "openWidget name ic o' =
     (let o1 = hide_current (ensureDOM o')
      in o1\<lparr>ov_opening := ov_opening o1 @ [(ov_opens o1, name, ic)], ov_opens := ov_opens o1 + 1\<rparr>)"

definition opened :: "nat \<Rightarrow> decoration option \<Rightarrow> overlay \<Rightarrow> overlay" where
  "opened i dec o' =
     (case map_get (ov_opening o') i of
        None \<Rightarrow> o'
      | Some (name, ic) \<Rightarrow>
          (let en = \<lparr>en_id = i, en_name = name, en_icon = ic, en_visible = True, en_dec = dec\<rparr>;
               o1 = o'\<lparr>ov_opening := filter (\<lambda>q. fst q \<noteq> i) (ov_opening o'), ov_instances := ov_instances o' @ [en]\<rparr>
           in (attachToBody en o1)\<lparr>ov_mounted := True\<rparr>))"

definition open_failed :: "nat \<Rightarrow> overlay \<Rightarrow> overlay" where
  "open_failed i o' = o'\<lparr>ov_opening := filter (\<lambda>q. fst q \<noteq> i) (ov_opening o')\<rparr>"

definition destroyCurrent :: "overlay \<Rightarrow> overlay" where
  "destroyCurrent o' =
     (let o1 = (case currentVisible o' of
                  None \<Rightarrow> o'
                | Some cur \<Rightarrow>
                    o'\<lparr>ov_destroyed := ov_destroyed o' @ [en_id cur],
                       ov_instances := remove1 cur (ov_instances o')\<rparr>)
      in o1\<lparr>ov_body := None, ov_mounted := False\<rparr>)"

definition hide :: "overlay \<Rightarrow> overlay" where
  "hide o' = o'\<lparr>ov_mounted := False\<rparr>"

definition show_overlay :: "overlay \<Rightarrow> overlay" where
  "show_overlay o' =
     (let o1 = ensureDOM o' in
      case currentVisible o1 of
        None \<Rightarrow> o1
      | Some cur \<Rightarrow> (attachToBody cur o1)\<lparr>ov_mounted := True\<rparr>)"

definition toggle :: "overlay \<Rightarrow> overlay" where
  "toggle o' = (if ov_mounted o' then hide o' else show_overlay o')"

section \<open>The controls of an instance\<close>

definition is_current :: "nat \<Rightarrow> overlay \<Rightarrow> bool" where
  "is_current i o' \<longleftrightarrow> (case currentVisible o' of None \<Rightarrow> False | Some cur \<Rightarrow> en_id cur = i)"

definition update_decoration :: "nat \<Rightarrow> overlay \<Rightarrow> overlay" where
  "update_decoration i o' =
     (case currentVisible o' of
        None \<Rightarrow> o'
      | Some cur \<Rightarrow> if en_id cur = i then syncDecoration cur o' else o')"

text \<open>Without a decoration of the instance the new title or mark is only shown, not kept.\<close>

definition setTitle :: "nat \<Rightarrow> string \<Rightarrow> overlay \<Rightarrow> overlay" where
  "setTitle i str o' =
     (let o1 = update_entry i (\<lambda>en. en\<lparr>en_dec := map_option (\<lambda>d. d\<lparr>dec_title := Some str\<rparr>) (en_dec en)\<rparr>) o'
      in if is_current i o1 then o1\<lparr>ov_title := (str, snd (ov_title o1))\<rparr> else o1)"

definition setDirty :: "nat \<Rightarrow> bool \<Rightarrow> overlay \<Rightarrow> overlay" where
  "setDirty i isDirty o' =
     (let o1 = update_entry i (\<lambda>en. en\<lparr>en_dec := map_option (\<lambda>d. d\<lparr>dec_dirty := isDirty\<rparr>) (en_dec en)\<rparr>) o'
      in if is_current i o1 then o1\<lparr>ov_title := (fst (ov_title o1), fst (snd (ov_title o1)), isDirty)\<rparr> else o1)"

section \<open>Moving and resizing\<close>

text \<open>\<open>parseFloat(style) || EDGE_OFFSET\<close>: a distance of zero counts as none.\<close>

definition distance :: "int option \<Rightarrow> int" where
  "distance d = (case d of None \<Rightarrow> EDGE_OFFSET | Some n \<Rightarrow> if n = 0 then EDGE_OFFSET else n)"

definition drag_move :: "int \<times> int \<Rightarrow> int \<times> int \<Rightarrow> overlay \<Rightarrow> overlay" where
  "drag_move old pt o' =
     o'\<lparr>ov_right := Some (max 0 (distance (ov_right o') - (fst pt - fst old))),
        ov_bottom := Some (max 0 (distance (ov_bottom o') - (snd pt - snd old)))\<rparr>"

text \<open>A gesture: where the mouse went down, and where it moved.\<close>

fun drag :: "int \<times> int \<Rightarrow> (int \<times> int) list \<Rightarrow> overlay \<Rightarrow> overlay" where
  "drag old [] o' = o'"
| "drag old (pt # ms) o' = drag pt ms (drag_move old pt o')"

datatype handle = Edge_left | Edge_top | Edge_topleft

definition resize_move :: "handle \<Rightarrow> int \<times> int \<Rightarrow> int \<times> int \<Rightarrow> int \<times> int \<Rightarrow> overlay \<Rightarrow> overlay" where
  "resize_move h start size0 pt o' =
     o'\<lparr>ov_size :=
       ((if h = Edge_left \<or> h = Edge_topleft then max MIN_W (fst size0 - (fst pt - fst start)) else fst (ov_size o')),
        (if h = Edge_top \<or> h = Edge_topleft then max MIN_H (snd size0 - (snd pt - snd start)) else snd (ov_size o')))\<rparr>"

definition resize :: "handle \<Rightarrow> int \<times> int \<Rightarrow> (int \<times> int) list \<Rightarrow> overlay \<Rightarrow> overlay" where
  "resize h start ms o' = fold (resize_move h start (ov_size o')) ms o'"

section \<open>Events\<close>

datatype event =
    Open string icon | Opened nat "decoration option" | Open_failed nat | Close | Hide | Show | Toggle
  | Update nat | Set_title nat string | Set_dirty nat bool
  | Drag "int \<times> int" "(int \<times> int) list" | Resize handle "int \<times> int" "(int \<times> int) list"

fun on_event :: "event \<Rightarrow> overlay \<Rightarrow> overlay" where
  "on_event (Open name ic) o' = openWidget name ic o'"
| "on_event (Opened i dec) o' = opened i dec o'"
| "on_event (Open_failed i) o' = open_failed i o'"
| "on_event Close o' = destroyCurrent o'"
| "on_event Hide o' = hide o'"
| "on_event Show o' = show_overlay o'"
| "on_event Toggle o' = toggle o'"
| "on_event (Update i) o' = update_decoration i o'"
| "on_event (Set_title i t) o' = setTitle i t o'"
| "on_event (Set_dirty i d) o' = setDirty i d o'"
| "on_event (Drag start ms) o' = drag start ms o'"
| "on_event (Resize h start ms) o' = resize h start ms o'"

text \<open>
  Which events can come when: the mouse needs a mounted window, and a constructor settles once. With \<open>apart\<close>,
  no widget is opened while another is being opened, and no constructor throws.
\<close>

definition allowed :: "bool \<Rightarrow> event \<Rightarrow> overlay \<Rightarrow> bool" where
  "allowed apart ev o' \<longleftrightarrow>
     (case ev of
        Open name ic \<Rightarrow> apart \<longrightarrow> ov_opening o' = []
      | Open_failed i \<Rightarrow> \<not> apart
      | Drag start ms \<Rightarrow> ov_mounted o'
      | Resize h start ms \<Rightarrow> ov_mounted o'
      | _ \<Rightarrow> True)"

inductive reached :: "bool \<Rightarrow> overlay \<Rightarrow> bool" for apart :: bool where
  start: "reached apart new_overlay"
| step: "reached apart o' \<Longrightarrow> allowed apart ev o' \<Longrightarrow> reached apart (on_event ev o')"

inductive_cases reachedE: "reached apart o'"

text \<open>The events that lead to a reached overlay.\<close>

abbreviation event_step :: "bool \<Rightarrow> overlay \<Rightarrow> overlay \<Rightarrow> bool" where
  "event_step apart \<equiv> \<lambda>s t. \<exists>ev. allowed apart ev s \<and> t = on_event ev s"

lemma reached_steps: "reached apart o' \<Longrightarrow> (event_step apart)\<^sup>*\<^sup>* new_overlay o'"
  by (induction rule: reached.induct) (auto intro: rtranclp.rtrancl_into_rtrancl)

section \<open>Bounds of the window\<close>

definition in_bounds :: "overlay \<Rightarrow> bool" where
  "in_bounds o' \<longleftrightarrow> MIN_W \<le> fst (ov_size o') \<and> MIN_H \<le> snd (ov_size o')
     \<and> (\<forall>d. ov_right o' = Some d \<or> ov_bottom o' = Some d \<longrightarrow> 0 \<le> d)"

definition frame :: "overlay \<Rightarrow> (int \<times> int) \<times> int option \<times> int option" where
  "frame o' = (ov_size o', ov_right o', ov_bottom o')"

lemma in_bounds_frame: "frame o1 = frame o2 \<Longrightarrow> in_bounds o1 = in_bounds o2"
  by (simp add: frame_def in_bounds_def)

lemmas op_defs = ensureDOM_def syncDecoration_def attachToBody_def update_entry_def hide_current_def openWidget_def
  opened_def open_failed_def destroyCurrent_def hide_def show_overlay_def toggle_def update_decoration_def setTitle_def
  setDirty_def Let_def

lemma frame_updates [simp]:
  "frame (ov_built_update f o') = frame o'" "frame (ov_mounted_update g o') = frame o'" "frame (ov_body_update h o') = frame o'"
  "frame (ov_title_update i o') = frame o'" "frame (ov_instances_update j o') = frame o'" "frame (ov_opening_update k o') = frame o'"
  "frame (ov_opens_update l o') = frame o'" "frame (ov_destroyed_update m o') = frame o'"
  by (simp_all add: frame_def)

lemma frame_small [simp]:
  "frame (ensureDOM o') = frame o'" "frame (syncDecoration en o') = frame o'" "frame (attachToBody en o') = frame o'"
  "frame (update_entry i f o') = frame o'" "frame (hide_current o') = frame o'"
  by (simp_all add: ensureDOM_def syncDecoration_def attachToBody_def update_entry_def hide_current_def split: option.split)

lemma frame_kept:
  "frame (openWidget n ic o') = frame o'" "frame (opened i dec o') = frame o'" "frame (open_failed i o') = frame o'"
  "frame (destroyCurrent o') = frame o'" "frame (hide o') = frame o'" "frame (show_overlay o') = frame o'"
  "frame (update_decoration i o') = frame o'" "frame (setTitle i t o') = frame o'" "frame (setDirty i b o') = frame o'"
  by (simp_all add: openWidget_def opened_def open_failed_def destroyCurrent_def hide_def show_overlay_def
      update_decoration_def setTitle_def setDirty_def Let_def split: option.split)

lemma frame_toggle: "frame (toggle o') = frame o'"
  by (simp add: toggle_def frame_kept)

lemma drag_move_bounds: "in_bounds o' \<Longrightarrow> in_bounds (drag_move old pt o')"
  by (auto simp: in_bounds_def drag_move_def)

lemma drag_bounds: "in_bounds o' \<Longrightarrow> in_bounds (drag old ms o')"
  by (induction old ms o' rule: drag.induct) (simp_all add: drag_move_bounds)

lemma resize_move_bounds: "in_bounds o' \<Longrightarrow> in_bounds (resize_move h start size0 pt o')"
  by (simp add: in_bounds_def resize_move_def)

lemma resize_bounds: "in_bounds o' \<Longrightarrow> in_bounds (fold (resize_move h start size0) ms o')"
  by (induction ms arbitrary: o') (simp_all add: resize_move_bounds)

interpretation window: event_invariant on_event "allowed apart" "\<lambda>o'. o' = new_overlay" in_bounds for apart
proof
  show "in_bounds o'" if "o' = new_overlay" for o'
    using that by (simp add: in_bounds_def new_overlay_def MIN_W_def MIN_H_def DEFAULT_W_def DEFAULT_H_def)
  show "in_bounds (on_event ev o')" if "in_bounds o'" for ev o'
    using that
    by (cases ev)
      (simp_all add: in_bounds_frame [OF frame_kept(1)] in_bounds_frame [OF frame_kept(2)] in_bounds_frame [OF frame_kept(3)]
        in_bounds_frame [OF frame_kept(4)] in_bounds_frame [OF frame_kept(5)] in_bounds_frame [OF frame_kept(6)]
        in_bounds_frame [OF frame_kept(7)] in_bounds_frame [OF frame_kept(8)] in_bounds_frame [OF frame_kept(9)]
        in_bounds_frame [OF frame_toggle] drag_bounds resize_bounds resize_def)
qed

text \<open>
  C39. However the overlay is dragged and resized, it keeps its least width and height, and its right and bottom
  edges never leave the page on that side.
\<close>

theorem window_bounds:
  assumes "reached apart o'"
  shows "320 \<le> fst (ov_size o') \<and> 200 \<le> snd (ov_size o')
    \<and> (case ov_right o' of None \<Rightarrow> True | Some d \<Rightarrow> 0 \<le> d) \<and> (case ov_bottom o' of None \<Rightarrow> True | Some d \<Rightarrow> 0 \<le> d)"
proof -
  have "in_bounds o'" by (rule window.as_steps.reached [OF refl reached_steps [OF assms]])
  then show ?thesis by (auto simp: in_bounds_def MIN_W_def MIN_H_def split: option.split)
qed

text \<open>Opening a widget and then dragging the window past the corner.\<close>

definition opened_once :: overlay where
  "opened_once = on_event (Opened 0 None) (on_event (Open ''w'' (Named ''gterm'')) new_overlay)"

lemma reached_opened_once: "reached apart opened_once"
proof -
  have "reached apart (on_event (Open ''w'' (Named ''gterm'')) new_overlay)"
    by (rule reached.step [OF reached.start]) (simp add: allowed_def new_overlay_def)
  then show ?thesis unfolding opened_once_def by (rule reached.step) (simp add: allowed_def)
qed

lemma opened_once_mounted: "ov_mounted opened_once"
  by code_simp

theorem window_bounds_witness:
  "0 \<le> the (ov_right (on_event (Drag (0, 0) [(100, 100)]) opened_once))"
proof -
  have "reached True (on_event (Drag (0, 0) [(100, 100)]) opened_once)"
    by (rule reached.step [OF reached_opened_once]) (simp add: allowed_def opened_once_mounted)
  from window_bounds [OF this] show ?thesis by (simp add: drag_move_def)
qed

section \<open>One visible widget\<close>

definition visible_count :: "overlay \<Rightarrow> nat" where
  "visible_count o' = length (filter en_visible (ov_instances o'))"

definition ids_apart :: "overlay \<Rightarrow> bool" where
  "ids_apart o' \<longleftrightarrow>
     distinct (map en_id (ov_instances o') @ ov_destroyed o' @ map fst (ov_opening o'))
     \<and> (\<forall>i \<in> set (map en_id (ov_instances o') @ ov_destroyed o' @ map fst (ov_opening o')). i < ov_opens o')"

lemma map_id_kept: "(\<And>en. en_id (f en) = en_id en) \<Longrightarrow> map en_id (map (\<lambda>en. if en_id en = i then f en else en) es) = map en_id es"
  by (induction es) auto

lemma map_id_drop: "map en_id (remove1 cur es) = remove1 (en_id cur) (map en_id es)" if "distinct (map en_id es)" "cur \<in> set es"
  using that by (induction es) (auto, metis image_eqI)

lemma find_visible: "currentVisible o' = Some cur \<Longrightarrow> cur \<in> set (ov_instances o') \<and> en_visible cur"
  by (auto simp: currentVisible_def find_Some_iff)

lemma none_visible: "currentVisible o' = None \<longleftrightarrow> visible_count o' = 0"
  by (auto simp: currentVisible_def visible_count_def find_None_iff filter_empty_conv)

text \<open>Opened entries, destroyed entries and openings, as one list of numbers.\<close>

definition all_ids :: "overlay \<Rightarrow> nat list" where
  "all_ids o' = map en_id (ov_instances o') @ ov_destroyed o' @ map fst (ov_opening o')"

lemma ids_apart_alt: "ids_apart o' \<longleftrightarrow> distinct (all_ids o') \<and> (\<forall>i \<in> set (all_ids o'). i < ov_opens o')"
  by (simp add: ids_apart_def all_ids_def)

lemma same_ids:
  assumes "ids_apart o'" and "set (all_ids o1) \<subseteq> set (all_ids o')" and "distinct (all_ids o1)" and "ov_opens o1 = ov_opens o'"
  shows "ids_apart o1"
  using assms by (auto simp: ids_apart_alt)

lemma all_ids_kept:
  "all_ids (ensureDOM o') = all_ids o'" "all_ids (syncDecoration en o') = all_ids o'" "all_ids (attachToBody en o') = all_ids o'"
  "all_ids (hide_current o') = all_ids o'" "all_ids (hide o') = all_ids o'" "all_ids (show_overlay o') = all_ids o'"
  "all_ids (toggle o') = all_ids o'" "all_ids (update_decoration i o') = all_ids o'" "all_ids (setTitle i t o') = all_ids o'"
  "all_ids (setDirty i b o') = all_ids o'"
  by (simp_all add: all_ids_def op_defs map_id_kept split: option.split)

lemma opens_kept:
  "ov_opens (ensureDOM o') = ov_opens o'" "ov_opens (hide_current o') = ov_opens o'" "ov_opens (hide o') = ov_opens o'"
  "ov_opens (show_overlay o') = ov_opens o'" "ov_opens (toggle o') = ov_opens o'" "ov_opens (update_decoration i o') = ov_opens o'"
  "ov_opens (setTitle i t o') = ov_opens o'" "ov_opens (setDirty i b o') = ov_opens o'"
  "ov_opens (opened i dec o') = ov_opens o'" "ov_opens (open_failed i o') = ov_opens o'" "ov_opens (destroyCurrent o') = ov_opens o'"
  by (simp_all add: op_defs split: option.split)

text \<open>A gesture changes nothing but the geometry.\<close>

definition insides :: "overlay \<Rightarrow> entry list \<times> nat list \<times> (nat \<times> string \<times> icon) list \<times> nat \<times> nat option \<times> bool" where
  "insides o' = (ov_instances o', ov_destroyed o', ov_opening o', ov_opens o', ov_body o', ov_mounted o')"

lemma drag_insides: "insides (drag old ms o') = insides o'"
  by (induction old ms o' rule: drag.induct) (simp_all add: drag_move_def insides_def)

lemma resize_insides: "insides (resize h start ms o') = insides o'"
proof -
  have "insides (fold (resize_move h start z) ms o') = insides o'" for z
    by (induction ms arbitrary: o') (simp_all add: resize_move_def insides_def)
  then show ?thesis by (simp add: resize_def)
qed

lemma gesture_kept:
  assumes "insides o1 = insides o2"
  shows "all_ids o1 = all_ids o2" and "ov_opens o1 = ov_opens o2"
  using assms by (auto simp: insides_def all_ids_def)

lemmas drag_kept = gesture_kept [OF drag_insides]
lemmas resize_kept = gesture_kept [OF resize_insides]

lemma ids_openWidget: "ids_apart o' \<Longrightarrow> ids_apart (openWidget n ic o')"
proof -
  assume o': "ids_apart o'"
  have eq: "all_ids (openWidget n ic o') = all_ids o' @ [ov_opens o']"
    using all_ids_kept(1) [of o'] all_ids_kept(4) [of "ensureDOM o'"] opens_kept(1) [of o'] opens_kept(2) [of "ensureDOM o'"]
    by (simp add: openWidget_def Let_def all_ids_def)
  have "ov_opens (openWidget n ic o') = ov_opens o' + 1"
    using opens_kept(1) [of o'] opens_kept(2) [of "ensureDOM o'"] by (simp add: openWidget_def Let_def)
  then show ?thesis using o' by (auto simp: ids_apart_alt eq)
qed

lemma ids_opened: "ids_apart o' \<Longrightarrow> ids_apart (opened i dec o')"
proof (cases "map_get (ov_opening o') i")
  case (Some q)
  assume o': "ids_apart o'"
  obtain name ic where q: "q = (name, ic)" by (cases q)
  have all: "all_ids (opened i dec o') =
      map en_id (ov_instances o') @ [i] @ ov_destroyed o' @ map fst (filter (\<lambda>q. fst q \<noteq> i) (ov_opening o'))"
    by (simp add: opened_def Some q Let_def all_ids_def attachToBody_def syncDecoration_def)
  have "i \<in> fst ` set (ov_opening o')" using Some by (metis domI dom_map_of_conv_image_fst)
  then show ?thesis
    using o' unfolding ids_apart_alt all opens_kept by (auto simp: all_ids_def distinct_map_filter)
qed (simp add: opened_def)

lemma ids_failed: "ids_apart o' \<Longrightarrow> ids_apart (open_failed i o')"
  by (auto simp: ids_apart_alt all_ids_def open_failed_def distinct_map_filter)

lemma ids_destroy: "ids_apart o' \<Longrightarrow> ids_apart (destroyCurrent o')"
proof (cases "currentVisible o'")
  case None
  assume "ids_apart o'"
  then show ?thesis by (simp add: destroyCurrent_def None ids_apart_def)
next
  case (Some cur)
  assume o': "ids_apart o'"
  have cur: "cur \<in> set (ov_instances o')" using find_visible [OF Some] by simp
  have "map en_id (remove1 cur (ov_instances o')) = remove1 (en_id cur) (map en_id (ov_instances o'))"
    by (rule map_id_drop) (use o' cur in \<open>simp_all add: ids_apart_def\<close>)
  then have all: "all_ids (destroyCurrent o') =
      remove1 (en_id cur) (map en_id (ov_instances o')) @ (ov_destroyed o' @ [en_id cur]) @ map fst (ov_opening o')"
    by (simp add: destroyCurrent_def Some Let_def all_ids_def)
  show ?thesis
    using o' cur unfolding ids_apart_alt all opens_kept by (auto simp: all_ids_def dest: notin_set_remove1)
qed

interpretation entries: event_invariant on_event "allowed apart" "\<lambda>o'. o' = new_overlay" ids_apart for apart
proof
  show "ids_apart o'" if "o' = new_overlay" for o'
    using that by (simp add: ids_apart_def new_overlay_def)
  show "ids_apart (on_event ev o')" if "ids_apart o'" for ev o'
  proof -
    have kept: "all_ids o1 = all_ids o' \<Longrightarrow> ov_opens o1 = ov_opens o' \<Longrightarrow> ids_apart o1" for o1
      using that by (simp add: ids_apart_alt)
    show ?thesis
      using that
      by (cases ev)
        (simp_all add: kept drag_kept resize_kept all_ids_kept opens_kept ids_openWidget ids_opened ids_failed ids_destroy)
  qed
qed

text \<open>
  Every widget whose constructor has returned is kept as one entry until it is closed, and is destroyed at most
  once: the entries, the destroyed ones and the ones being opened have distinct numbers.
\<close>

theorem entries_accounted:
  assumes "reached apart o'"
  shows "distinct (map en_id (ov_instances o') @ ov_destroyed o' @ map fst (ov_opening o'))"
proof -
  have "ids_apart o'" by (rule entries.as_steps.reached [OF refl reached_steps [OF assms]])
  then show ?thesis by (simp add: ids_apart_def)
qed

theorem entries_accounted_witness:
  "distinct (map en_id (ov_instances (on_event Close opened_once)) @ ov_destroyed (on_event Close opened_once)
     @ map fst (ov_opening (on_event Close opened_once))) \<and> ov_destroyed (on_event Close opened_once) = [0]"
proof -
  have "reached True (on_event Close opened_once)"
    by (rule reached.step [OF reached_opened_once]) (simp add: allowed_def)
  moreover have "ov_destroyed (on_event Close opened_once) = [0]" by code_simp
  ultimately show ?thesis using entries_accounted by blast
qed

text \<open>When widgets are opened one at a time.\<close>

definition shown_ok :: "overlay \<Rightarrow> bool" where
  "shown_ok o' \<longleftrightarrow> visible_count o' + length (ov_opening o') \<le> 1
     \<and> (ov_mounted o' \<and> ov_opening o' = [] \<longrightarrow>
          (\<exists>cur. currentVisible o' = Some cur \<and> ov_body o' = Some (en_id cur)))"

lemma visible_kept:
  "(\<And>en. en_visible (f en) = en_visible en) \<Longrightarrow> visible_count (update_entry i f o') = visible_count o'"
  "(\<And>en. en_visible (f en) = en_visible en) \<Longrightarrow>
    currentVisible (update_entry i f o') = map_option (\<lambda>en. if en_id en = i then f en else en) (currentVisible o')"
proof -
  assume f: "\<And>en. en_visible (f en) = en_visible en"
  let ?g = "\<lambda>en. if en_id en = i then f en else en"
  have g: "en_visible (?g en) = en_visible en" for en using f by simp
  show "visible_count (update_entry i f o') = visible_count o'"
    by (simp add: visible_count_def update_entry_def filter_map comp_def g)
  have "find en_visible (map ?g es) = map_option ?g (find en_visible es)" for es
    by (induction es) (simp_all add: f)
  then show "currentVisible (update_entry i f o') = map_option ?g (currentVisible o')"
    by (simp add: currentVisible_def update_entry_def)
qed

lemma count_one: "length (filter P xs) \<le> 1 \<Longrightarrow> x \<in> set xs \<Longrightarrow> P x \<Longrightarrow> y \<in> set xs \<Longrightarrow> P y \<Longrightarrow> x = y"
proof -
  assume "length (filter P xs) \<le> 1" and x: "x \<in> set xs" "P x" and y: "y \<in> set xs" "P y"
  then have "card (set (filter P xs)) \<le> 1" using card_length [of "filter P xs"] by linarith
  then show "x = y" using x y by (auto simp: card_le_Suc0_iff_eq)
qed

lemma hide_current_count: "visible_count o' \<le> 1 \<Longrightarrow> visible_count (hide_current o') = 0"
proof (cases "currentVisible o'")
  case None
  then show ?thesis using none_visible [of o'] by (simp add: hide_current_def)
next
  case (Some cur)
  assume one: "visible_count o' \<le> 1"
  have cur: "cur \<in> set (ov_instances o')" "en_visible cur" using find_visible [OF Some] by auto
  have "en = cur" if "en \<in> set (ov_instances o')" "en_visible en" for en
    using count_one [OF one [unfolded visible_count_def] that cur] .
  then show ?thesis
    by (auto simp: visible_count_def hide_current_def Some update_entry_def filter_empty_conv)
qed

lemma shown_openWidget: "shown_ok o' \<Longrightarrow> ov_opening o' = [] \<Longrightarrow> shown_ok (openWidget n ic o')"
proof -
  assume ok: "shown_ok o'" and none: "ov_opening o' = []"
  have "visible_count (ensureDOM o') \<le> 1" using ok by (simp add: shown_ok_def ensureDOM_def visible_count_def)
  from hide_current_count [OF this] have 0: "visible_count (hide_current (ensureDOM o')) = 0" .
  have "ov_opening (hide_current (ensureDOM o')) = []"
    using none by (simp add: hide_current_def ensureDOM_def update_entry_def split: option.split)
  then show ?thesis using 0 by (simp add: shown_ok_def openWidget_def Let_def visible_count_def)
qed

lemma shown_opened: "shown_ok o' \<Longrightarrow> shown_ok (opened i dec o')"
proof (cases "map_get (ov_opening o') i")
  case (Some q)
  assume ok: "shown_ok o'"
  obtain name ic where q: "q = (name, ic)" by (cases q)
  have mem: "(i, q) \<in> set (ov_opening o')" using Some by (rule map_of_SomeD)
  then have "length (ov_opening o') \<noteq> 0" by auto
  moreover have "visible_count o' + length (ov_opening o') \<le> 1" using ok by (simp add: shown_ok_def)
  ultimately have one: "length (ov_opening o') = 1" "visible_count o' = 0" by linarith+
  then have only: "ov_opening o' = [(i, q)]" using mem by (cases "ov_opening o'") auto
  have hid: "filter en_visible (ov_instances o') = []" using one(2) by (simp add: visible_count_def)
  have "filter en_visible es = [] \<Longrightarrow> find en_visible (es @ [en]) = (if en_visible en then Some en else None)" for es en
    by (induction es) (auto split: if_splits)
  then have f: "find en_visible (ov_instances o' @ [en]) = (if en_visible en then Some en else None)" for en
    using hid by blast
  show ?thesis
    using hid f
    by (simp add: shown_ok_def opened_def Some q only Let_def visible_count_def currentVisible_def attachToBody_def
        syncDecoration_def)
qed (simp add: opened_def)

lemma shown_destroy: "shown_ok o' \<Longrightarrow> shown_ok (destroyCurrent o')"
proof -
  assume ok: "shown_ok o'"
  have "length (filter P (remove1 x xs)) \<le> length (filter P xs)" for P and x :: entry and xs
    by (induction xs) auto
  then have "visible_count (destroyCurrent o') \<le> visible_count o'"
    by (simp add: destroyCurrent_def Let_def visible_count_def split: option.split)
  moreover have "ov_opening (destroyCurrent o') = ov_opening o'" "\<not> ov_mounted (destroyCurrent o')"
    by (simp_all add: destroyCurrent_def Let_def split: option.split)
  ultimately show ?thesis using ok by (simp add: shown_ok_def)
qed

lemma shown_same:
  "shown_ok o' \<Longrightarrow> visible_count o1 = visible_count o' \<Longrightarrow> ov_opening o1 = ov_opening o' \<Longrightarrow>
    (ov_mounted o1 \<Longrightarrow> ov_mounted o') \<Longrightarrow> ov_body o1 = ov_body o' \<Longrightarrow>
    map_option en_id (currentVisible o1) = map_option en_id (currentVisible o') \<Longrightarrow> shown_ok o1"
  by (auto simp: shown_ok_def)

lemma shown_show: "shown_ok o' \<Longrightarrow> shown_ok (show_overlay o')"
  by (auto simp: shown_ok_def show_overlay_def Let_def ensureDOM_def attachToBody_def syncDecoration_def
      visible_count_def currentVisible_def split: option.split)

lemma shown_hide: "shown_ok o' \<Longrightarrow> shown_ok (hide o')"
  by (simp add: shown_ok_def hide_def visible_count_def)

lemma shown_controls:
  assumes "shown_ok o'"
  shows "shown_ok (update_decoration i o')" and "shown_ok (setTitle i t o')" and "shown_ok (setDirty i d o')"
proof -
  have upd: "shown_ok (update_entry i f o')" if "\<And>en. en_visible (f en) = en_visible en" "\<And>en. en_id (f en) = en_id en" for f
    using assms
  proof (rule shown_same)
    have "(\<lambda>en. en_id (if en_id en = i then f en else en)) = en_id" by (rule ext) (simp add: that(2))
    then show "map_option en_id (currentVisible (update_entry i f o')) = map_option en_id (currentVisible o')"
      by (simp add: visible_kept(2) [OF that(1)] option.map_comp comp_def)
    show "visible_count (update_entry i f o') = visible_count o'" by (rule visible_kept(1) [OF that(1)])
  qed (simp_all add: update_entry_def)
  have title: "shown_ok (o1\<lparr>ov_title := x\<rparr>)" if "shown_ok o1" for o1 x
    using that by (simp add: shown_ok_def visible_count_def currentVisible_def)
  show "shown_ok (update_decoration i o')"
    using assms title by (auto simp: update_decoration_def syncDecoration_def split: option.split)
  show "shown_ok (setTitle i t o')" using title upd by (simp add: setTitle_def Let_def)
  show "shown_ok (setDirty i d o')" using title upd by (simp add: setDirty_def Let_def)
qed

lemma shown_gesture: "shown_ok o' \<Longrightarrow> insides o1 = insides o' \<Longrightarrow> shown_ok o1"
  by (erule shown_same) (simp_all add: insides_def visible_count_def currentVisible_def)

interpretation visible: event_invariant on_event "allowed True" "\<lambda>o'. o' = new_overlay" shown_ok
proof
  show "shown_ok o'" if "o' = new_overlay" for o'
    using that by (simp add: shown_ok_def new_overlay_def visible_count_def)
  show "shown_ok (on_event ev o')" if "shown_ok o'" "allowed True ev o'" for ev o'
    using that
    by (cases ev)
      (simp_all add: allowed_def shown_openWidget shown_opened shown_destroy shown_hide shown_show shown_controls
        toggle_def shown_gesture [OF _ drag_insides] shown_gesture [OF _ resize_insides])
qed

text \<open>
  As long as one widget is opened at a time and no constructor throws, at most one entry is visible, and a
  mounted overlay that is not waiting for a constructor shows the element of the visible entry.
\<close>

theorem one_visible:
  assumes "reached True o'"
  shows "visible_count o' \<le> 1
    \<and> (ov_mounted o' \<and> ov_opening o' = [] \<longrightarrow> (\<exists>cur. currentVisible o' = Some cur \<and> ov_body o' = Some (en_id cur)))"
proof -
  have "shown_ok o'" by (rule visible.as_steps.reached [OF refl reached_steps [OF assms]])
  then show ?thesis by (simp add: shown_ok_def)
qed

theorem one_visible_witness:
  "visible_count (on_event (Set_title 0 ''t'') opened_once) \<le> 1
    \<and> (\<exists>cur. currentVisible (on_event (Set_title 0 ''t'') opened_once) = Some cur)"
proof -
  have "reached True (on_event (Set_title 0 ''t'') opened_once)"
    by (rule reached.step [OF reached_opened_once]) (simp add: allowed_def)
  moreover have "ov_mounted (on_event (Set_title 0 ''t'') opened_once) \<and> ov_opening (on_event (Set_title 0 ''t'') opened_once) = []"
    by code_simp
  ultimately show ?thesis using one_visible by blast
qed

text \<open>
  The list comment's promise that at most one entry is visible fails when a widget is opened while another
  one is: both come out visible, the later one is shown, and the controls act for the earlier one.
\<close>

theorem overlapping_opens:
  "\<exists>o'. reached False o' \<and> visible_count o' = 2 \<and> ov_body o' = Some 1
     \<and> map_option en_id (currentVisible o') = Some 0 \<and> fst (ov_title (on_event (Set_title 0 ''t'') o')) = ''t''"
proof -
  let ?a = "on_event (Open ''a'' (Named ''a'')) new_overlay"
  let ?b = "on_event (Open ''b'' (Named ''b'')) ?a"
  let ?c = "on_event (Opened 0 None) ?b"
  let ?d = "on_event (Opened 1 None) ?c"
  have "reached False ?a" by (rule reached.step [OF reached.start]) (simp add: allowed_def)
  then have "reached False ?b" by (rule reached.step) (simp add: allowed_def)
  then have "reached False ?c" by (rule reached.step) (simp add: allowed_def)
  then have "reached False ?d" by (rule reached.step) (simp add: allowed_def)
  moreover have "visible_count ?d = 2 \<and> ov_body ?d = Some 1 \<and> map_option en_id (currentVisible ?d) = Some 0
      \<and> fst (ov_title (on_event (Set_title 0 ''t'') ?d)) = ''t''" by code_simp
  ultimately show ?thesis by blast
qed

section \<open>Dragging\<close>

text \<open>
  While no move takes the window to an edge it follows the mouse; a window at the right edge is taken to be at the
  default distance, so that the next move makes it jump.
\<close>

lemma drag_follows:
  assumes "\<forall>pt \<in> set ms. fst pt - fst old < distance (ov_right o') \<and> snd pt - snd old < distance (ov_bottom o')" and "ms \<noteq> []"
  shows "ov_right (drag old ms o') = Some (distance (ov_right o') - (fst (last ms) - fst old))
    \<and> ov_bottom (drag old ms o') = Some (distance (ov_bottom o') - (snd (last ms) - snd old))"
  using assms
proof (induction old ms o' rule: drag.induct)
  case (2 old pt ms o')
  have d: "distance (ov_right (drag_move old pt o')) = distance (ov_right o') - (fst pt - fst old)"
    "distance (ov_bottom (drag_move old pt o')) = distance (ov_bottom o') - (snd pt - snd old)"
    using "2.prems"(1) by (auto simp: drag_move_def distance_def)
  show ?case
  proof (cases "ms = []")
    case True
    then show ?thesis using "2.prems"(1) by (auto simp: drag_move_def)
  next
    case False
    have "\<forall>q \<in> set ms. fst q - fst pt < distance (ov_right (drag_move old pt o'))
        \<and> snd q - snd pt < distance (ov_bottom (drag_move old pt o'))"
      using "2.prems"(1) by (auto simp: d)
    from "2.IH" [OF this False] show ?thesis using False by (simp add: d)
  qed
qed simp

lemma drag_jumps: "ov_right o' = Some 0 \<Longrightarrow> ov_right (drag (x, y) [(x + 1, y)] o') = Some 15"
  by (simp add: drag_move_def distance_def EDGE_OFFSET_def)

end
