(* ===== verification/Style.thy ===== *)
theory Style
  imports Platform
begin

text \<open>
  style/style.js, the colour utilities: hexadecimal colours, RGB and HSL, and the operations that derive the palette.
  Components between are rationals, where the code has doubles.
\<close>

section \<open>Hexadecimal colours\<close>

type_synonym rgb = "int \<times> int \<times> int"

text \<open>\<open>parseInt(hex, 16)\<close> of a string without sign or blanks: its longest run of digits; NaN counts as 0 in shifts.\<close>

fun hex_run :: "int \<Rightarrow> string \<Rightarrow> int" where
  "hex_run a [] = a"
| "hex_run a (c # cs) = (case hex_val c of None \<Rightarrow> a | Some d \<Rightarrow> hex_run (16 * a + int d) cs)"

definition hexToRgb :: "string \<Rightarrow> rgb" where
  "hexToRgb hex =
     (let h1 = (case hex of [] \<Rightarrow> [] | c # cs \<Rightarrow> if c = CHR ''#'' then cs else c # cs);
          h2 = (if length h1 = 3 then concat (map (\<lambda>c. [c, c]) h1) else h1);
          n = hex_run 0 h2
      in ((n div 65536) mod 256, (n div 256) mod 256, n mod 256))"

text \<open>\<open>Math.round\<close>: the nearest integer, the larger of two.\<close>

definition js_round :: "rat \<Rightarrow> int" where
  "js_round x = \<lfloor>x + 1 / 2\<rfloor>"

definition byte_of :: "rat \<Rightarrow> int" where
  "byte_of v = max 0 (min 255 (js_round v))"

definition hex2 :: "int \<Rightarrow> string" where
  "hex2 v = [hex_digit (nat (v div 16)), hex_digit (nat (v mod 16))]"

definition rgbToHex :: "rat \<Rightarrow> rat \<Rightarrow> rat \<Rightarrow> string" where
  "rgbToHex r g b = CHR ''#'' # hex2 (byte_of r) @ hex2 (byte_of g) @ hex2 (byte_of b)"

section \<open>Hue, saturation, lightness\<close>

type_synonym hsl = "rat \<times> rat \<times> rat"

definition rgbToHsl :: "rgb \<Rightarrow> hsl" where
  "rgbToHsl c =
     (case c of (r0, g0, b0) \<Rightarrow>
      (let r = of_int r0 / 255; g = of_int g0 / 255; b = of_int b0 / 255;
           mx = max r (max g b); mn = min r (min g b); l = (mx + mn) / 2; d = mx - mn
       in if mx = mn then (0, 0, l)
          else
            (let s = (if l > 1 / 2 then d / (2 - mx - mn) else d / (mx + mn));
                 h = (if mx = r then ((g - b) / d + (if g < b then 6 else 0)) / 6
                      else if mx = g then ((b - r) / d + 2) / 6
                      else ((r - g) / d + 4) / 6)
             in (h * 360, s, l))))"

definition hue2rgb :: "rat \<Rightarrow> rat \<Rightarrow> rat \<Rightarrow> rat" where
  "hue2rgb p q t0 =
     (let t1 = (if t0 < 0 then t0 + 1 else t0); t = (if t1 > 1 then t1 - 1 else t1)
      in if t < 1 / 6 then p + (q - p) * 6 * t
         else if t < 1 / 2 then q
         else if t < 2 / 3 then p + (q - p) * (2 / 3 - t) * 6
         else p)"

definition hslToRgb :: "hsl \<Rightarrow> rgb" where
  "hslToRgb c =
     (case c of (h0, s, l) \<Rightarrow>
      (let h = h0 / 360; q = (if l < 1 / 2 then l * (1 + s) else l + s - l * s); p = 2 * l - q
       in if s = 0 then (let v = js_round (l * 255) in (v, v, v))
          else (js_round (hue2rgb p q (h + 1 / 3) * 255), js_round (hue2rgb p q h * 255), js_round (hue2rgb p q (h - 1 / 3) * 255))))"

definition parse_colour :: "string \<Rightarrow> hsl" where
  "parse_colour hex = rgbToHsl (hexToRgb hex)"

definition compose_colour :: "rat \<Rightarrow> rat \<Rightarrow> rat \<Rightarrow> string" where
  "compose_colour h s l = (case hslToRgb (h, s, l) of (r, g, b) \<Rightarrow> rgbToHex (of_int r) (of_int g) (of_int b))"

section \<open>Operations\<close>

text \<open>The opacity is given as it is printed.\<close>

definition alpha :: "string \<Rightarrow> string \<Rightarrow> string" where
  "alpha hex a =
     (case hexToRgb hex of (r, g, b) \<Rightarrow>
       ''rgba('' @ int_str r @ '','' @ int_str g @ '','' @ int_str b @ '','' @ a @ '')'')"

definition lighten :: "string \<Rightarrow> rat \<Rightarrow> string" where
  "lighten hex amount = (case parse_colour hex of (h, s, l) \<Rightarrow> compose_colour h s (min 1 (l + amount)))"

definition darken :: "string \<Rightarrow> rat \<Rightarrow> string" where
  "darken hex amount = (case parse_colour hex of (h, s, l) \<Rightarrow> compose_colour h s (max 0 (l - amount)))"

definition dim :: "string \<Rightarrow> rat \<Rightarrow> string" where
  "dim hex factor = (case parse_colour hex of (h, s, l) \<Rightarrow> compose_colour h s (l * factor))"

definition desaturate :: "string \<Rightarrow> rat \<Rightarrow> string" where
  "desaturate hex factor = (case parse_colour hex of (h, s, l) \<Rightarrow> compose_colour h (s * factor) l)"

definition mix :: "string \<Rightarrow> string \<Rightarrow> rat \<Rightarrow> string" where
  "mix hex1 hex2' t =
     (case (hexToRgb hex1, hexToRgb hex2') of ((r1, g1, b1), (r2, g2, b2)) \<Rightarrow>
       rgbToHex (of_int r1 * t + of_int r2 * (1 - t)) (of_int g1 * t + of_int g2 * (1 - t))
         (of_int b1 * t + of_int b2 * (1 - t)))"

definition HUE :: "(string \<times> string) list" where
  "HUE =
     [(''blue'', ''#4d9ef7''), (''cyan'', ''#2dd4bf''), (''green'', ''#3fb97a''), (''teal'', ''#2ab8a0''),
      (''purple'', ''#a78bfa''), (''pink'', ''#f472b6''), (''amber'', ''#f59e0b''), (''orange'', ''#fb923c''),
      (''red'', ''#e05555''), (''yellow'', ''#facc15'')]"

section \<open>Hexadecimal round trip\<close>

definition byte :: "int \<Rightarrow> bool" where
  "byte v \<longleftrightarrow> 0 \<le> v \<and> v \<le> 255"

lemma js_round_of_int [simp]: "js_round (of_int v) = v"
  unfolding js_round_def by linarith

lemma byte_of_of_int: "byte v \<Longrightarrow> byte_of (of_int v) = v"
  by (simp add: byte_of_def byte_def)

lemma byte_byte_of: "byte (byte_of v)"
  by (simp add: byte_of_def byte_def)

lemma hex_run_hex2:
  assumes "byte v"
  shows "hex_run a (hex2 v @ cs) = hex_run (256 * a + v) cs"
proof -
  have "nat (v div 16) < 16" "nat (v mod 16) < 16" using assms by (auto simp: byte_def)
  then have "hex_val (hex_digit (nat (v div 16))) = Some (nat (v div 16))" "hex_val (hex_digit (nat (v mod 16))) = Some (nat (v mod 16))"
    by (simp_all add: hex_val_digit)
  moreover have "16 * (16 * a + v div 16) + v mod 16 = 256 * a + v" by presburger
  moreover have "0 \<le> v div 16" "0 \<le> v mod 16" using assms by (auto simp: byte_def)
  ultimately show ?thesis by (simp add: hex2_def ac_simps)
qed

lemma place:
  fixes k :: int
  assumes "0 \<le> y" and "y < k"
  shows "(k * r + y) div k = r" and "(k * r + y) mod k = y"
  using assms by (simp_all add: div_pos_pos_trivial mod_pos_pos_trivial)

lemma hexToRgb_hex2:
  assumes "byte r" and "byte g" and "byte b"
  shows "hexToRgb (CHR ''#'' # hex2 r @ hex2 g @ hex2 b) = (r, g, b)"
proof -
  have n: "hex_run 0 (hex2 r @ hex2 g @ hex2 b) = 65536 * r + 256 * g + b"
    using hex_run_hex2 [OF assms(1), of 0] hex_run_hex2 [OF assms(2), of r] hex_run_hex2 [OF assms(3), of "256 * r + g" "[]"]
    by simp
  have len: "length (hex2 r @ hex2 g @ hex2 b) \<noteq> 3" by (simp add: hex2_def)
  have digits: "(65536 * r + 256 * g + b) div 65536 mod 256 = r" "(65536 * r + 256 * g + b) div 256 mod 256 = g"
    "(65536 * r + 256 * g + b) mod 256 = b"
  proof -
    have "0 \<le> 256 * g + b" "256 * g + b < 65536" "0 \<le> b" "b < 256" "0 \<le> g" "g < 256" "0 \<le> r" "r < 256"
      using assms unfolding byte_def by linarith+
    note rng = this
    have "65536 * r + 256 * g + b = 65536 * r + (256 * g + b)" "65536 * r + 256 * g + b = 256 * (256 * r + g) + b"
      by (simp_all add: distrib_left)
    note eq = this
    show "(65536 * r + 256 * g + b) div 65536 mod 256 = r"
      unfolding eq(1) place(1) [OF rng(1,2)] using rng(7,8) by (rule mod_pos_pos_trivial)
    show "(65536 * r + 256 * g + b) div 256 mod 256 = g" "(65536 * r + 256 * g + b) mod 256 = b"
      unfolding eq(2) place [OF rng(3,4)] by (rule place(2) [OF rng(5,6)], rule refl)
  qed
  show ?thesis by (simp only: hexToRgb_def Let_def list.case len if_False if_True n digits simp_thms)
qed

text \<open>
  Every colour the palette operations make is a hash and six hexadecimal digits, and reads back as the
  components it was made of, rounded and held between 0 and 255; a colour with whole components in that range is
  kept as it is.
\<close>

theorem hex_round_trip:
  "length (rgbToHex x y z) = 7 \<and> hexToRgb (rgbToHex x y z) = (byte_of x, byte_of y, byte_of z)
   \<and> rgbToHex (of_int (byte_of x)) (of_int (byte_of y)) (of_int (byte_of z)) = rgbToHex x y z"
  using hexToRgb_hex2 [OF byte_byte_of byte_byte_of byte_byte_of, of x y z]
  by (simp add: rgbToHex_def byte_of_of_int [OF byte_byte_of]) (simp add: hex2_def)

section \<open>HSL round trip\<close>

lemma q_is_max:
  fixes mx mn :: rat
  assumes "mn < mx" and "0 \<le> mn" and "mx \<le> 1"
  defines "l \<equiv> (mx + mn) / 2"
  defines "s \<equiv> (if l > 1 / 2 then (mx - mn) / (2 - mx - mn) else (mx - mn) / (mx + mn))"
  shows "(if l < 1 / 2 then l * (1 + s) else l + s - l * s) = mx" and "s \<noteq> 0"
proof -
  have nz: "mx + mn \<noteq> 0" "0 < mx + mn" using assms by linarith+
  have nz2: "l > 1 / 2 \<Longrightarrow> 2 - mx - mn \<noteq> 0" using assms(1,3) by (simp add: l_def)
  show "s \<noteq> 0" using assms(1) nz nz2 by (auto simp: s_def)
  show "(if l < 1 / 2 then l * (1 + s) else l + s - l * s) = mx"
  proof (cases "l > 1 / 2")
    case True
    then have "s * (2 - mx - mn) = mx - mn" using nz2 by (simp add: s_def)
    moreover have "l + s - l * s = l + s * (2 - mx - mn) / 2" by (simp add: l_def field_simps)
    ultimately have "l + s - l * s = l + (mx - mn) / 2" by simp
    then show ?thesis using True by (simp add: l_def field_simps)
  next
    case False
    then have "s * (mx + mn) = mx - mn" using nz by (simp add: s_def)
    moreover have "l * (1 + s) = l + s * (mx + mn) / 2" by (simp add: l_def field_simps)
    moreover have "l + s - l * s = l + s * (2 - mx - mn) / 2" by (simp add: l_def field_simps)
    moreover have "s * (2 - mx - mn) = mx - mn" if "\<not> l < 1 / 2"
    proof -
      have two: "2 - mx - mn = mx + mn" using False that by (simp add: l_def)
      show ?thesis using calculation(1) by (simp only: two)
    qed
    ultimately have "(if l < 1 / 2 then l * (1 + s) else l + s - l * s) = l + (mx - mn) / 2" by simp
    then show ?thesis by (simp add: l_def field_simps)
  qed
qed

text \<open>The six pieces of the hue circle, by the position \<open>x\<close> within one.\<close>

lemma hue_pieces:
  "0 \<le> x \<Longrightarrow> x \<le> 1 \<Longrightarrow> hue2rgb p q (x / 6) = p + (q - p) * x"
  "-1 \<le> x \<Longrightarrow> x < 0 \<Longrightarrow> hue2rgb p q (x / 6) = p"
  "-1 \<le> x \<Longrightarrow> x \<le> 1 \<Longrightarrow> hue2rgb p q (x / 6 + 1 / 3) = q"
  "-1 \<le> x \<Longrightarrow> x < 0 \<Longrightarrow> hue2rgb p q (x / 6 + 2 / 3) = p - (q - p) * x"
  "0 \<le> x \<Longrightarrow> x \<le> 1 \<Longrightarrow> hue2rgb p q (x / 6 + 2 / 3) = p"
  "0 < x \<Longrightarrow> x \<le> 1 \<Longrightarrow> hue2rgb p q (x / 6 + 1) = p + (q - p) * x"
  "-1 \<le> x \<Longrightarrow> x \<le> 0 \<Longrightarrow> hue2rgb p q (x / 6 + 1) = p"
  "0 \<le> x \<Longrightarrow> x \<le> 1 \<Longrightarrow> hue2rgb p q (x / 6 - 1 / 3) = p"
  "-1 \<le> x \<Longrightarrow> x < 0 \<Longrightarrow> hue2rgb p q (x / 6 + 4 / 3) = q"
  for x p q :: rat
  by (auto simp: hue2rgb_def Let_def field_simps)

lemma hue_back:
  fixes r g b :: rat
  defines "mx \<equiv> max r (max g b)" and "mn \<equiv> min r (min g b)"
  defines "d \<equiv> mx - mn"
  defines "h \<equiv> (if mx = r then ((g - b) / d + (if g < b then 6 else 0)) / 6
                else if mx = g then ((b - r) / d + 2) / 6 else ((r - g) / d + 4) / 6)"
  assumes "mx \<noteq> mn"
  shows "hue2rgb mn mx (h + 1 / 3) = r \<and> hue2rgb mn mx h = g \<and> hue2rgb mn mx (h - 1 / 3) = b"
proof -
  have d: "0 < d" using assms(5) by (auto simp: d_def mx_def mn_def)
  have unit: "-1 \<le> u / d \<and> u / d \<le> 1 \<and> (mx - mn) * (u / d) = u \<and> (u / d < 0 \<longleftrightarrow> u < 0) \<and> (0 < u / d \<longleftrightarrow> 0 < u)"
    if "- d \<le> u" "u \<le> d" for u
    using that d by (auto simp: d_def [symmetric] field_simps)
  have range: "- d \<le> g - b \<and> g - b \<le> d" "- d \<le> b - r \<and> b - r \<le> d" "- d \<le> r - g \<and> r - g \<le> d"
    by (auto simp: d_def mx_def mn_def)
  have "mx = r \<or> mx = g \<or> mx = b" by (auto simp: mx_def max_def)
  then consider (rr) "mx = r" | (gg) "mx \<noteq> r" "mx = g" | (bb) "mx \<noteq> r" "mx \<noteq> g" "mx = b"
    by blast
  then show ?thesis
  proof cases
    case rr
    define x where "x = (g - b) / d"
    note x = unit [of "g - b", folded x_def] range(1)
    show ?thesis
    proof (cases "g < b")
      case True
      then have neg: "-1 \<le> x" "x < 0" "(mx - mn) * x = g - b" using x by auto
      have mn: "mn = g" using True rr by (auto simp: mx_def mn_def)
      have "h = x / 6 + 1" using rr True by (simp add: h_def x_def add_divide_distrib)
      then have h: "h + 1 / 3 = x / 6 + 4 / 3" "h - 1 / 3 = x / 6 + 2 / 3" "h = x / 6 + 1" by simp_all
      show ?thesis unfolding h(1,2) unfolding h(3) using hue_pieces(9) [OF neg(1,2)] hue_pieces(7) [OF neg(1)] hue_pieces(4) [OF neg(1,2)] neg mn rr by simp
    next
      case False
      then have pos: "0 \<le> x" "x \<le> 1" "(mx - mn) * x = g - b" using x by auto
      have mn: "mn = b" using False rr by (auto simp: mx_def mn_def)
      have h: "h = x / 6" using rr False by (simp add: h_def x_def)
      show ?thesis unfolding h using hue_pieces(3) [of x] hue_pieces(1) [OF pos(1,2)] hue_pieces(8) [OF pos(1,2)] pos mn rr by simp
    qed
  next
    case gg
    define x where "x = (b - r) / d"
    note x = unit [of "b - r", folded x_def] range(2)
    have "h = x / 6 + 1 / 3" using gg by (simp add: h_def x_def add_divide_distrib)
    then have h: "h + 1 / 3 = x / 6 + 2 / 3" "h - 1 / 3 = x / 6" "h = x / 6 + 1 / 3" by simp_all
    show ?thesis
    proof (cases "b < r")
      case True
      then have neg: "-1 \<le> x" "x < 0" "(mx - mn) * x = b - r" using x by auto
      have mn: "mn = b" using True gg by (auto simp: mx_def mn_def)
      show ?thesis unfolding h(1,2) unfolding h(3) using hue_pieces(4) [OF neg(1,2)] hue_pieces(3) [OF neg(1)] hue_pieces(2) [OF neg(1,2)] neg mn gg by simp
    next
      case False
      then have pos: "0 \<le> x" "x \<le> 1" "(mx - mn) * x = b - r" using x by auto
      have mn: "mn = r" using False gg by (auto simp: mx_def mn_def)
      show ?thesis unfolding h(1,2) unfolding h(3) using hue_pieces(5) [OF pos(1,2)] hue_pieces(3) [of x] hue_pieces(1) [OF pos(1,2)] pos mn gg by simp
    qed
  next
    case bb
    define x where "x = (r - g) / d"
    note x = unit [of "r - g", folded x_def] range(3)
    have "h = x / 6 + 2 / 3" using bb by (simp add: h_def x_def add_divide_distrib)
    then have h: "h + 1 / 3 = x / 6 + 1" "h - 1 / 3 = x / 6 + 1 / 3" "h = x / 6 + 2 / 3" by simp_all
    show ?thesis
    proof (cases "r < g")
      case True
      then have neg: "-1 \<le> x" "x < 0" "(mx - mn) * x = r - g" using x by auto
      have mn: "mn = r" using True bb by (auto simp: mx_def mn_def)
      show ?thesis unfolding h(1,2) unfolding h(3) using hue_pieces(7) [OF neg(1)] hue_pieces(4) [OF neg(1,2)] hue_pieces(3) [OF neg(1)] neg mn bb by simp
    next
      case False
      then have pos: "0 \<le> x" "x \<le> 1" "(mx - mn) * x = r - g" using x by auto
      have mn: "mn = g" using False bb by (auto simp: mx_def mn_def)
      have "hue2rgb mn mx (x / 6 + 1) = r"
        using hue_pieces(6) [of x mn mx] hue_pieces(7) [of x mn mx] pos mn by (cases "x = 0") auto
      then show ?thesis unfolding h(1,2) unfolding h(3) using hue_pieces(5) [OF pos(1,2)] hue_pieces(3) [of x] pos mn bb by simp
    qed
  qed
qed

lemma js_round_scaled: "js_round (of_int v / 255 * 255) = v"
  by simp

lemma hsl_back:
  assumes "byte r0" and "byte g0" and "byte b0"
  shows "hslToRgb (rgbToHsl (r0, g0, b0)) = (r0, g0, b0)"
proof -
  define r g b :: rat where "r = of_int r0 / 255" and "g = of_int g0 / 255" and "b = of_int b0 / 255"
  define mx mn where "mx = max r (max g b)" and "mn = min r (min g b)"
  have rng: "0 \<le> r" "r \<le> 1" "0 \<le> g" "g \<le> 1" "0 \<le> b" "b \<le> 1"
    using assms by (simp_all add: r_def g_def b_def byte_def)
  have bytes: "js_round (r * 255) = r0" "js_round (g * 255) = g0" "js_round (b * 255) = b0"
    by (simp_all only: r_def g_def b_def js_round_scaled)
  show ?thesis
  proof (cases "mx = mn")
    case True
    then have "r = mx" "g = mx" "b = mx" by (auto simp: mx_def mn_def)
    then have "r0 = g0" "b0 = g0" and l: "(mx + mn) / 2 = g" using True by (auto simp: r_def g_def b_def)
    then show ?thesis using True bytes
      by (simp add: rgbToHsl_def r_def [symmetric] g_def [symmetric] b_def [symmetric] mx_def [symmetric] mn_def [symmetric]
          hslToRgb_def Let_def)
  next
    case False
    define l where "l = (mx + mn) / 2"
    define s where "s = (if l > 1 / 2 then (mx - mn) / (2 - mx - mn) else (mx - mn) / (mx + mn))"
    define h where "h = (if mx = r then ((g - b) / (mx - mn) + (if g < b then 6 else 0)) / 6
                else if mx = g then ((b - r) / (mx - mn) + 2) / 6 else ((r - g) / (mx - mn) + 4) / 6)"
    have lt: "mn < mx" "0 \<le> mn" "mx \<le> 1" using False rng by (auto simp: mx_def mn_def)
    note q = q_is_max [OF lt, folded l_def, folded s_def]
    have p: "2 * l - mx = mn" by (simp add: l_def field_simps)
    have comps: "hue2rgb mn mx (h + 1 / 3) = r" "hue2rgb mn mx h = g" "hue2rgb mn mx (h - 1 / 3) = b"
      using hue_back [of r g b, folded mx_def mn_def, folded h_def, OF False] by auto
    have "rgbToHsl (r0, g0, b0) = (h * 360, s, l)"
      using False by (simp add: rgbToHsl_def r_def [symmetric] g_def [symmetric] b_def [symmetric] mx_def [symmetric]
          mn_def [symmetric] Let_def l_def s_def h_def)
    then show ?thesis using q p comps bytes by (simp add: hslToRgb_def Let_def)
  qed
qed

lemma lightness_range:
  assumes "byte r" and "byte g" and "byte b" and "rgbToHsl (r, g, b) = (h, s, l)"
  shows "0 \<le> l \<and> l \<le> 1"
proof -
  have "l = (max (of_int r / 255) (max (of_int g / 255) (of_int b / 255)) + min (of_int r / 255) (min (of_int g / 255) (of_int b / 255))) / 2"
    using assms(4) by (auto simp: rgbToHsl_def Let_def split: if_splits)
  moreover have "0 \<le> v / 255 \<and> v / 255 \<le> 1" if "v = of_int w" "byte w" for v :: rat and w
    using that by (simp add: byte_def)
  ultimately show ?thesis using assms(1-3) by (auto simp: byte_def)
qed

text \<open>
  A colour turned into hue, saturation and lightness and back is the same colour for all of the 16 million
  colours; so changing it by nothing changes nothing: lightening or darkening by 0, scaling lightness or saturation
  by 1, and mixing with weight 1.
\<close>

theorem hsl_round_trip:
  assumes "byte r" and "byte g" and "byte b"
  shows "hslToRgb (rgbToHsl (r, g, b)) = (r, g, b)
    \<and> (let hex = rgbToHex (of_int r) (of_int g) (of_int b) in
         lighten hex 0 = hex \<and> darken hex 0 = hex \<and> dim hex 1 = hex \<and> desaturate hex 1 = hex \<and> mix hex other 1 = hex)"
proof -
  define hex where "hex = rgbToHex (of_int r) (of_int g) (of_int b)"
  have rgb: "hexToRgb hex = (r, g, b)"
    using hexToRgb_hex2 [OF assms] by (simp add: hex_def rgbToHex_def byte_of_of_int assms)
  obtain h s l where hsl: "rgbToHsl (r, g, b) = (h, s, l)" by (cases "rgbToHsl (r, g, b)") auto
  have same: "hslToRgb (h, s, l) = (r, g, b)" using hsl_back [OF assms] hsl by simp
  have comp: "compose_colour h s l = hex" by (simp add: compose_colour_def same hex_def)
  have l: "0 \<le> l" "l \<le> 1" using lightness_range [OF assms hsl] by auto
  have "mix hex other 1 = hex"
    by (simp add: mix_def rgb split: prod.split) (simp add: hex_def)
  then show ?thesis
    unfolding hex_def [symmetric] Let_def
    using hsl_back [OF assms] l
    by (simp add: lighten_def darken_def dim_def desaturate_def parse_colour_def rgb hsl comp)
qed

theorem hsl_round_trip_witness:
  "lighten ''#4d9ef7'' 0 = ''#4d9ef7'' \<and> map_get HUE ''blue'' = Some ''#4d9ef7''"
proof -
  have "rgbToHex (of_int 77) (of_int 158) (of_int 247) = ''#4d9ef7''" by code_simp
  moreover have "byte 77" "byte 158" "byte 247" by (simp_all add: byte_def)
  ultimately show ?thesis using hsl_round_trip [of 77 158 247] by (simp add: HUE_def Let_def)
qed

end
