(* ===== verification/Theme.thy ===== *)
theory Theme
  imports Style Volume
begin

text \<open>
  The palette and the theme of the shell (style/style.js): every colour is derived from the base hues by the
  operations of Style, and the theme makes the colours, fonts and measures CSS variables of the document.
\<close>

section \<open>The palette\<close>

definition hue :: "string \<Rightarrow> string" where
  "hue h = the (map_get HUE h)"

text \<open>The table of colours, and its five aliases.\<close>

definition palette :: "(string \<times> string) list" where
  "palette =
     [(''bgRoot'', ''#080a0e''), (''bgFloat'', ''#0d1017''), (''bgElevated'', ''#111520''),
      (''bgHover'', ''#181f2e''), (''bgActive'', ''#141926''), (''border'', alpha (''#ffffff'') ''0.06''),
      (''borderHi'', alpha (''#ffffff'') ''0.11''), (''borderFocus'', alpha (''#ffffff'') ''0.14''),
      (''textHi'', ''#e8edf6''), (''text'', ''#8fa0b8''), (''textDim'', ''#6b7a94''), (''blue'', hue ''blue''),
      (''blueDim'', alpha (hue ''blue'') ''0.12''), (''blueGlow'', alpha (hue ''blue'') ''0.06''),
      (''blueHi'', lighten (hue ''blue'') (18 / 100)), (''blueLo'', darken (hue ''blue'') (15 / 100)),
      (''cyan'', hue ''cyan''), (''cyanDim'', alpha (hue ''cyan'') ''0.12''),
      (''cyanHi'', lighten (hue ''cyan'') (18 / 100)), (''cyanLo'', darken (hue ''cyan'') (15 / 100)),
      (''green'', hue ''green''), (''greenDim'', alpha (hue ''green'') ''0.12''),
      (''greenHi'', lighten (hue ''green'') (20 / 100)), (''greenLo'', darken (hue ''green'') (15 / 100)),
      (''teal'', hue ''teal''), (''tealDim'', alpha (hue ''teal'') ''0.12''),
      (''tealHi'', lighten (hue ''teal'') (20 / 100)), (''tealLo'', darken (hue ''teal'') (15 / 100)),
      (''purple'', hue ''purple''), (''purpleDim'', alpha (hue ''purple'') ''0.12''),
      (''purpleHi'', lighten (hue ''purple'') (15 / 100)), (''purpleLo'', darken (hue ''purple'') (18 / 100)),
      (''pink'', hue ''pink''), (''pinkHi'', lighten (hue ''pink'') (15 / 100)),
      (''pinkLo'', darken (hue ''pink'') (18 / 100)), (''amber'', hue ''amber''),
      (''amberDim'', alpha (hue ''amber'') ''0.12''), (''amberHi'', lighten (hue ''amber'') (15 / 100)),
      (''amberLo'', darken (hue ''amber'') (20 / 100)), (''orange'', hue ''orange''),
      (''orangeHi'', lighten (hue ''orange'') (15 / 100)), (''orangeLo'', darken (hue ''orange'') (18 / 100)),
      (''red'', hue ''red''), (''redDim'', alpha (hue ''red'') ''0.12''),
      (''redHi'', lighten (hue ''red'') (15 / 100)), (''redLo'', darken (hue ''red'') (20 / 100)),
      (''yellow'', hue ''yellow''), (''yellowLo'', darken (hue ''yellow'') (20 / 100))]"

definition aliases :: "(string \<times> string) list" where
  "aliases = [(''a1'', ''blue''), (''a1Dim'', ''blueDim''), (''a1Glow'', ''blueGlow''), (''a2'', ''teal''), (''a2Dim'', ''tealDim'')]"

definition C_of :: "string \<Rightarrow> string" where
  "C_of k = the (map_get palette (case map_get aliases k of None \<Rightarrow> k | Some l \<Rightarrow> l))"

section \<open>Fonts, measures, motion\<close>

definition FONT_MONO :: string where
  "FONT_MONO = [CHR 0x27] @ ''JetBrains Mono'' @ [CHR 0x27] @ '', '' @ [CHR 0x27] @ ''IBM Plex Mono'' @ [CHR 0x27] @ '', ''
     @ [CHR 0x27] @ ''Fira Mono'' @ [CHR 0x27] @ '', monospace''"

definition FONT_UI :: string where
  "FONT_UI = [CHR 0x27] @ ''Rubik'' @ [CHR 0x27] @ '', '' @ [CHR 0x27] @ ''Inter'' @ [CHR 0x27] @ '', sans-serif''"

definition FONT_HEADING :: string where
  "FONT_HEADING = [CHR 0x27] @ ''Poppins'' @ [CHR 0x27] @ '', '' @ [CHR 0x27] @ ''Georgia'' @ [CHR 0x27] @ '', serif''"

definition FS :: "(string \<times> string) list" where
  "FS =
     [(''sm'', ''0.70rem''), (''base'', ''0.75rem''), (''ui'', ''0.8125rem''), (''md'', ''0.875rem'')]"

definition CHROME :: "(string \<times> string) list" where
  "CHROME =
     [(''stripW'', ''3.2rem''), (''titleH'', ''2rem''), (''iconSize'', ''2.9rem''), (''btnSize'', ''2.1rem''),
      (''iconR'', ''0.5rem''), (''widgetR'', ''0.625rem''), (''gap'', ''0.4rem''), (''btnSvgSz'', ''0.98em''),
      (''stripSvgSz'', ''1.56em''), (''thumbSvgSz'', ''1.32em'')]"

definition EASE_SINE :: string where "EASE_SINE = ''cubic-bezier(0.37, 0, 0.63, 1)''"
definition EASE_IN :: string where "EASE_IN = ''cubic-bezier(0.55, 0, 1, 0.45)''"
definition DUR :: string where "DUR = ''0.25s''"

section \<open>The theme\<close>

definition theme_vars :: "(string \<times> string) list" where
  "theme_vars =
     [(''--bg-root'', C_of ''bgRoot''), (''--bg-float'', C_of ''bgFloat''), (''--bg-elevated'', C_of ''bgElevated''),
      (''--bg-hover'', C_of ''bgHover''), (''--bg-active'', C_of ''bgActive''), (''--border'', C_of ''border''),
      (''--border-hi'', C_of ''borderHi''), (''--border-focus'', C_of ''borderFocus''),
      (''--text-hi'', C_of ''textHi''), (''--text'', C_of ''text''), (''--text-dim'', C_of ''textDim''),
      (''--a1'', C_of ''blue''), (''--a1-dim'', C_of ''blueDim''), (''--a1-glow'', C_of ''blueGlow''),
      (''--a2'', C_of ''teal''), (''--a2-dim'', C_of ''tealDim''), (''--blue'', C_of ''blue''),
      (''--blue-hi'', C_of ''blueHi''), (''--blue-lo'', C_of ''blueLo''), (''--cyan'', C_of ''cyan''),
      (''--cyan-hi'', C_of ''cyanHi''), (''--green'', C_of ''green''), (''--green-hi'', C_of ''greenHi''),
      (''--teal'', C_of ''teal''), (''--teal-hi'', C_of ''tealHi''), (''--purple'', C_of ''purple''),
      (''--purple-hi'', C_of ''purpleHi''), (''--pink'', C_of ''pink''), (''--pink-hi'', C_of ''pinkHi''),
      (''--amber'', C_of ''amber''), (''--amber-hi'', C_of ''amberHi''), (''--orange'', C_of ''orange''),
      (''--orange-hi'', C_of ''orangeHi''), (''--red'', C_of ''red''), (''--red-dim'', C_of ''redDim''),
      (''--red-hi'', C_of ''redHi''), (''--yellow'', C_of ''yellow''), (''--font-ui'', FONT_UI),
      (''--font-mono'', FONT_MONO), (''--font-heading'', FONT_HEADING), (''--fs-sm'', the (map_get FS ''sm'')),
      (''--fs-base'', the (map_get FS ''base'')), (''--fs-ui'', the (map_get FS ''ui'')),
      (''--fs-md'', the (map_get FS ''md'')), (''--strip-w'', the (map_get CHROME ''stripW'')),
      (''--title-h'', the (map_get CHROME ''titleH'')), (''--icon-size'', the (map_get CHROME ''iconSize'')),
      (''--btn-size'', the (map_get CHROME ''btnSize'')), (''--icon-r'', the (map_get CHROME ''iconR'')),
      (''--widget-r'', the (map_get CHROME ''widgetR'')), (''--gap'', the (map_get CHROME ''gap'')),
      (''--btn-svg-sz'', the (map_get CHROME ''btnSvgSz'')),
      (''--strip-svg-sz'', the (map_get CHROME ''stripSvgSz'')),
      (''--thumb-svg-sz'', the (map_get CHROME ''thumbSvgSz'')), (''--ease-sine'', EASE_SINE),
      (''--ease-in'', EASE_IN), (''--dur'', DUR)]"

definition THEME_STYLE_ID :: string where "THEME_STYLE_ID = ''gimbal-theme''"

text \<open>The style elements of the document by their identifiers; one that is there is not made again.\<close>

type_synonym styles = "(string \<times> string) list"

definition injectStyles :: "string \<Rightarrow> string \<Rightarrow> styles \<Rightarrow> styles" where
  "injectStyles i css doc = (if i \<in> fst ` set doc then doc else doc @ [(i, css)])"

definition newline :: string where "newline = [CHR 0x0A]"

definition theme_css :: string where
  "theme_css = '':root {'' @ newline @ js_join newline (map (\<lambda>(k, v). ''  '' @ k @ '': '' @ v @ '';'') theme_vars) @ newline @ ''}''"

definition injectTheme :: "styles \<Rightarrow> styles" where
  "injectTheme doc = (if THEME_STYLE_ID \<in> fst ` set doc then doc else injectStyles THEME_STYLE_ID theme_css doc)"

text \<open>The value of a variable, given those the document computes, and \<open>cssVar\<close>.\<close>

definition cssVar :: "(string \<Rightarrow> string) \<Rightarrow> string \<Rightarrow> string" where
  "cssVar computed name = trim (computed (if starts_with ''--'' name then name else ''--'' @ name))"

section \<open>Properties\<close>

definition hex_colour :: "string \<Rightarrow> bool" where
  "hex_colour s \<longleftrightarrow> length s = 7 \<and> hd s = CHR ''#'' \<and> list_all (\<lambda>c. hex_val c \<noteq> None) (tl s)"

definition is_colour :: "string \<Rightarrow> bool" where
  "is_colour s \<longleftrightarrow> hex_colour s \<or> starts_with ''rgba('' s"

definition lightness :: "string \<Rightarrow> rat" where
  "lightness c = snd (snd (parse_colour c))"

lemma hex_val_hex_digit: "n < 16 \<Longrightarrow> hex_val (hex_digit n) \<noteq> None"
  by (simp add: hex_val_digit)

lemma hex2_colour: "length (hex2 v) = 2 \<and> list_all (\<lambda>c. hex_val c \<noteq> None) (hex2 v)" if "byte v"
proof -
  have "nat (v div 16) < 16" "nat (v mod 16) < 16" using that by (auto simp: byte_def)
  then show ?thesis using hex_val_hex_digit by (simp add: hex2_def)
qed

lemma rgbToHex_colour: "hex_colour (rgbToHex r g b)"
  using hex2_colour [OF byte_byte_of, of r] hex2_colour [OF byte_byte_of, of g] hex2_colour [OF byte_byte_of, of b]
  by (simp add: rgbToHex_def hex_colour_def)

lemma derived_colour: "is_colour (lighten c x)" "is_colour (darken c x)" "is_colour (alpha c a)" "hex_colour v \<Longrightarrow> is_colour v"
  by (auto simp: is_colour_def lighten_def darken_def compose_colour_def rgbToHex_colour alpha_def
      split: prod.split)

lemma hues_are_hex: "list_all (\<lambda>(_, v). hex_colour v) HUE"
  by code_simp

lemma hue_colour: "h \<in> fst ` set HUE \<Longrightarrow> is_colour (hue h)"
proof -
  assume "h \<in> fst ` set HUE"
  then obtain v where "map_get HUE h = Some v" using map_of_eq_None_iff [of HUE h] by blast
  then show ?thesis using hues_are_hex map_of_SomeD [of HUE h v] by (auto simp: hue_def list_all_iff derived_colour(4))
qed

text \<open>Every entry of the table is a colour that a browser reads.\<close>

theorem palette_colours: "list_all (\<lambda>(_, v). is_colour v) palette"
proof -
  have h: "list_all (\<lambda>h. h \<in> fst ` set HUE) [''blue'', ''cyan'', ''green'', ''teal'', ''purple'', ''pink'', ''amber'', ''orange'', ''red'', ''yellow'']"
    by code_simp
  have lit: "list_all hex_colour [''#080a0e'', ''#0d1017'', ''#111520'', ''#181f2e'', ''#141926'', ''#e8edf6'', ''#8fa0b8'', ''#6b7a94'']"
    by code_simp
  show ?thesis unfolding palette_def using h lit by (simp only: list.pred_inject prod.case derived_colour hue_colour simp_thms)
qed

text \<open>The variables of the theme, with the entries of the table that the colours come from.\<close>

definition colour_vars :: "(string \<times> string) list" where
  "colour_vars =
     [(''--bg-root'', ''bgRoot''), (''--bg-float'', ''bgFloat''), (''--bg-elevated'', ''bgElevated''),
      (''--bg-hover'', ''bgHover''), (''--bg-active'', ''bgActive''), (''--border'', ''border''),
      (''--border-hi'', ''borderHi''), (''--border-focus'', ''borderFocus''), (''--text-hi'', ''textHi''),
      (''--text'', ''text''), (''--text-dim'', ''textDim''), (''--a1'', ''blue''), (''--a1-dim'', ''blueDim''),
      (''--a1-glow'', ''blueGlow''), (''--a2'', ''teal''), (''--a2-dim'', ''tealDim''), (''--blue'', ''blue''),
      (''--blue-hi'', ''blueHi''), (''--blue-lo'', ''blueLo''), (''--cyan'', ''cyan''), (''--cyan-hi'', ''cyanHi''),
      (''--green'', ''green''), (''--green-hi'', ''greenHi''), (''--teal'', ''teal''), (''--teal-hi'', ''tealHi''),
      (''--purple'', ''purple''), (''--purple-hi'', ''purpleHi''), (''--pink'', ''pink''),
      (''--pink-hi'', ''pinkHi''), (''--amber'', ''amber''), (''--amber-hi'', ''amberHi''),
      (''--orange'', ''orange''), (''--orange-hi'', ''orangeHi''), (''--red'', ''red''), (''--red-dim'', ''redDim''),
      (''--red-hi'', ''redHi''), (''--yellow'', ''yellow'')]"

lemma palette_names: "map fst palette =
     [''bgRoot'', ''bgFloat'', ''bgElevated'', ''bgHover'', ''bgActive'', ''border'', ''borderHi'', ''borderFocus'',
      ''textHi'', ''text'', ''textDim'', ''blue'', ''blueDim'', ''blueGlow'', ''blueHi'', ''blueLo'', ''cyan'',
      ''cyanDim'', ''cyanHi'', ''cyanLo'', ''green'', ''greenDim'', ''greenHi'', ''greenLo'', ''teal'', ''tealDim'',
      ''tealHi'', ''tealLo'', ''purple'', ''purpleDim'', ''purpleHi'', ''purpleLo'', ''pink'', ''pinkHi'',
      ''pinkLo'', ''amber'', ''amberDim'', ''amberHi'', ''amberLo'', ''orange'', ''orangeHi'', ''orangeLo'', ''red'',
      ''redDim'', ''redHi'', ''redLo'', ''yellow'', ''yellowLo'']"
  unfolding palette_def by simp

lemma theme_names: "map fst theme_vars =
     [''--bg-root'', ''--bg-float'', ''--bg-elevated'', ''--bg-hover'', ''--bg-active'', ''--border'',
      ''--border-hi'', ''--border-focus'', ''--text-hi'', ''--text'', ''--text-dim'', ''--a1'', ''--a1-dim'',
      ''--a1-glow'', ''--a2'', ''--a2-dim'', ''--blue'', ''--blue-hi'', ''--blue-lo'', ''--cyan'', ''--cyan-hi'',
      ''--green'', ''--green-hi'', ''--teal'', ''--teal-hi'', ''--purple'', ''--purple-hi'', ''--pink'',
      ''--pink-hi'', ''--amber'', ''--amber-hi'', ''--orange'', ''--orange-hi'', ''--red'', ''--red-dim'',
      ''--red-hi'', ''--yellow'', ''--font-ui'', ''--font-mono'', ''--font-heading'', ''--fs-sm'', ''--fs-base'',
      ''--fs-ui'', ''--fs-md'', ''--strip-w'', ''--title-h'', ''--icon-size'', ''--btn-size'', ''--icon-r'',
      ''--widget-r'', ''--gap'', ''--btn-svg-sz'', ''--strip-svg-sz'', ''--thumb-svg-sz'', ''--ease-sine'',
      ''--ease-in'', ''--dur'']"
  unfolding theme_vars_def by simp

lemma colour_keys: "list_all (\<lambda>(_, k). (case map_get aliases k of None \<Rightarrow> k | Some l \<Rightarrow> l) \<in> set (map fst palette)) colour_vars"
  unfolding palette_names by code_simp

lemma C_of_colour:
  assumes "(case map_get aliases k of None \<Rightarrow> k | Some l \<Rightarrow> l) \<in> set (map fst palette)"
  shows "is_colour (C_of k)"
proof -
  let ?k = "case map_get aliases k of None \<Rightarrow> k | Some l \<Rightarrow> l"
  obtain v where v: "map_get palette ?k = Some v" using assms map_of_eq_None_iff [of palette ?k] by auto
  then show ?thesis using palette_colours map_of_SomeD [OF v] by (auto simp: C_of_def list_all_iff)
qed

text \<open>The theme gives each variable once, and each variable of a colour a colour of the table.\<close>

theorem theme_variables:
  "distinct (map fst theme_vars) \<and> list_all (\<lambda>(k, _). starts_with ''--'' k) theme_vars
   \<and> take 37 theme_vars = map (\<lambda>(n, k). (n, C_of k)) colour_vars \<and> list_all (\<lambda>(_, k). is_colour (C_of k)) colour_vars"
proof (intro conjI)
  show "distinct (map fst theme_vars)" unfolding theme_names by code_simp
  have "list_all (starts_with ''--'') (map fst theme_vars)" unfolding theme_names by code_simp
  then show "list_all (\<lambda>(k, _). starts_with ''--'' k) theme_vars" by (simp add: list_all_iff case_prod_unfold)
  show "take 37 theme_vars = map (\<lambda>(n, k). (n, C_of k)) colour_vars"
    unfolding theme_vars_def colour_vars_def by simp
  show "list_all (\<lambda>(_, k). is_colour (C_of k)) colour_vars"
    using colour_keys C_of_colour unfolding list_all_iff case_prod_unfold by blast
qed

text \<open>Injecting twice is injecting once, and the first of two styles with an identifier stays.\<close>

theorem inject_once:
  "injectTheme (injectTheme doc) = injectTheme doc
   \<and> injectStyles i css' (injectStyles i css doc) = injectStyles i css doc
   \<and> (distinct (map fst (injectStyles i css doc)) = distinct (map fst doc))"
  by (auto simp: injectTheme_def injectStyles_def)

end
