(* ===== verification/Iframe.thy ===== *)
theory Iframe
  imports Widgets
begin

text \<open>
  The widget that shows a page (iframe/gwm-widget.js): its three buttons and its title. What the browser lets the
  widget see of the page is an argument of the handler of \<open>load\<close>.
\<close>

section \<open>State\<close>

text \<open>The buttons are there once the shell shows them; each is enabled or not.\<close>

record iframe =
  if_src :: string
  if_name :: string
  if_title :: string
  if_back :: "bool option"
  if_forward :: "bool option"
  if_refresh :: "bool option"

definition new_iframe :: "string \<Rightarrow> string option \<Rightarrow> bool \<Rightarrow> iframe" where
  "new_iframe name url buttons =
     (let b = (if buttons then Some True else None)
      in \<lparr>if_src = or_else url ''about:blank'', if_name = name, if_title = name, if_back = b, if_forward = b, if_refresh = b\<rparr>)"

definition setNavEnabled :: "bool \<Rightarrow> iframe \<Rightarrow> iframe" where
  "setNavEnabled enabled w =
     w\<lparr>if_back := map_option (\<lambda>_. enabled) (if_back w), if_forward := map_option (\<lambda>_. enabled) (if_forward w),
       if_refresh := map_option (\<lambda>_. enabled) (if_refresh w)\<rparr>"

section \<open>A page has loaded\<close>

text \<open>
  A page of another origin hides its history. Of one of the same origin: its title, its address, the length of
  the history. \<open>parse\<close> is the parsing of a URL into host and path.
\<close>

datatype page_view = Hidden | Page (pv_title: string) (pv_href: string) (pv_history: nat)

definition shortenUrl :: "(string \<Rightarrow> (string \<times> string) option) \<Rightarrow> string \<Rightarrow> string" where
  "shortenUrl parse href =
     (case parse href of
        None \<Rightarrow> href
      | Some (hostname, pathname) \<Rightarrow> hostname @ (if pathname \<noteq> ''/'' then pathname else []))"

text \<open>
  The handler of \<open>load\<close>. After the title it reads \<open>cursor\<close>, which the module nowhere declares; the
  module is strict code, so this throws, and what follows is never reached.
\<close>

definition on_load :: "(string \<Rightarrow> (string \<times> string) option) \<Rightarrow> page_view \<Rightarrow> iframe \<Rightarrow> (err + unit) \<times> iframe" where
  "on_load parse view w =
     (case view of
        Hidden \<Rightarrow> (Inr (), setNavEnabled False w)
      | Page title href len \<Rightarrow>
          (Inl (Err_Reference ''cursor is not defined''),
           w\<lparr>if_title := (if title \<noteq> [] then title else shortenUrl parse href)\<rparr>))"

definition loads :: "(string \<Rightarrow> (string \<times> string) option) \<Rightarrow> page_view list \<Rightarrow> iframe \<Rightarrow> iframe" where
  "loads parse views w = fold (\<lambda>v w. snd (on_load parse v w)) views w"

section \<open>The buttons\<close>

text \<open>
  Once a page of another origin has been shown, the buttons stay disabled for good, whatever is loaded afterwards;
  until then they are enabled, whatever the history is.
\<close>

theorem buttons_stick:
  "if_back (loads parse views (new_iframe name url True)) = Some (list_all (\<lambda>v. v \<noteq> Hidden) views)
   \<and> if_forward (loads parse views (new_iframe name url True)) = Some (list_all (\<lambda>v. v \<noteq> Hidden) views)
   \<and> if_refresh (loads parse views (new_iframe name url True)) = Some (list_all (\<lambda>v. v \<noteq> Hidden) views)"
proof -
  have "if_back (loads parse views w) = Some (b \<and> list_all (\<lambda>v. v \<noteq> Hidden) views)
      \<and> if_forward (loads parse views w) = Some (b \<and> list_all (\<lambda>v. v \<noteq> Hidden) views)
      \<and> if_refresh (loads parse views w) = Some (b \<and> list_all (\<lambda>v. v \<noteq> Hidden) views)"
    if "if_back w = Some b" "if_forward w = Some b" "if_refresh w = Some b" for w b
    using that
  proof (induction views arbitrary: w b)
    case Nil
    then show ?case by (simp add: loads_def)
  next
    case (Cons v views)
    define w1 where "w1 = snd (on_load parse v w)"
    have "if_back w1 = Some (b \<and> v \<noteq> Hidden)" "if_forward w1 = Some (b \<and> v \<noteq> Hidden)" "if_refresh w1 = Some (b \<and> v \<noteq> Hidden)"
      using Cons.prems by (cases v; simp add: w1_def on_load_def setNavEnabled_def)+
    from Cons.IH [OF this] show ?case by (simp add: loads_def w1_def)
  qed
  from this [of "new_iframe name url True" True] show ?thesis by (simp add: new_iframe_def Let_def)
qed

text \<open>The title is the one of the last page that could be seen, or the name of the widget.\<close>

lemma title_of_last_page:
  "if_title (loads parse (views @ [v]) w) =
     (case v of Hidden \<Rightarrow> if_title (loads parse views w)
      | Page title href len \<Rightarrow> if title \<noteq> [] then title else shortenUrl parse href)"
  by (cases v) (simp_all add: loads_def on_load_def setNavEnabled_def)

end
