(* ===== verification/Spec2Isabelle.thy ===== *)
theory Spec2Isabelle
  imports Desync Mirror Cid Volume_Link Volume_Desync Tools_Volume Service_Worker Lifecycle Desktop Jq_Terminal Project Overlay Markdown Theme Terminal Inbox Files_Widget Editor Compose Iframe Test_Runner
begin

text \<open>
  A verification development for the browser client of Grits, a content-addressed file system, and for Gimbal, the
  shell built on it (src/client/lib). All theories are about JavaScript sources below that directory; paths in this
  text are relative to it.

  \<^bold>\<open>The program.\<close> A client (\<open>GritsClient\<close>, grits/GritsClient.js) keeps a cache of JSON values and one of blobs,
  both keyed by content identifiers, and a registry of volumes. A volume (\<open>GritsVolume\<close>) resolves paths by walking
  cached directories from addresses it already knows and by asking its server, fetches blobs through a mirror manager
  (grits/MirrorManager.js) that verifies them by their hash (grits/HashVerifier.js), and changes the tree of the server by link
  requests, at once or through a queue (\<open>DesyncQueue\<close>). The shell (gimbal/) gives every command
  a module of its own, found by name and run with the result of the command before it in a pipeline. The
  widgets (files, inbox, mail, terminal, editor, markdown, project, iframe) are opened by the overlay manager, work on volumes
  through the same operations as the commands and ask the user by dialogs. A service worker (serviceworker/) answers
  requests of pages from a volume.

  \<^bold>\<open>Conventions.\<close>
  \<^item> A string is the list of its UTF-8 code units, bytes are \<open>8 word\<close>, and a \<open>Map\<close> or an object used as one is an
    association list in the order of insertion (Prelude). Numbers in JSON are integers; times, ratios and colour components are
    exact rationals where the code has doubles.
  \<^item> A method that may throw is a program over an explicit state, \<open>prog\<close>: it returns an error or a value and the
    state after it, also when it throws. Commands and widgets are programs \<open>aprog\<close> and
    \<open>wprog\<close> (Shell, Widgets), where None is a promise that never settles.
  \<^item> Between two awaits JavaScript runs uninterrupted. A method runs its awaits in order; where other code may run in between
    and matters, the parts are separate definitions or events of a step relation (Desync, Overlay, Terminal, Dialog, Compose), or
    what happens meanwhile is an argument (Editor, Files_Widget). Work that is started and not awaited is a
    definition of its own, run at any later time. Which promise wins a race is an argument.
  \<^item> What comes from outside the sources is an argument: the network, the clock and SHA-256 (\<open>platform\<close>), prompts and
    pickers, the import of a module, the URL parser, the Lezer parser, CodeMirror, the archive library and the layout of
    values in the terminal. A property that needs two contents with one identifier to be equal has
    \<open>inj (p_digest P)\<close> as a hypothesis, and it is witnessed with a platform where that holds.

  \<^bold>\<open>The theories.\<close>
  \<^item> Prelude, Contracts, Json, Escapes, Platform: the language. JSON printing and parsing, percent escapes, requests and
    responses, with their round trips and the rules by which programs keep an invariant (\<open>gives\<close>, \<open>keeps\<close>).
  \<^item> Paths: path normalisation, \<open>GimbalPath\<close>, \<open>resolvePath\<close>, glob patterns against their language.
  \<^item> Cid: Base58, multihash and content identifiers, \<open>HashVerifier\<close>; the encoder in place against the
    positional reference, with the size of its array shown to be enough.
  \<^item> Tracker, Mirror: \<open>PerformanceTracker\<close> and \<open>MirrorManager\<close>, choice of a mirror, fallback, statistics.
  \<^item> Desync: the queue of pending links as a state machine: its invariant, what is left when it stops, and that it drains.
  \<^item> Client_State, Volume: the state of the client and of a volume and all their operations. Volume_Cache: the caches hold
    under an identifier only content with that identifier. Volume_Lookup: the local walk as a partial evaluation of the
    tree that identifiers spell out, the mini-roots, what a lookup returns. Volume_Link: linking, uploading,
    prefetching, login and logout, the service worker. Volume_Desync: lookups and links through the queue.
  \<^item> Shell: values, dispatch of a command by name, results, globs. Tools_Files, Tools_Access, Tools_Session, Tools_Unzip,
    Test_Runner: the commands. Tools_Volume: all commands on the volumes of the model, as sequences of dispatched
    calls on a fresh client.
  \<^item> Service_Worker: serviceworker/grits-serviceworker.js.
  \<^item> Overlay, Dialog, Widgets: gimbal/overlay.js, gimbal/dialog.js and what widgets share. Terminal, Jq_Terminal, Inbox, Compose,
    Files_Widget, Editor, Markdown, Project_Tree, Project, Iframe: gterm, jqterminal, inbox, mail, files, codemirror, markdown,
    project, iframe.
  \<^item> Style, Theme: style/style.js: colour conversions, the palette and the variables of the theme.

  \<^item> Lifecycle: the timers of clients, volumes and self-refreshing widgets, and the objects of which the shell keeps one.
  \<^item> Desktop: commands and widgets together on one client, with other work in between at every await.

  \<^bold>\<open>Interfaces.\<close> The locale \<open>node_reader\<close> (Volume_Lookup) is what the walk needs from the caches, and
  \<open>content_api\<close> (Tools_Volume) what commands and widgets need from volumes; the latter holds again when other programs
  that keep its invariant run in between (Desktop). \<open>codec\<close> and \<open>codec_pair\<close> (Contracts) are writers with readers that undo
  them (JSON text, bytes and percent escapes, project documents), \<open>step_invariant\<close> and \<open>event_invariant\<close> state machines
  with their invariants (the queue, toasts, the overlay, the terminal, the tracker, timers). Each is interpreted on the
  definitions that provide it, and the properties rest on these interpretations.

  \<^bold>\<open>Bounds and fuel.\<close> Loops over data are structural recursions. The retry loop of a link may go on for as long as the
  server asks for blobs, so it is an option, with the theorem that it ends when what the server can ask for is finite. The
  comparison of two directories takes the depth of the left one as fuel, which is as deep as it can descend. Timers of
  the toast fire by a measure on the pending ones. The prefetch queue and the desync queue are run by as many steps as
  they have items.

  \<^bold>\<open>Not modelled.\<close> Styles, icons, element layout, scrolling and focus: they are texts for the browser and have no
  behaviour here. What a periodic timer calls happens at any time, so its period has no model. The run-time type checks
  of arguments (\<open>_assertString\<close> and the like), which the types of the model exclude, and \<open>_deepFreeze\<close>: cached values are
  values here. \<open>gc\<close>, which does nothing. The themes of CodeMirror (codemirror/theme.js), the
  page with an xterm of wasmer/, which only joins third-party parts, and the test suites (the \<open>test.js\<close> files and
  grits/GritsClientTests.js). The server and its tools, written in Go: their answers are arguments.
\<close>

end
